(* ===== verification/Prelude.thy ===== *)
theory Prelude
  imports Main "HOL-Library.Multiset"
begin

text \<open>
  Shared vocabulary of the development: the names of the Go types the components
  exchange, the collections the component proofs feed to the simplifier, and generic
  facts on lists and maps.
\<close>

section \<open>Names of the Go types\<close>

text \<open>A Go \<open>string\<close> is a byte sequence, an Isabelle \<open>string\<close> a list of bytes.
  \<open>time.Duration\<close> and \<open>time.Time\<close> count nanoseconds.\<close>

type_synonym ID = string
type_synonym duration = int
type_synonym time = int

abbreviation second :: duration where
  "second \<equiv> 1000000000"

abbreviation minute :: duration where
  "minute \<equiv> 60 * second"

text \<open>The range of a signed 64-bit Go \<open>int\<close>.\<close>

abbreviation int_min :: int where
  "int_min \<equiv> - (2 ^ 63)"

abbreviation int_max :: int where
  "int_max \<equiv> 2 ^ 63 - 1"

section \<open>Collections of facts\<close>

named_theorems frame_simps "fields an operation does not write"
named_theorems invariant_intros "operations that keep a component invariant"

section \<open>Lists\<close>

lemma nth_append_length_Cons [simp]: "(xs @ y # ys) ! length xs = y"
  by (simp add: nth_append)

lemma sorted_wrt_same_mset_unique:
  assumes "sorted_wrt R xs" and "sorted_wrt R ys" and "mset xs = mset ys"
    and anti: "\<And>x y. x \<in> set xs \<Longrightarrow> y \<in> set xs \<Longrightarrow> R x y \<Longrightarrow> R y x \<Longrightarrow> x = y"
  shows "xs = ys"
  using assms
proof (induction xs arbitrary: ys)
  case Nil
  then show ?case by simp
next
  case (Cons x xs)
  then obtain y ys' where ys: "ys = y # ys'" by (cases ys) auto
  have set_eq: "set (x # xs) = set (y # ys')"
    using Cons.prems(3) ys by (metis set_mset_mset)
  have xy: "x = y"
  proof (rule ccontr)
    assume "x \<noteq> y"
    with set_eq have "x \<in> set ys'" "y \<in> set xs" by auto
    with Cons.prems(1,2) ys have "R x y" "R y x" by auto
    with Cons.prems(4) \<open>y \<in> set xs\<close> have "x = y" by simp
    with \<open>x \<noteq> y\<close> show False by simp
  qed
  have "xs = ys'"
    using Cons.prems ys xy by (intro Cons.IH) auto
  with ys xy show ?case by simp
qed

section \<open>Maps\<close>

lemma map_upd_inj_iff:
  "inj_on m (dom m) \<Longrightarrow> v \<notin> ran m \<Longrightarrow> inj_on (m(k \<mapsto> v)) (dom (m(k \<mapsto> v)))"
  by (auto simp: inj_on_def ran_def split: if_splits)

lemma ran_map_upd_None:
  assumes "inj_on m (dom m)" and "m k = Some v"
  shows "ran (m(k := None)) = ran m - {v}"
proof -
  have only: "j = k" if "m j = Some v" for j
    using inj_onD [OF assms(1), of j k] assms(2) that by (simp add: domIff)
  show ?thesis
  proof (intro equalityI subsetI)
    fix x assume "x \<in> ran (m(k := None))"
    then obtain j where "(m(k := None)) j = Some x" by (auto simp: ran_def)
    then have j: "j \<noteq> k" "m j = Some x" by (auto split: if_splits)
    with only show "x \<in> ran m - {v}" by (blast intro: ranI)
  next
    fix x assume "x \<in> ran m - {v}"
    then obtain j where "m j = Some x" "x \<noteq> v" by (auto simp: ran_def)
    with assms(2) have "(m(k := None)) j = Some x" by auto
    then show "x \<in> ran (m(k := None))" by (rule ranI)
  qed
qed

lemma inj_on_map_upd_None: "inj_on m (dom m) \<Longrightarrow> inj_on (m(k := None)) (dom (m(k := None)))"
  by (auto simp: inj_on_def split: if_splits)

end
