(* ===== verification/Status.thy ===== *)
theory Status
  imports Prelude
begin

text \<open>
  The instance states of \<^verbatim>\<open>status.go\<close>. \<open>Status\<close> is a \<open>uint8\<close> with four named
  values; every other value a caller may pass to \<open>Pool.SetStatus\<close> is
  \<open>StatusOther\<close>. The atomic cell of an instance stores the value as an integer
  (\<open>status.Store(uint32(s))\<close>, \<open>Status(in.status.Load())\<close>): \<open>status_code\<close> and
  \<open>status_of_code\<close> are the two conversions.
\<close>

datatype Status =
    StatusProbing
  | StatusNormal
  | StatusDraining
  | StatusDisabled
  | StatusOther nat

text \<open>\<open>Status.String\<close>\<close>

fun Status_String :: "Status \<Rightarrow> string" where
  "Status_String StatusProbing = ''Probing''"
| "Status_String StatusNormal = ''Normal''"
| "Status_String StatusDraining = ''Draining''"
| "Status_String StatusDisabled = ''Disabled''"
| "Status_String (StatusOther n) = ''Unknown''"

text \<open>The \<open>iota\<close> values; \<open>StatusOther n\<close> is the value \<open>n + 4\<close>.\<close>

fun status_code :: "Status \<Rightarrow> nat" where
  "status_code StatusProbing = 0"
| "status_code StatusNormal = 1"
| "status_code StatusDraining = 2"
| "status_code StatusDisabled = 3"
| "status_code (StatusOther n) = n + 4"

definition status_of_code :: "nat \<Rightarrow> Status" where
  "status_of_code n =
     (if n = 0 then StatusProbing else if n = 1 then StatusNormal
      else if n = 2 then StatusDraining else if n = 3 then StatusDisabled
      else StatusOther (n - 4))"

lemma status_of_code_code [simp]: "status_of_code (status_code s) = s"
  by (cases s) (simp_all add: status_of_code_def)

lemma status_code_of_code [simp]: "status_code (status_of_code n) = n"
  by (auto simp: status_of_code_def)

lemma status_code_inject [simp]: "status_code s = status_code t \<longleftrightarrow> s = t"
  by (metis status_of_code_code)

definition known_status :: "Status \<Rightarrow> bool" where
  "known_status s \<longleftrightarrow> (\<forall>n. s \<noteq> StatusOther n)"

lemma known_status_code: "known_status s \<longleftrightarrow> status_code s < 4"
  by (cases s) (auto simp: known_status_def)

text \<open>Status values are ordered by their code, as the \<open>iota\<close> constants are.\<close>

instantiation Status :: linorder
begin

definition less_eq_Status :: "Status \<Rightarrow> Status \<Rightarrow> bool" where
  "less_eq_Status s t \<longleftrightarrow> status_code s \<le> status_code t"

definition less_Status :: "Status \<Rightarrow> Status \<Rightarrow> bool" where
  "less_Status s t \<longleftrightarrow> status_code s < status_code t"

instance
  by standard (auto simp: less_eq_Status_def less_Status_def)

end

lemma Status_String_known_inj:
  "known_status s \<Longrightarrow> known_status t \<Longrightarrow> Status_String s = Status_String t \<Longrightarrow> s = t"
  by (cases s; cases t) (auto simp: known_status_def)

end
