(* ===== verification/GoText.thy ===== *)
theory GoText
  imports Prelude
begin

text \<open>
  The functions of Go's standard library on text that the program uses: \<open>strconv.Itoa\<close> and
  \<open>strconv.Atoi\<close> (64-bit \<open>int\<close>), \<open>net.JoinHostPort\<close> and \<open>net.SplitHostPort\<close>, and
  \<open>strings.Compare\<close>. Errors carry no text, so a failing call is \<open>None\<close>.
\<close>

section \<open>Decimal numbers\<close>

definition digit_char :: "nat \<Rightarrow> char" where
  "digit_char d = char_of (48 + d)"

definition is_digit :: "char \<Rightarrow> bool" where
  "is_digit c \<longleftrightarrow> 48 \<le> (of_char c :: nat) \<and> (of_char c :: nat) \<le> 57"

definition digit_val :: "char \<Rightarrow> nat" where
  "digit_val c = of_char c - 48"

fun itoa_nat :: "nat \<Rightarrow> string" where
  "itoa_nat n = (if n < 10 then [digit_char n] else itoa_nat (n div 10) @ [digit_char (n mod 10)])"

declare itoa_nat.simps [simp del]

text \<open>\<open>strconv.Itoa\<close>\<close>

definition Itoa :: "int \<Rightarrow> string" where
  "Itoa i = (if i < 0 then CHR ''-'' # itoa_nat (nat (- i)) else itoa_nat (nat i))"

text \<open>The digit loop of \<open>strconv.Atoi\<close>; \<open>None\<close> at the first byte that is no digit.\<close>

fun atoi_digits :: "nat \<Rightarrow> string \<Rightarrow> nat option" where
  "atoi_digits n [] = Some n"
| "atoi_digits n (c # cs) =
     (if is_digit c then atoi_digits (n * 10 + digit_val c) cs else None)"

text \<open>\<open>strconv.Atoi\<close>: an optional sign, at least one digit, a value that fits 64 bits.\<close>

definition Atoi :: "string \<Rightarrow> int option" where
  "Atoi s =
     (let neg = (s \<noteq> [] \<and> hd s = CHR ''-'');
          ds = (if s \<noteq> [] \<and> (hd s = CHR ''-'' \<or> hd s = CHR ''+'') then tl s else s)
      in if ds = [] then None
         else case atoi_digits 0 ds of
                None \<Rightarrow> None
              | Some n \<Rightarrow> (let i = (if neg then - int n else int n)
                          in if int_min \<le> i \<and> i \<le> int_max then Some i else None))"

lemma of_char_digit_char [simp]: "d < 10 \<Longrightarrow> (of_char (digit_char d) :: nat) = 48 + d"
  by (simp add: digit_char_def of_char_of)

lemma digit_char_digit [simp]:
  "d < 10 \<Longrightarrow> is_digit (digit_char d)" "d < 10 \<Longrightarrow> digit_val (digit_char d) = d"
  by (simp_all add: is_digit_def digit_val_def)

lemma atoi_digits_append:
  "atoi_digits n (s @ t) = Option.bind (atoi_digits n s) (\<lambda>m. atoi_digits m t)"
  by (induction s arbitrary: n) auto

lemma itoa_nat_neq_Nil [simp]: "itoa_nat n \<noteq> []"
  by (subst itoa_nat.simps) simp

lemma itoa_nat_digits: "\<forall>c \<in> set (itoa_nat n). is_digit c"
proof (induction n rule: itoa_nat.induct)
  case (1 n)
  then show ?case by (cases "n < 10") (auto simp: itoa_nat.simps [of n])
qed

lemma atoi_itoa_nat: "atoi_digits 0 (itoa_nat n) = Some n"
proof (induction n rule: itoa_nat.induct)
  case (1 n)
  then show ?case
    by (cases "n < 10") (simp_all add: itoa_nat.simps [of n] atoi_digits_append)
qed

lemma digit_not_special:
  "is_digit c \<Longrightarrow> c \<noteq> CHR ''-'' \<and> c \<noteq> CHR ''+'' \<and> c \<noteq> CHR '':'' \<and> c \<noteq> CHR ''[''
     \<and> c \<noteq> CHR '']'' \<and> c \<noteq> CHR ''.'' \<and> c \<noteq> CHR ''|'' \<and> c \<noteq> CHR ''%''"
  by (auto simp: is_digit_def)

text \<open>Every \<open>int\<close> that Go can hold survives printing and parsing.\<close>

lemma Atoi_Itoa [simp]:
  assumes "int_min \<le> i" and "i \<le> int_max"
  shows "Atoi (Itoa i) = Some i"
proof (cases "i < 0")
  case True
  with assms show ?thesis by (simp add: Itoa_def Atoi_def Let_def atoi_itoa_nat)
next
  case False
  have "is_digit (hd (itoa_nat (nat i)))"
    using itoa_nat_digits [of "nat i"] hd_in_set [OF itoa_nat_neq_Nil] by blast
  with assms False show ?thesis
    by (auto simp: Itoa_def Atoi_def Let_def atoi_itoa_nat dest!: digit_not_special)
qed

lemma Itoa_nat_inj: "itoa_nat m = itoa_nat n \<Longrightarrow> m = n"
  by (metis atoi_itoa_nat option.inject)

lemma Itoa_inj: "Itoa i = Itoa j \<Longrightarrow> i = j"
proof -
  assume eq: "Itoa i = Itoa j"
  have d: "CHR ''-'' # t \<noteq> itoa_nat n" for t n
    using itoa_nat_digits [of n] digit_not_special by (metis list.set_intros(1))
  from eq d show ?thesis
    by (auto simp: Itoa_def dest!: Itoa_nat_inj split: if_splits) (metis d)+
qed

lemma Itoa_nonneg_digits: "0 \<le> i \<Longrightarrow> c \<in> set (Itoa i) \<Longrightarrow> is_digit c"
  using itoa_nat_digits by (auto simp: Itoa_def)

lemma Itoa_neq_Nil [simp]: "Itoa i \<noteq> []"
  by (simp add: Itoa_def)

section \<open>Index functions of the string package\<close>

fun IndexByte :: "string \<Rightarrow> char \<Rightarrow> nat option" where
  "IndexByte [] c = None"
| "IndexByte (x # xs) c = (if x = c then Some 0 else map_option Suc (IndexByte xs c))"

fun LastIndexByte :: "string \<Rightarrow> char \<Rightarrow> nat option" where
  "LastIndexByte [] c = None"
| "LastIndexByte (x # xs) c =
     (case LastIndexByte xs c of
        Some i \<Rightarrow> Some (Suc i)
      | None \<Rightarrow> if x = c then Some 0 else None)"

lemma IndexByte_None_iff [simp]: "IndexByte s c = None \<longleftrightarrow> c \<notin> set s"
  by (induction s) auto

lemma LastIndexByte_None_iff [simp]: "LastIndexByte s c = None \<longleftrightarrow> c \<notin> set s"
  by (induction s) (auto split: option.splits)

lemma IndexByte_append:
  "c \<notin> set s \<Longrightarrow> IndexByte (s @ c # t) c = Some (length s)"
  by (induction s) auto

lemma LastIndexByte_append:
  "c \<notin> set t \<Longrightarrow> LastIndexByte (s @ c # t) c = Some (length s)"
  by (induction s) (auto simp: option.case_eq_if)

lemma IndexByte_SomeD:
  "IndexByte s c = Some i \<Longrightarrow> i < length s \<and> s ! i = c \<and> c \<notin> set (take i s)"
  by (induction s arbitrary: i) (auto split: if_splits)

lemma LastIndexByte_SomeD:
  "LastIndexByte s c = Some i \<Longrightarrow> i < length s \<and> s ! i = c \<and> c \<notin> set (drop (Suc i) s)"
  by (induction s arbitrary: i) (auto split: if_splits option.splits)

section \<open>Host and port\<close>

text \<open>\<open>net.JoinHostPort\<close>\<close>

definition JoinHostPort :: "string \<Rightarrow> string \<Rightarrow> string" where
  "JoinHostPort host port =
     (if CHR '':'' \<in> set host then CHR ''['' # host @ '']:'' @ port else host @ '':'' @ port)"

text \<open>The common tail of \<open>net.SplitHostPort\<close>: no stray bracket may be left.\<close>

definition split_tail :: "string \<Rightarrow> string \<Rightarrow> nat \<Rightarrow> nat \<Rightarrow> nat \<Rightarrow> (string \<times> string) option" where
  "split_tail hostport host i j k =
     (if CHR ''['' \<in> set (drop j hostport) then None
      else if CHR '']'' \<in> set (drop k hostport) then None
      else Some (host, drop (i + 1) hostport))"

text \<open>\<open>net.SplitHostPort\<close>: the port starts after the last colon; a bracketed host may
  hold colons, a plain one may not.\<close>

definition SplitHostPort :: "string \<Rightarrow> (string \<times> string) option" where
  "SplitHostPort hostport =
     (case LastIndexByte hostport (CHR '':'') of
        None \<Rightarrow> None
      | Some i \<Rightarrow>
          if hd hostport = CHR ''['' then
            (case IndexByte hostport (CHR '']'') of
               None \<Rightarrow> None
             | Some e \<Rightarrow>
                 if e + 1 = length hostport then None
                 else if e + 1 = i
                 then split_tail hostport (take (e - 1) (drop 1 hostport)) i 1 (e + 1)
                 else None)
          else
            (let host = take i hostport
             in if CHR '':'' \<in> set host then None else split_tail hostport host i 0 0))"

definition plain_text :: "string \<Rightarrow> bool" where
  "plain_text s \<longleftrightarrow> CHR ''['' \<notin> set s \<and> CHR '']'' \<notin> set s"

lemma SplitHostPort_JoinHostPort:
  assumes "plain_text h" and "plain_text p" and "CHR '':'' \<notin> set p"
  shows "SplitHostPort (JoinHostPort h p) = Some (h, p)"
proof (cases "CHR '':'' \<in> set h")
  case True
  have "LastIndexByte (CHR ''['' # h @ '']:'' @ p) (CHR '':'') = Some (length h + 2)"
    using LastIndexByte_append [of "CHR '':''" p "CHR ''['' # h @ '']''"] assms(3) by simp
  moreover have "IndexByte (CHR ''['' # h @ '']:'' @ p) (CHR '']'') = Some (length h + 1)"
    using IndexByte_append [of "CHR '']''" "CHR ''['' # h" "CHR '':'' # p"] assms(1)
    by (simp add: plain_text_def)
  ultimately show ?thesis
    using assms True by (simp add: SplitHostPort_def JoinHostPort_def split_tail_def plain_text_def)
next
  case False
  have "hd (h @ '':'' @ p) \<noteq> CHR ''[''"
    using assms(1) by (cases h) (auto simp: plain_text_def)
  moreover have "LastIndexByte (h @ '':'' @ p) (CHR '':'') = Some (length h)"
    using LastIndexByte_append [of "CHR '':''" p h] assms(3) by simp
  ultimately show ?thesis
    using assms False
    by (simp add: SplitHostPort_def JoinHostPort_def split_tail_def plain_text_def)
qed

text \<open>The host that \<open>SplitHostPort\<close> returns never holds a bracket.\<close>

lemma SplitHostPort_plain:
  assumes "SplitHostPort s = Some (h, p)"
  shows "plain_text h"
proof -
  from assms obtain i where i: "LastIndexByte s (CHR '':'') = Some i"
    by (auto simp: SplitHostPort_def split: option.splits)
  show ?thesis
  proof (cases "hd s = CHR ''[''")
    case False
    with assms i have "h = take i s" and "plain_text s"
      by (auto simp: SplitHostPort_def split_tail_def plain_text_def Let_def split: if_splits)
    then show ?thesis by (auto simp: plain_text_def dest: in_set_takeD)
  next
    case True
    from assms i True obtain e where e: "IndexByte s (CHR '']'') = Some e"
      and h: "h = take (e - 1) (drop 1 s)" and lb: "CHR ''['' \<notin> set (drop 1 s)"
      by (auto simp: SplitHostPort_def split_tail_def split: option.splits if_splits)
    from IndexByte_SomeD [OF e] have "CHR '']'' \<notin> set (take e s)" by simp
    then have "CHR '']'' \<notin> set (drop 1 (take e s))" by (auto dest: in_set_dropD)
    then have "CHR '']'' \<notin> set h" by (simp add: h drop_take)
    with h lb show ?thesis by (auto simp: plain_text_def dest: in_set_takeD)
  qed
qed

lemma plain_text_Itoa: "0 \<le> i \<Longrightarrow> plain_text (Itoa i) \<and> CHR '':'' \<notin> set (Itoa i)"
  using Itoa_nonneg_digits digit_not_special by (fastforce simp: plain_text_def)

lemma JoinHostPort_inj_port: "JoinHostPort h p = JoinHostPort h q \<Longrightarrow> p = q"
  by (auto simp: JoinHostPort_def split: if_splits)

section \<open>Three-way comparison of strings\<close>

text \<open>\<open>strings.Compare\<close> on bytes.\<close>

fun Compare :: "string \<Rightarrow> string \<Rightarrow> int" where
  "Compare [] [] = 0"
| "Compare [] (_ # _) = -1"
| "Compare (_ # _) [] = 1"
| "Compare (x # xs) (y # ys) =
     (if (of_char x :: nat) < of_char y then -1
      else if (of_char y :: nat) < of_char x then 1 else Compare xs ys)"

text \<open>\<open>cmp.Compare\<close> on numbers.\<close>

definition cmpCompare :: "'a::linorder \<Rightarrow> 'a \<Rightarrow> int" where
  "cmpCompare x y = (if x < y then -1 else if y < x then 1 else 0)"

lemma Compare_eq_0 [simp]: "Compare s t = 0 \<longleftrightarrow> s = t"
  by (induction s t rule: Compare.induct) (auto simp: not_less)

lemma cmpCompare_le_0 [simp]: "cmpCompare x y \<le> 0 \<longleftrightarrow> x \<le> y"
  by (auto simp: cmpCompare_def)

end
