(* ===== verification/NetAddr.thy ===== *)
theory NetAddr
  imports GoText "HOL-Library.Word"
begin

text \<open>
  The part of Go's \<open>net/netip\<close> that the program uses: the type \<open>Addr\<close>, its
  classification, \<open>Addr.String\<close> and \<open>netip.ParseAddr\<close>. An IPv4 address is its four
  bytes, an IPv6 address its eight 16-bit groups and a zone (empty for none). The main
  result is that parsing undoes printing, so that equal texts are equal addresses.
\<close>

datatype Addr =
    AddrZero
  | AddrV4 "8 word" "8 word" "8 word" "8 word"
  | AddrV6 "16 word" "16 word" "16 word" "16 word" "16 word" "16 word" "16 word" "16 word" string

definition IsValid :: "Addr \<Rightarrow> bool" where
  "IsValid a \<longleftrightarrow> a \<noteq> AddrZero"

fun Is4 :: "Addr \<Rightarrow> bool" where
  "Is4 (AddrV4 _ _ _ _) = True"
| "Is4 _ = False"

fun Is6 :: "Addr \<Rightarrow> bool" where
  "Is6 (AddrV6 _ _ _ _ _ _ _ _ _) = True"
| "Is6 _ = False"

lemma valid_4_or_6: "IsValid a \<longleftrightarrow> Is4 a \<or> Is6 a"
  by (cases a) (auto simp: IsValid_def)

lemma not_4_and_6: "Is4 a \<Longrightarrow> \<not> Is6 a"
  by (cases a) auto

section \<open>Printing\<close>

definition dotted :: "8 word \<Rightarrow> 8 word \<Rightarrow> 8 word \<Rightarrow> 8 word \<Rightarrow> string" where
  "dotted a b c d =
     itoa_nat (unat a) @ CHR ''.'' # itoa_nat (unat b) @ CHR ''.'' # itoa_nat (unat c) @
     CHR ''.'' # itoa_nat (unat d)"

text \<open>One lower-case hexadecimal digit, and a group without leading zeros.\<close>

definition hex_char :: "nat \<Rightarrow> char" where
  "hex_char d = (if d < 10 then char_of (48 + d) else char_of (87 + d))"

definition hex_group :: "16 word \<Rightarrow> string" where
  "hex_group g =
     (let x = unat g
      in (if 4096 \<le> x then [hex_char (x div 4096)] else []) @
         (if 256 \<le> x then [hex_char (x div 256 mod 16)] else []) @
         (if 16 \<le> x then [hex_char (x div 16 mod 16)] else []) @ [hex_char (x mod 16)])"

fun join_groups :: "16 word list \<Rightarrow> string" where
  "join_groups [] = ''''"
| "join_groups [g] = hex_group g"
| "join_groups (g # gs) = hex_group g @ CHR '':'' # join_groups gs"

text \<open>The search for the longest run of at least two zero groups, first one on ties.\<close>

definition zero_run :: "16 word list \<Rightarrow> nat \<Rightarrow> nat" where
  "zero_run gs i = length (takeWhile (\<lambda>g. g = 0) (drop i gs))"

fun zero_search :: "16 word list \<Rightarrow> nat list \<Rightarrow> (nat \<times> nat) option \<Rightarrow> (nat \<times> nat) option" where
  "zero_search gs [] best = best"
| "zero_search gs (i # is) best =
     (let l = zero_run gs i
      in if 2 \<le> l \<and> (case best of None \<Rightarrow> True | Some (a, b) \<Rightarrow> b - a < l)
         then zero_search gs is (Some (i, i + l)) else zero_search gs is best)"

definition string6 :: "16 word list \<Rightarrow> string" where
  "string6 gs =
     (case zero_search gs [0..<length gs] None of
        None \<Rightarrow> join_groups gs
      | Some (a, b) \<Rightarrow> join_groups (take a gs) @ ''::'' @ join_groups (drop b gs))"

definition hi_byte :: "16 word \<Rightarrow> 8 word" where
  "hi_byte g = of_nat (unat g div 256)"

definition lo_byte :: "16 word \<Rightarrow> 8 word" where
  "lo_byte g = of_nat (unat g mod 256)"

definition word_of_bytes :: "8 word \<Rightarrow> 8 word \<Rightarrow> 16 word" where
  "word_of_bytes a b = of_nat (unat a * 256 + unat b)"

definition zone_suffix :: "string \<Rightarrow> string" where
  "zone_suffix z = (if z = [] then [] else CHR ''%'' # z)"

text \<open>\<open>Addr.String\<close>; an IPv4-mapped IPv6 address prints its last two groups dotted.\<close>

fun Addr_String :: "Addr \<Rightarrow> string" where
  "Addr_String AddrZero = ''invalid IP''"
| "Addr_String (AddrV4 a b c d) = dotted a b c d"
| "Addr_String (AddrV6 g0 g1 g2 g3 g4 g5 g6 g7 z) =
     (if [g0, g1, g2, g3, g4] = [0, 0, 0, 0, 0] \<and> g5 = 0xffff
      then ''::ffff:'' @ dotted (hi_byte g6) (lo_byte g6) (hi_byte g7) (lo_byte g7)
      else string6 [g0, g1, g2, g3, g4, g5, g6, g7]) @ zone_suffix z"

section \<open>Parsing\<close>

text \<open>One IPv4 field: one to three digits, no leading zero, at most 255.\<close>

definition parse_octet :: "string \<Rightarrow> (8 word) option" where
  "parse_octet s =
     (if s = [] \<or> 3 < length s \<or> (1 < length s \<and> hd s = CHR ''0'') then None
      else case atoi_digits 0 s of
             None \<Rightarrow> None
           | Some n \<Rightarrow> if n \<le> 255 then Some (of_nat n) else None)"

text \<open>Text up to the next dot, and what follows it.\<close>

fun split_dot :: "string \<Rightarrow> string list" where
  "split_dot [] = [[]]"
| "split_dot (c # cs) =
     (if c = CHR ''.'' then [] # split_dot cs
      else case split_dot cs of [] \<Rightarrow> [[c]] | x # xs \<Rightarrow> (c # x) # xs)"

definition parseIPv4Fields :: "string \<Rightarrow> (8 word \<times> 8 word \<times> 8 word \<times> 8 word) option" where
  "parseIPv4Fields s =
     (case map parse_octet (split_dot s) of
        [Some a, Some b, Some c, Some d] \<Rightarrow> Some (a, b, c, d)
      | _ \<Rightarrow> None)"

definition hex_val :: "char \<Rightarrow> nat option" where
  "hex_val c =
     (let n = of_char c :: nat
      in if 48 \<le> n \<and> n \<le> 57 then Some (n - 48)
         else if 97 \<le> n \<and> n \<le> 102 then Some (n - 87)
         else if 65 \<le> n \<and> n \<le> 70 then Some (n - 55) else None)"

definition is_hex :: "char \<Rightarrow> bool" where
  "is_hex c \<longleftrightarrow> hex_val c \<noteq> None"

definition hex_value :: "string \<Rightarrow> nat" where
  "hex_value s = foldl (\<lambda>acc c. acc * 16 + the (hex_val c)) 0 s"

text \<open>The end of \<open>parseIPv6\<close>: the whole text must be used, and an ellipsis must stand for
  at least one group.\<close>

definition finish6 :: "16 word list \<Rightarrow> nat option \<Rightarrow> string \<Rightarrow> (16 word list) option" where
  "finish6 gs ell s =
     (if s \<noteq> [] then None
      else if length gs < 8 then
        (case ell of None \<Rightarrow> None
         | Some e \<Rightarrow> Some (take e gs @ replicate (8 - length gs) 0 @ drop e gs))
      else if ell \<noteq> None then None else Some gs)"

lemma length_dropWhile_tail: "y # ys = dropWhile P s \<Longrightarrow> length ys < length s"
  by (metis length_Cons length_dropWhile_le less_eq_Suc_le)

text \<open>The group loop of \<open>parseIPv6\<close>: \<open>gs\<close> the groups read, \<open>ell\<close> where the ellipsis was.\<close>

function parse6 :: "16 word list \<Rightarrow> nat option \<Rightarrow> string \<Rightarrow> (16 word list) option" where
  "parse6 gs ell s =
     (if 8 \<le> length gs then finish6 gs ell s
      else
        (let h = takeWhile is_hex s; rest = dropWhile is_hex s
         in if 4 < length h \<or> h = [] then None
            else if rest \<noteq> [] \<and> hd rest = CHR ''.'' then
              (if ell = None \<and> length gs \<noteq> 6 \<or> 8 < length gs + 2 then None
               else case parseIPv4Fields s of
                      None \<Rightarrow> None
                    | Some (a, b, c, d) \<Rightarrow>
                        finish6 (gs @ [word_of_bytes a b, word_of_bytes c d]) ell [])
            else
              (let gs' = gs @ [of_nat (hex_value h)]
               in case rest of
                    [] \<Rightarrow> finish6 gs' ell []
                  | [c] \<Rightarrow> None
                  | c # c' # cs \<Rightarrow>
                      if c \<noteq> CHR '':'' then None
                      else if c' = CHR '':'' then
                        (if ell \<noteq> None then None
                         else if cs = [] then finish6 gs' (Some (length gs')) []
                         else parse6 gs' (Some (length gs')) cs)
                      else parse6 gs' ell (c' # cs))))"
  by pat_completeness auto
termination
  by (relation "measure (\<lambda>(gs, ell, s). length s)")
    (auto dest!: length_dropWhile_tail)

declare parse6.simps [simp del]

definition addr_of_groups :: "16 word list \<Rightarrow> string \<Rightarrow> Addr option" where
  "addr_of_groups gs z =
     (case gs of
        [g0, g1, g2, g3, g4, g5, g6, g7] \<Rightarrow> Some (AddrV6 g0 g1 g2 g3 g4 g5 g6 g7 z)
      | _ \<Rightarrow> None)"

definition parseIPv6 :: "string \<Rightarrow> Addr option" where
  "parseIPv6 inp =
     (let (s, z, ok) =
        (case IndexByte inp (CHR ''%'') of
           None \<Rightarrow> (inp, [], True)
         | Some i \<Rightarrow> (take i inp, drop (i + 1) inp, drop (i + 1) inp \<noteq> []))
      in if \<not> ok then None
         else if take 2 s = ''::'' then
           (if drop 2 s = [] then addr_of_groups (replicate 8 0) z
            else Option.bind (parse6 [] (Some 0) (drop 2 s)) (\<lambda>gs. addr_of_groups gs z))
         else Option.bind (parse6 [] None s) (\<lambda>gs. addr_of_groups gs z))"

text \<open>\<open>netip.ParseAddr\<close>: the first dot, colon or percent sign decides the family.\<close>

fun first_sep :: "string \<Rightarrow> char option" where
  "first_sep [] = None"
| "first_sep (c # cs) =
     (if c = CHR ''.'' \<or> c = CHR '':'' \<or> c = CHR ''%'' then Some c else first_sep cs)"

definition ParseAddr :: "string \<Rightarrow> Addr option" where
  "ParseAddr s =
     (if first_sep s = Some (CHR ''.'') then
        map_option (\<lambda>(a, b, c, d). AddrV4 a b c d) (parseIPv4Fields s)
      else if first_sep s = Some (CHR '':'') then parseIPv6 s
      else None)"

section \<open>Parsing undoes printing\<close>

subsection \<open>Dotted decimal\<close>

lemma itoa_nat_length: "n < 1000 \<Longrightarrow> length (itoa_nat n) \<le> 3"
  by (simp add: itoa_nat.simps [of n] itoa_nat.simps [of "n div 10"]
      itoa_nat.simps [of "n div 10 div 10"])

lemma itoa_nat_hd: "0 < n \<Longrightarrow> hd (itoa_nat n) \<noteq> CHR ''0''"
proof (induction n rule: itoa_nat.induct)
  case (1 n)
  show ?case
  proof (cases "n < 10")
    case True
    with 1 have "digit_char n \<noteq> CHR ''0''"
      using of_char_digit_char [of n] by (auto simp del: of_char_digit_char)
    with True show ?thesis by (simp add: itoa_nat.simps [of n])
  next
    case False
    with 1 have "hd (itoa_nat (n div 10)) \<noteq> CHR ''0''" by simp
    with False show ?thesis by (simp add: itoa_nat.simps [of n])
  qed
qed

lemma parse_octet_itoa: "parse_octet (itoa_nat (unat (b :: 8 word))) = Some b"
proof -
  have lt: "unat b < 256" using unsigned_less [of b, where 'a = nat] by simp
  have "length (itoa_nat (unat b)) \<le> 3" using lt by (simp add: itoa_nat_length)
  moreover have "\<not> (1 < length (itoa_nat (unat b)) \<and> hd (itoa_nat (unat b)) = CHR ''0'')"
  proof (cases "unat b = 0")
    case True
    then show ?thesis by (simp add: itoa_nat.simps [of 0])
  next
    case False
    then show ?thesis using itoa_nat_hd [of "unat b"] by simp
  qed
  moreover have "unat b \<le> 255" using lt by simp
  ultimately show ?thesis
    by (simp add: parse_octet_def atoi_itoa_nat del: One_nat_def)
qed

lemma split_dot_neq_Nil [simp]: "split_dot s \<noteq> []"
  by (induction s) (auto split: list.splits)

lemma split_dot_append:
  "CHR ''.'' \<notin> set x \<Longrightarrow> split_dot (x @ CHR ''.'' # y) = x # split_dot y"
  by (induction x) auto

lemma split_dot_plain: "CHR ''.'' \<notin> set x \<Longrightarrow> split_dot x = [x]"
  by (induction x) auto

lemma itoa_nat_no_dot: "CHR ''.'' \<notin> set (itoa_nat n)"
  using itoa_nat_digits digit_not_special by blast

lemma parseIPv4Fields_dotted: "parseIPv4Fields (dotted a b c d) = Some (a, b, c, d)"
  by (simp add: parseIPv4Fields_def dotted_def split_dot_append split_dot_plain
      itoa_nat_no_dot parse_octet_itoa)

subsection \<open>Hexadecimal groups\<close>

lemma hex_val_hex_char [simp]: "d < 16 \<Longrightarrow> hex_val (hex_char d) = Some d"
  by (auto simp: hex_val_def hex_char_def of_char_of Let_def)

lemma is_hex_hex_char [simp]: "d < 16 \<Longrightarrow> is_hex (hex_char d)"
  by (simp add: is_hex_def)

lemma not_is_hex [simp]:
  "\<not> is_hex (CHR '':'')" "\<not> is_hex (CHR ''.'')" "\<not> is_hex (CHR ''%'')"
  by (simp_all add: is_hex_def hex_val_def Let_def)

lemma unat_group_less: "unat (g :: 16 word) < 65536"
  using unsigned_less [of g, where 'a = nat] by simp

lemma hex_group_neq_Nil [simp]: "hex_group g \<noteq> []"
  by (simp add: hex_group_def Let_def)

lemma hex_group_hex: "c \<in> set (hex_group g) \<Longrightarrow> is_hex c"
  using unat_group_less [of g] by (auto simp: hex_group_def Let_def split: if_splits)

lemma hex_group_length: "length (hex_group g) \<le> 4"
  by (simp add: hex_group_def Let_def)

lemma hex_value_hex_group: "hex_value (hex_group g) = unat g"
proof -
  define x y z w where "x = unat g" and "y = x div 16" and "z = y div 16" and "w = z div 16"
  note defs = this
  have eqs: "x = 16 * y + x mod 16" "y = 16 * z + y mod 16" "z = 16 * w + z mod 16"
    by (simp_all add: defs)
  have divs: "x div 256 = z" "x div 4096 = w" "x div 16 = y"
    by (simp_all add: defs flip: div_mult2_eq)
  have bounds: "x mod 16 < 16" "y mod 16 < 16" "z mod 16 < 16" by simp_all
  have "w < 16" using unat_group_less [of g] divs(2) by (simp add: x_def)
  have grp: "hex_group g =
      (if 4096 \<le> x then [hex_char w] else []) @
      (if 256 \<le> x then [hex_char (z mod 16)] else []) @
      (if 16 \<le> x then [hex_char (y mod 16)] else []) @ [hex_char (x mod 16)]"
    by (simp add: hex_group_def Let_def divs flip: x_def)
  consider "4096 \<le> x" | "256 \<le> x" "x < 4096" | "16 \<le> x" "x < 256" | "x < 16" by linarith
  then show ?thesis
    by cases (use eqs bounds \<open>w < 16\<close> in \<open>simp_all add: grp hex_value_def flip: x_def\<close>)
qed

lemma hex_group_scan:
  "takeWhile is_hex (hex_group g) = hex_group g"
  "dropWhile is_hex (hex_group g) = []"
  "takeWhile is_hex (hex_group g @ CHR '':'' # s) = hex_group g"
  "dropWhile is_hex (hex_group g @ CHR '':'' # s) = CHR '':'' # s"
  using hex_group_hex by (simp_all add: takeWhile_append dropWhile_append)

lemmas hex_group_facts =
  hex_group_scan hex_value_hex_group hex_group_length [THEN leD]

lemma parse6_group_end:
  "length gs < 8 \<Longrightarrow> parse6 gs ell (hex_group g) = finish6 (gs @ [g]) ell []"
  by (simp add: parse6.simps [of gs ell "hex_group g"] hex_group_facts Let_def)

lemma parse6_group_colon:
  "length gs < 8 \<Longrightarrow> s \<noteq> [] \<Longrightarrow> hd s \<noteq> CHR '':'' \<Longrightarrow>
   parse6 gs ell (hex_group g @ CHR '':'' # s) = parse6 (gs @ [g]) ell s"
  by (subst parse6.simps) (cases s; simp add: hex_group_facts Let_def)

lemma parse6_group_ellipsis:
  "length gs < 8 \<Longrightarrow>
   parse6 gs None (hex_group g @ ''::'' @ s) =
     (if s = [] then finish6 (gs @ [g]) (Some (Suc (length gs))) []
      else parse6 (gs @ [g]) (Some (Suc (length gs))) s)"
  by (subst parse6.simps) (simp add: hex_group_facts Let_def)

lemma join_groups_Cons2 [simp]:
  "gs \<noteq> [] \<Longrightarrow> join_groups (g # gs) = hex_group g @ CHR '':'' # join_groups gs"
  by (cases gs) auto

lemma join_groups_hd: "gs \<noteq> [] \<Longrightarrow> join_groups gs \<noteq> [] \<and> is_hex (hd (join_groups gs))"
  using hex_group_hex [OF hd_in_set] by (cases gs rule: join_groups.cases) auto

lemma join_groups_hd_colon:
  "gs \<noteq> [] \<Longrightarrow> hd (join_groups gs @ t) \<noteq> CHR '':'' \<and> join_groups gs @ t \<noteq> []"
  using join_groups_hd [of gs] not_is_hex(1) by (metis append_is_Nil_conv hd_append2)

lemma parse6_join:
  "xs \<noteq> [] \<Longrightarrow> length gs + length xs \<le> 8 \<Longrightarrow>
   parse6 gs ell (join_groups xs) = finish6 (gs @ xs) ell []"
proof (induction xs arbitrary: gs)
  case Nil
  then show ?case by simp
next
  case (Cons x xs)
  show ?case
  proof (cases "xs = []")
    case True
    with Cons.prems show ?thesis by (simp add: parse6_group_end)
  next
    case False
    then show ?thesis
      using Cons.prems Cons.IH [of "gs @ [x]"] join_groups_hd_colon [of xs "[]"]
      by (simp add: parse6_group_colon)
  qed
qed

lemma parse6_join_ellipsis:
  "xs \<noteq> [] \<Longrightarrow> length gs + length xs \<le> 8 \<Longrightarrow>
   parse6 gs None (join_groups xs @ ''::'' @ s) =
     (if s = [] then finish6 (gs @ xs) (Some (length (gs @ xs))) []
      else parse6 (gs @ xs) (Some (length (gs @ xs))) s)"
proof (induction xs arbitrary: gs)
  case Nil
  then show ?case by simp
next
  case (Cons x xs)
  show ?case
  proof (cases "xs = []")
    case True
    with Cons.prems show ?thesis using parse6_group_ellipsis [of gs x s] by simp
  next
    case False
    then show ?thesis
      using Cons.prems Cons.IH [of "gs @ [x]"] join_groups_hd_colon [of xs "''::'' @ s"]
      by (simp add: parse6_group_colon)
  qed
qed

subsection \<open>The zero run\<close>

definition zero_block :: "16 word list \<Rightarrow> nat \<times> nat \<Rightarrow> bool" where
  "zero_block gs ab \<longleftrightarrow>
     (case ab of (a, b) \<Rightarrow> a + 2 \<le> b \<and> b \<le> length gs \<and>
        gs = take a gs @ replicate (b - a) 0 @ drop b gs)"

lemma takeWhile_eq_replicate: "takeWhile (\<lambda>g. g = c) xs = replicate (length (takeWhile (\<lambda>g. g = c) xs)) c"
  by (metis (mono_tags) replicate_length_same set_takeWhileD)

lemma zero_run_block:
  assumes "i < length gs" and "2 \<le> zero_run gs i"
  shows "zero_block gs (i, i + zero_run gs i)"
proof -
  let ?l = "zero_run gs i"
  have "drop i gs = takeWhile (\<lambda>g. g = 0) (drop i gs) @ dropWhile (\<lambda>g. g = 0) (drop i gs)"
    by simp
  also have "dropWhile (\<lambda>g. g = 0) (drop i gs) = drop (i + ?l) gs"
    by (simp add: zero_run_def dropWhile_eq_drop add.commute)
  also have "takeWhile (\<lambda>g. g = 0) (drop i gs) = replicate ?l 0"
    by (simp add: zero_run_def flip: takeWhile_eq_replicate)
  finally have d: "drop i gs = replicate ?l 0 @ drop (i + ?l) gs" .
  have "?l \<le> length gs - i"
    using length_takeWhile_le [of "\<lambda>g. g = 0" "drop i gs"] by (simp add: zero_run_def)
  with assms d show ?thesis
    by (auto simp: zero_block_def) (metis append_take_drop_id)
qed

lemma zero_search_block:
  "set is \<subseteq> {..<length gs} \<Longrightarrow> (\<And>ab. best = Some ab \<Longrightarrow> zero_block gs ab) \<Longrightarrow>
   zero_search gs is best = Some ab \<Longrightarrow> zero_block gs ab"
proof (induction gs "is" best rule: zero_search.induct)
  case (1 gs best)
  then show ?case by simp
next
  case (2 gs i "is" best)
  show ?case
  proof (cases "2 \<le> zero_run gs i \<and>
      (case best of None \<Rightarrow> True | Some (a, b) \<Rightarrow> b - a < zero_run gs i)")
    case True
    with 2 show ?thesis by (simp add: Let_def zero_run_block)
  next
    case False
    with 2 show ?thesis by (simp add: Let_def)
  qed
qed

subsection \<open>Whole addresses\<close>

lemma zero_block_fill:
  assumes "zero_block gs (a, b)" and "length gs = 8"
  shows "finish6 (take a gs @ drop b gs) (Some a) [] = Some gs"
proof -
  have ab: "a + 2 \<le> b" "b \<le> 8" and gs: "gs = take a gs @ replicate (b - a) 0 @ drop b gs"
    using assms by (auto simp: zero_block_def)
  have len: "length (take a gs) = a" using ab assms(2) by simp
  have "length (take a gs @ drop b gs) < 8" and n: "8 - length (take a gs @ drop b gs) = b - a"
    using ab assms(2) by auto
  then have "finish6 (take a gs @ drop b gs) (Some a) [] =
      Some (take a (take a gs @ drop b gs) @ replicate (b - a) 0 @ drop a (take a gs @ drop b gs))"
    by (simp only: finish6_def n) simp
  also have "take a (take a gs @ drop b gs) = take a gs" using len by simp
  also have "drop a (take a gs @ drop b gs) = drop b gs" using len by simp
  finally show ?thesis using gs by simp
qed

definition parse_body :: "string \<Rightarrow> (16 word list) option" where
  "parse_body s =
     (if take 2 s = ''::'' then
        (if drop 2 s = [] then Some (replicate 8 0) else parse6 [] (Some 0) (drop 2 s))
      else parse6 [] None s)"

lemma take_2_not_ellipsis: "hd s \<noteq> CHR '':'' \<Longrightarrow> take 2 s \<noteq> ''::''"
  by (cases s) auto

lemma parse_body_string6:
  assumes "length gs = 8"
  shows "parse_body (string6 gs) = Some gs"
proof (cases "zero_search gs [0..<length gs] None")
  case None
  have ne: "gs \<noteq> []" using assms by auto
  from None have "string6 gs = join_groups gs" by (simp add: string6_def)
  moreover have "take 2 (join_groups gs) \<noteq> ''::''"
    using join_groups_hd_colon [OF ne, of "[]"] by (intro take_2_not_ellipsis) simp
  ultimately show ?thesis
    using parse6_join [OF ne, of "[]" None] assms by (simp add: parse_body_def finish6_def)
next
  case (Some ab)
  obtain a b where ab: "ab = (a, b)" by fastforce
  have blk: "zero_block gs (a, b)"
    using zero_search_block [OF _ _ Some] by (simp add: ab lessThan_atLeast0)
  then have bounds: "a + 2 \<le> b" "b \<le> 8" using assms by (auto simp: zero_block_def)
  have str: "string6 gs = join_groups (take a gs) @ ''::'' @ join_groups (drop b gs)"
    using Some ab by (simp add: string6_def)
  have end_empty: "join_groups (drop b gs) = [] \<longleftrightarrow> b = 8"
    using join_groups_hd [of "drop b gs"] assms bounds by auto
  show ?thesis
  proof (cases "a = 0")
    case True
    show ?thesis
    proof (cases "b = 8")
      case True
      then have "gs = replicate 8 0" using blk \<open>a = 0\<close> assms by (simp add: zero_block_def)
      then show ?thesis using str end_empty True \<open>a = 0\<close> by (simp add: parse_body_def)
    next
      case False
      then have ne: "drop b gs \<noteq> []" using bounds assms by simp
      have "parse6 [] (Some 0) (join_groups (drop b gs)) = finish6 (drop b gs) (Some 0) []"
        using parse6_join [OF ne, of "[]"] assms by simp
      then show ?thesis
        using str end_empty False True zero_block_fill [OF blk assms] by (simp add: parse_body_def)
    qed
  next
    case False
    then have ne: "take a gs \<noteq> []" using assms by auto
    have "take 2 (string6 gs) \<noteq> ''::''"
      unfolding str using join_groups_hd_colon [OF ne] by (intro take_2_not_ellipsis) simp
    moreover have "parse6 [] None (string6 gs) = finish6 (take a gs @ drop b gs) (Some a) []"
    proof (cases "b = 8")
      case True
      then show ?thesis
        unfolding str using parse6_join_ellipsis [OF ne, of "[]" "join_groups (drop b gs)"]
          end_empty bounds assms by (simp add: min_def)
    next
      case False
      then have "drop b gs \<noteq> []" using bounds assms by simp
      then show ?thesis
        unfolding str using parse6_join_ellipsis [OF ne, of "[]" "join_groups (drop b gs)"]
          parse6_join [of "drop b gs" "take a gs" "Some a"] end_empty False bounds assms
        by (simp add: min_def)
    qed
    ultimately show ?thesis using zero_block_fill [OF blk assms] by (simp add: parse_body_def)
  qed
qed

lemma is_hex_digit: "is_digit c \<Longrightarrow> is_hex c"
  by (auto simp: is_digit_def is_hex_def hex_val_def Let_def)

lemma dotted_scan:
  "takeWhile is_hex (dotted a b c d) = itoa_nat (unat a)"
  "\<exists>t. dropWhile is_hex (dotted a b c d) = CHR ''.'' # t"
  "\<not> (\<forall>x \<in> set (dotted a b c d). is_hex x)"
  using itoa_nat_digits is_hex_digit
  by (auto simp: dotted_def takeWhile_append dropWhile_append)

lemma parse6_dotted:
  "length gs \<le> 6 \<Longrightarrow>
   parse6 gs (Some e) (dotted a b c d) =
     finish6 (gs @ [word_of_bytes a b, word_of_bytes c d]) (Some e) []"
  using itoa_nat_length [of "unat a"] unsigned_less [of a, where 'a = nat] dotted_scan(2,3) [of a b c d]
  by (subst parse6.simps) (auto simp: dotted_scan(1) parseIPv4Fields_dotted)

lemma word_of_bytes_hi_lo [simp]: "word_of_bytes (hi_byte g) (lo_byte g) = g"
proof -
  have "unat (hi_byte g) = unat g div 256"
    using unat_group_less [of g] by (simp add: hi_byte_def unat_of_nat)
  moreover have "unat (lo_byte g) = unat g mod 256"
    by (simp add: lo_byte_def unat_of_nat)
  ultimately show ?thesis by (simp add: word_of_bytes_def)
qed

lemma parse_body_mapped:
  "parse_body (''::ffff:'' @ dotted (hi_byte g6) (lo_byte g6) (hi_byte g7) (lo_byte g7)) =
     Some [0, 0, 0, 0, 0, 0xffff, g6, g7]"
proof -
  let ?d = "dotted (hi_byte g6) (lo_byte g6) (hi_byte g7) (lo_byte g7)"
  have d: "?d \<noteq> [] \<and> hd ?d \<noteq> CHR '':''"
    using dotted_scan(1) [of "hi_byte g6" "lo_byte g6" "hi_byte g7" "lo_byte g7"]
      itoa_nat_neq_Nil [of "unat (hi_byte g6)"]
    by (cases ?d) (auto split: if_splits simp del: itoa_nat_neq_Nil)
  have ffff: "hex_group 0xffff = ''ffff''"
    by (simp add: hex_group_def hex_char_def char_of_eq_iff)
  have "parse6 [] (Some 0) (''ffff:'' @ ?d) = parse6 [0xffff] (Some 0) ?d"
    using parse6_group_colon [of "[]" ?d "Some 0" "0xffff"] d by (simp add: ffff)
  also have "\<dots> = Some [0, 0, 0, 0, 0, 0xffff, g6, g7]"
    by (simp add: parse6_dotted finish6_def numeral_eq_Suc)
  finally show ?thesis by (simp add: parse_body_def)
qed

text \<open>A printed body holds no percent sign, so the zone is found again.\<close>

lemma join_groups_no_percent: "CHR ''%'' \<notin> set (join_groups gs)"
  by (induction gs rule: join_groups.induct) (auto dest: hex_group_hex)

lemma string6_no_percent: "CHR ''%'' \<notin> set (string6 gs)"
  by (auto simp: string6_def join_groups_no_percent split: option.splits)

lemma dotted_no_percent: "CHR ''%'' \<notin> set (dotted a b c d)"
  using itoa_nat_digits digit_not_special by (auto simp: dotted_def)

lemma addr_of_groups_Cons8 [simp]:
  "addr_of_groups [g0, g1, g2, g3, g4, g5, g6, g7] z = Some (AddrV6 g0 g1 g2 g3 g4 g5 g6 g7 z)"
  by (simp add: addr_of_groups_def)

lemma parseIPv6_body:
  assumes "CHR ''%'' \<notin> set s"
  shows "parseIPv6 (s @ zone_suffix z) = Option.bind (parse_body s) (\<lambda>gs. addr_of_groups gs z)"
proof (cases "z = []")
  case True
  have "IndexByte s (CHR ''%'') = None" using assms by simp
  with True show ?thesis
    by (simp add: parseIPv6_def parse_body_def zone_suffix_def del: IndexByte_None_iff)
next
  case False
  with assms IndexByte_append [OF assms, of z] show ?thesis
    by (simp add: parseIPv6_def parse_body_def zone_suffix_def)
qed

lemma first_sep_skip: "\<forall>c \<in> set s. is_hex c \<Longrightarrow> first_sep (s @ t) = first_sep t"
  by (induction s) auto

lemma first_sep_join: "2 \<le> length gs \<Longrightarrow> first_sep (join_groups gs @ t) = Some (CHR '':'')"
  by (cases gs rule: join_groups.cases) (auto simp: first_sep_skip hex_group_hex)

lemma first_sep_string6: "length gs = 8 \<Longrightarrow> first_sep (string6 gs @ t) = Some (CHR '':'')"
proof (cases "zero_search gs [0..<length gs] None")
  case None
  then show "length gs = 8 \<Longrightarrow> ?thesis" by (simp add: string6_def first_sep_join)
next
  case (Some ab)
  obtain a b where ab: "ab = (a, b)" by fastforce
  have "first_sep (join_groups xs @ CHR '':'' # u) = Some (CHR '':'')" for xs u
    by (cases xs rule: join_groups.cases) (auto simp: first_sep_skip hex_group_hex)
  then show ?thesis using Some ab by (simp add: string6_def)
qed

lemma first_sep_dotted: "first_sep (dotted a b c d) = Some (CHR ''.'')"
  using itoa_nat_digits is_hex_digit by (simp add: dotted_def first_sep_skip)

lemma ParseAddr_String:
  assumes "IsValid a"
  shows "ParseAddr (Addr_String a) = Some a"
proof (cases a)
  case AddrZero
  with assms show ?thesis by (simp add: IsValid_def)
next
  case (AddrV4 b0 b1 b2 b3)
  then show ?thesis by (simp add: ParseAddr_def first_sep_dotted parseIPv4Fields_dotted)
next
  case (AddrV6 g0 g1 g2 g3 g4 g5 g6 g7 z)
  let ?gs = "[g0, g1, g2, g3, g4, g5, g6, g7]"
  show ?thesis
  proof (cases "[g0, g1, g2, g3, g4] = [0, 0, 0, 0, 0] \<and> g5 = 0xffff")
    case True
    let ?s = "''::ffff:'' @ dotted (hi_byte g6) (lo_byte g6) (hi_byte g7) (lo_byte g7)"
    have "Addr_String a = ?s @ zone_suffix z" using AddrV6 True by simp
    moreover have "first_sep (?s @ zone_suffix z) = Some (CHR '':'')" by simp
    moreover have "parseIPv6 (?s @ zone_suffix z) = Some a"
      using parseIPv6_body [of ?s z] dotted_no_percent parse_body_mapped [of g6 g7] AddrV6 True
      by simp
    ultimately show ?thesis by (simp add: ParseAddr_def)
  next
    case False
    then have "Addr_String a = string6 ?gs @ zone_suffix z" using AddrV6 by auto
    moreover have "first_sep (string6 ?gs @ zone_suffix z) = Some (CHR '':'')"
      by (rule first_sep_string6) simp
    moreover have "parseIPv6 (string6 ?gs @ zone_suffix z) = Some a"
      using parseIPv6_body [OF string6_no_percent] parse_body_string6 [of ?gs] AddrV6 by simp
    ultimately show ?thesis by (simp add: ParseAddr_def)
  qed
qed

lemma Addr_String_inj: "IsValid a \<Longrightarrow> IsValid b \<Longrightarrow> Addr_String a = Addr_String b \<Longrightarrow> a = b"
  using ParseAddr_String by (metis option.inject)

lemma Addr_String_neq_Nil [simp]: "Addr_String a \<noteq> []"
proof (cases "IsValid a")
  case True
  then show ?thesis using ParseAddr_String [OF True] by (auto simp: ParseAddr_def)
next
  case False
  then show ?thesis by (cases a) (auto simp: IsValid_def)
qed

end
