(* ===== verification/Egress.thy ===== *)
theory Egress
  imports NetAddr
begin

text \<open>
  Egress addresses (\<^verbatim>\<open>egress.go\<close>): the pair of stack addresses of an instance, the
  deduplication keys computed from it, the empty-key whitelist, and the HTTP prober. The
  network behind the prober (the SOCKS5 dialer of \<open>x/net/proxy\<close>, the HTTP exchange) is an
  argument: what it answered is a value of \<open>socks_dialer\<close> and \<open>http_result\<close>.
\<close>

record Egress =
  eV4 :: Addr
  eV6 :: Addr

definition zeroEgress :: Egress where
  "zeroEgress = \<lparr>eV4 = AddrZero, eV6 = AddrZero\<rparr>"

definition anyValid :: "Egress \<Rightarrow> bool" where
  "anyValid e \<longleftrightarrow> IsValid (eV4 e) \<or> IsValid (eV6 e)"

definition whitelistedEmptyKey :: "string \<Rightarrow> Egress \<Rightarrow> bool" where
  "whitelistedEmptyKey key e \<longleftrightarrow> key = '''' \<and> anyValid e"

text \<open>An \<open>Egress\<close> is compared with the zero value by \<open>eg != (Egress{})\<close>.\<close>

lemma zeroEgress_iff: "e = zeroEgress \<longleftrightarrow> \<not> anyValid e"
  by (cases e) (auto simp: zeroEgress_def anyValid_def IsValid_def)

section \<open>Deduplication keys\<close>

type_synonym keyer = "Egress \<Rightarrow> string"

definition DedupeByV4 :: keyer where
  "DedupeByV4 e = (if \<not> Is4 (eV4 e) then '''' else Addr_String (eV4 e))"

definition DedupeByV6 :: keyer where
  "DedupeByV6 e = (if \<not> Is6 (eV6 e) then '''' else Addr_String (eV6 e))"

definition dedupeKeySep :: string where
  "dedupeKeySep = ''|''"

definition DedupeByBoth :: keyer where
  "DedupeByBoth e =
     (let v4 = DedupeByV4 e; v6 = DedupeByV6 e
      in if v4 = '''' \<and> v6 = '''' then '''' else v4 @ dedupeKeySep @ v6)"

text \<open>The addresses that count: each stack only where its field is of that family.\<close>

definition effective :: "Egress \<Rightarrow> Addr \<times> Addr" where
  "effective e = (if Is4 (eV4 e) then eV4 e else AddrZero, if Is6 (eV6 e) then eV6 e else AddrZero)"

lemma Is4_IsValid: "Is4 a \<Longrightarrow> IsValid a" and Is6_IsValid: "Is6 a \<Longrightarrow> IsValid a"
  by (auto simp: valid_4_or_6)

lemma DedupeByV4_empty_iff [simp]: "DedupeByV4 e = '''' \<longleftrightarrow> \<not> Is4 (eV4 e)"
  by (simp add: DedupeByV4_def)

lemma DedupeByV6_empty_iff [simp]: "DedupeByV6 e = '''' \<longleftrightarrow> \<not> Is6 (eV6 e)"
  by (simp add: DedupeByV6_def)

lemma DedupeByBoth_empty_iff [simp]:
  "DedupeByBoth e = '''' \<longleftrightarrow> \<not> Is4 (eV4 e) \<and> \<not> Is6 (eV6 e)"
  by (simp add: DedupeByBoth_def dedupeKeySep_def Let_def)

lemma DedupeByV4_eq:
  "DedupeByV4 e = DedupeByV4 f \<Longrightarrow> Is4 (eV4 e) \<Longrightarrow> Is4 (eV4 f) \<Longrightarrow> eV4 e = eV4 f"
  by (auto simp: DedupeByV4_def dest: Addr_String_inj [OF Is4_IsValid Is4_IsValid])

lemma DedupeByV6_eq:
  "DedupeByV6 e = DedupeByV6 f \<Longrightarrow> Is6 (eV6 e) \<Longrightarrow> Is6 (eV6 f) \<Longrightarrow> eV6 e = eV6 f"
  by (auto simp: DedupeByV6_def dest: Addr_String_inj [OF Is6_IsValid Is6_IsValid])

lemma DedupeByV4_no_sep: "CHR ''|'' \<notin> set (DedupeByV4 e)"
  using itoa_nat_digits digit_not_special
  by (cases "eV4 e") (auto simp: DedupeByV4_def dotted_def)

lemma append_sep_inj:
  "c \<notin> set u \<Longrightarrow> c \<notin> set v \<Longrightarrow> u @ c # x = v @ c # y \<Longrightarrow> u = v \<and> x = y"
  by (induction u arbitrary: v) (auto simp: Cons_eq_append_conv)

lemma DedupeByBoth_eq:
  assumes "DedupeByBoth e = DedupeByBoth f" and "DedupeByBoth e \<noteq> ''''"
  shows "effective e = effective f"
proof -
  have "DedupeByV4 e @ CHR ''|'' # DedupeByV6 e = DedupeByV4 f @ CHR ''|'' # DedupeByV6 f"
    using assms by (auto simp: DedupeByBoth_def dedupeKeySep_def Let_def split: if_splits)
  then have eq4: "DedupeByV4 e = DedupeByV4 f" and eq6: "DedupeByV6 e = DedupeByV6 f"
    using append_sep_inj [OF DedupeByV4_no_sep [of e] DedupeByV4_no_sep [of f]] by simp_all
  have "Is4 (eV4 e) = Is4 (eV4 f)"
    using DedupeByV4_empty_iff [of e] DedupeByV4_empty_iff [of f] unfolding eq4 by simp
  moreover have "Is6 (eV6 e) = Is6 (eV6 f)"
    using DedupeByV6_empty_iff [of e] DedupeByV6_empty_iff [of f] unfolding eq6 by simp
  ultimately show ?thesis
    using DedupeByV4_eq [OF eq4] DedupeByV6_eq [OF eq6] by (simp add: effective_def)
qed

subsection \<open>The interface\<close>

text \<open>A failed probe (no valid address) has no key; nothing else is asked of a keyer.\<close>

locale dedupe_keyer =
  fixes Key :: keyer
  assumes no_key_of_zero: "\<not> anyValid e \<Longrightarrow> Key e = ''''"
begin

text \<open>The three cases the pool distinguishes are exclusive and exhaustive.\<close>

lemma key_cases:
  obtains (keyed) "Key e \<noteq> ''''" "\<not> whitelistedEmptyKey (Key e) e" "anyValid e"
  | (whitelisted) "Key e = ''''" "whitelistedEmptyKey (Key e) e" "anyValid e"
  | (failed) "Key e = ''''" "\<not> whitelistedEmptyKey (Key e) e" "e = zeroEgress"
  using no_key_of_zero [of e] unfolding whitelistedEmptyKey_def zeroEgress_iff by blast

end

text \<open>A keyer that identifies some part \<open>ident\<close> of the egress: equal non-empty keys are
  equal parts.\<close>

locale identifying_keyer = dedupe_keyer +
  fixes ident :: "Egress \<Rightarrow> 'a"
  assumes key_of_ident: "ident e = ident f \<Longrightarrow> Key e = Key f"
    and ident_of_key: "Key e = Key f \<Longrightarrow> Key e \<noteq> '''' \<Longrightarrow> ident e = ident f"
begin

lemma same_key_iff: "Key e \<noteq> '''' \<Longrightarrow> Key e = Key f \<longleftrightarrow> ident e = ident f"
  using key_of_ident ident_of_key by blast

end

interpretation byV4: identifying_keyer DedupeByV4 eV4
proof
  show "DedupeByV4 e = ''''" if "\<not> anyValid e" for e
    using that Is4_IsValid by (auto simp: anyValid_def)
  show "DedupeByV4 e = DedupeByV4 f" if "eV4 e = eV4 f" for e f
    using that by (simp add: DedupeByV4_def)
  show "eV4 e = eV4 f" if "DedupeByV4 e = DedupeByV4 f" "DedupeByV4 e \<noteq> ''''" for e f
    using that DedupeByV4_eq DedupeByV4_empty_iff by metis
qed

interpretation byV6: identifying_keyer DedupeByV6 eV6
proof
  show "DedupeByV6 e = ''''" if "\<not> anyValid e" for e
    using that Is6_IsValid by (auto simp: anyValid_def)
  show "DedupeByV6 e = DedupeByV6 f" if "eV6 e = eV6 f" for e f
    using that by (simp add: DedupeByV6_def)
  show "eV6 e = eV6 f" if "DedupeByV6 e = DedupeByV6 f" "DedupeByV6 e \<noteq> ''''" for e f
    using that DedupeByV6_eq DedupeByV6_empty_iff by metis
qed

lemma DedupeByBoth_effective: "effective e = effective f \<Longrightarrow> DedupeByBoth e = DedupeByBoth f"
proof -
  assume eff: "effective e = effective f"
  then have "Is4 (eV4 e) = Is4 (eV4 f)" and "Is6 (eV6 e) = Is6 (eV6 f)"
    by (auto simp: effective_def split: if_splits)
  with eff show ?thesis
    by (auto simp: DedupeByBoth_def DedupeByV4_def DedupeByV6_def effective_def Let_def)
qed

interpretation byBoth: identifying_keyer DedupeByBoth effective
proof
  show "DedupeByBoth e = ''''" if "\<not> anyValid e" for e
    using that Is4_IsValid Is6_IsValid by (auto simp: anyValid_def)
  show "DedupeByBoth e = DedupeByBoth f" if "effective e = effective f" for e f
    using that by (rule DedupeByBoth_effective)
  show "effective e = effective f" if "DedupeByBoth e = DedupeByBoth f" "DedupeByBoth e \<noteq> ''''"
    for e f
    using that by (rule DedupeByBoth_eq)
qed

section \<open>The HTTP prober\<close>

datatype probe_error =
    SocksDialerErr
  | NoContextDialer
  | BadRequestErr
  | RequestErr
  | BadStatus int
  | ReadErr
  | BodyTooLong
  | BadAddress string
  | WrongFamily string
  | BothFailed probe_error probe_error

datatype socks_dialer = SocksErr | PlainDialer | ContextDialer

text \<open>What the HTTP exchange gave: no request, no response, or a status code, the body
  bytes and whether reading them failed.\<close>

datatype http_result = NoRequest | NoResponse | Response int string bool

definition maxProbeBodyBytes :: nat where
  "maxProbeBodyBytes = 64"

definition fetchBody :: "http_result \<Rightarrow> probe_error + string" where
  "fetchBody r =
     (case r of
        NoRequest \<Rightarrow> Inl BadRequestErr
      | NoResponse \<Rightarrow> Inl RequestErr
      | Response status body failed \<Rightarrow>
          if status \<noteq> 200 then Inl (BadStatus status)
          else if failed then Inl ReadErr
          else (let data = take (maxProbeBodyBytes + 1) body
                in if maxProbeBodyBytes < length data then Inl BodyTooLong else Inr data))"

text \<open>\<open>strings.TrimSpace\<close>: the UTF-8 encodings of the Unicode space characters.\<close>

definition spaces :: "string list" where
  "spaces = map (map char_of)
     ([[9], [10], [11], [12], [13], [32], [0xC2, 0x85], [0xC2, 0xA0], [0xE1, 0x9A, 0x80]] @
      map (\<lambda>n. [0xE2, 0x80, n]) [0x80..<0x8B] @
      [[0xE2, 0x80, 0xA8], [0xE2, 0x80, 0xA9], [0xE2, 0x80, 0xAF], [0xE2, 0x81, 0x9F],
       [0xE3, 0x80, 0x80 :: nat]])"

function trimLeft :: "string list \<Rightarrow> string \<Rightarrow> string" where
  "trimLeft sp s =
     (case find (\<lambda>p. p \<noteq> [] \<and> take (length p) s = p) sp of
        None \<Rightarrow> s
      | Some p \<Rightarrow> trimLeft sp (drop (length p) s))"
  by pat_completeness auto
termination
proof (relation "measure (\<lambda>(sp, s). length s)", goal_cases)
  case 1
  show ?case by simp
next
  case (2 sp s p)
  then have "p \<noteq> []" and "take (length p) s = p" by (auto simp: find_Some_iff)
  then have "s \<noteq> []" by auto
  with \<open>p \<noteq> []\<close> show ?case by simp
qed

declare trimLeft.simps [simp del]

definition TrimSpace :: "string \<Rightarrow> string" where
  "TrimSpace s =
     rev (trimLeft (map rev spaces) (rev (trimLeft spaces s)))"

definition probeStack :: "socks_dialer \<Rightarrow> http_result \<Rightarrow> bool \<Rightarrow> probe_error + Addr" where
  "probeStack dialer r v4 =
     (case dialer of
        SocksErr \<Rightarrow> Inl SocksDialerErr
      | PlainDialer \<Rightarrow> Inl NoContextDialer
      | ContextDialer \<Rightarrow>
          (case fetchBody r of
             Inl e \<Rightarrow> Inl e
           | Inr body \<Rightarrow>
               (case ParseAddr (TrimSpace body) of
                  None \<Rightarrow> Inl (BadAddress body)
                | Some addr \<Rightarrow> if Is4 addr \<noteq> v4 then Inl (WrongFamily body) else Inr addr)))"

record HTTPProber =
  V4URL :: string
  V6URL :: string

text \<open>The network: dialer and exchange for a proxy address and a URL.\<close>

type_synonym probe_net = "string \<Rightarrow> string \<Rightarrow> socks_dialer \<times> http_result"

definition HTTPProber_Probe :: "HTTPProber \<Rightarrow> probe_net \<Rightarrow> string \<Rightarrow> probe_error + Egress" where
  "HTTPProber_Probe p net proxyAddr =
     (let r4 = case_prod probeStack (net proxyAddr (V4URL p)) True;
          r6 = case_prod probeStack (net proxyAddr (V6URL p)) False;
          addr = (\<lambda>r. case r of Inl e \<Rightarrow> AddrZero | Inr a \<Rightarrow> a)
      in case (r4, r6) of
           (Inl e4, Inl e6) \<Rightarrow> Inl (BothFailed e4 e6)
         | _ \<Rightarrow> Inr \<lparr>eV4 = addr r4, eV6 = addr r6\<rparr>)"

lemma fetchBody_InrD: "fetchBody r = Inr body \<Longrightarrow> length body \<le> maxProbeBodyBytes"
  by (auto simp: fetchBody_def Let_def split: http_result.splits if_splits)

lemma ParseAddr_valid: "ParseAddr s = Some a \<Longrightarrow> IsValid a"
  by (auto simp: ParseAddr_def IsValid_def parseIPv6_def addr_of_groups_def Let_def
      split: if_splits option.splits list.splits bind_splits)

lemma probeStack_family:
  "probeStack d r v4 = Inr a \<Longrightarrow> (if v4 then Is4 a else Is6 a)"
  using valid_4_or_6 [of a] ParseAddr_valid
  by (auto simp: probeStack_def split: socks_dialer.splits sum.splits option.splits if_splits)

text \<open>Every egress the prober returns has a valid address, each in the field of its family.\<close>

definition wf_egress :: "Egress \<Rightarrow> bool" where
  "wf_egress e \<longleftrightarrow> (eV4 e = AddrZero \<or> Is4 (eV4 e)) \<and> (eV6 e = AddrZero \<or> Is6 (eV6 e))"

lemma Probe_wf:
  "HTTPProber_Probe p net proxyAddr = Inr e \<Longrightarrow> wf_egress e \<and> anyValid e"
  using probeStack_family Is4_IsValid Is6_IsValid
  by (fastforce simp: HTTPProber_Probe_def Let_def wf_egress_def anyValid_def
      split: sum.splits prod.splits)

lemma wf_effective: "wf_egress e \<Longrightarrow> effective e = (eV4 e, eV6 e)"
  by (auto simp: wf_egress_def effective_def)

end
