(* ===== verification/Credential.thy ===== *)
theory Credential
  imports GoText
begin

text \<open>
  Device credentials (\<^verbatim>\<open>credential.go\<close>): completeness, the minimal amz state a credential
  is written as, and the write itself. The file is JSON text as
  \<open>json.MarshalIndent(\<dots>, "", "  ")\<close> prints it; the file system's answers
  (directory creation, the write) are arguments.
\<close>

record Credential =
  DeviceID :: string
  Token :: string
  PrivateKey :: string

definition incomplete :: "Credential \<Rightarrow> bool" where
  "incomplete c \<longleftrightarrow> DeviceID c = '''' \<or> Token c = '''' \<or> PrivateKey c = ''''"

text \<open>\<open>amzStateFile\<close> with its \<open>certificate\<close> section \<open>amzStateCredential\<close>.\<close>

record amzStateCredential =
  scPrivateKey :: string

record amzStateFile =
  sfVersion :: string
  sfDeviceID :: string
  sfToken :: string
  sfCertificate :: amzStateCredential

definition amzStateCurrentVersion :: string where
  "amzStateCurrentVersion = ''1''"

definition state_of_credential :: "Credential \<Rightarrow> amzStateFile" where
  "state_of_credential c =
     \<lparr>sfVersion = amzStateCurrentVersion, sfDeviceID = DeviceID c, sfToken = Token c,
      sfCertificate = \<lparr>scPrivateKey = PrivateKey c\<rparr>\<rparr>"

section \<open>JSON strings\<close>

abbreviation byte :: "char \<Rightarrow> nat" where
  "byte c \<equiv> of_char c"

definition cont :: "nat \<Rightarrow> nat \<Rightarrow> char \<Rightarrow> bool" where
  "cont lo hi c \<longleftrightarrow> lo \<le> byte c \<and> byte c \<le> hi"

text \<open>Length of the valid multi-byte UTF-8 sequence a text starts with, 0 if there is none.\<close>

fun utf8_len :: "string \<Rightarrow> nat" where
  "utf8_len (a # b # rest) =
     (let n = byte a in
      if 0xC2 \<le> n \<and> n \<le> 0xDF then (if cont 0x80 0xBF b then 2 else 0)
      else if 0xE0 \<le> n \<and> n \<le> 0xEF then
        (if cont (if n = 0xE0 then 0xA0 else 0x80) (if n = 0xED then 0x9F else 0xBF) b \<and>
            rest \<noteq> [] \<and> cont 0x80 0xBF (hd rest) then 3 else 0)
      else if 0xF0 \<le> n \<and> n \<le> 0xF4 then
        (if cont (if n = 0xF0 then 0x90 else 0x80) (if n = 0xF4 then 0x8F else 0xBF) b \<and>
            2 \<le> length rest \<and> cont 0x80 0xBF (hd rest) \<and> cont 0x80 0xBF (rest ! 1) then 4 else 0)
      else 0)"
| "utf8_len _ = 0"

definition hex_digit :: "nat \<Rightarrow> char" where
  "hex_digit d = (if d < 10 then char_of (48 + d) else char_of (87 + d))"

definition unicode_escape :: "nat \<Rightarrow> string" where
  "unicode_escape n = (CHR 0x5C # ''u00'') @ [hex_digit (n div 16), hex_digit (n mod 16)]"

text \<open>Escape of one ASCII byte (HTML characters are escaped too).\<close>

definition escape_ascii :: "char \<Rightarrow> string" where
  "escape_ascii c =
     (if byte c = 34 then [CHR 0x5C, c]
      else if byte c = 92 then [CHR 0x5C, c]
      else if byte c = 8 then (CHR 0x5C # ''b'')
      else if byte c = 12 then (CHR 0x5C # ''f'')
      else if byte c = 10 then (CHR 0x5C # ''n'')
      else if byte c = 13 then (CHR 0x5C # ''r'')
      else if byte c = 9 then (CHR 0x5C # ''t'')
      else if byte c < 32 \<or> byte c = 60 \<or> byte c = 62 \<or> byte c = 38
      then unicode_escape (byte c)
      else [c])"

definition is_line_sep :: "string \<Rightarrow> bool" where
  "is_line_sep s \<longleftrightarrow> map byte (take 2 s) = [0xE2, 0x80] \<and> 3 \<le> length s \<and>
     (byte (s ! 2) = 0xA8 \<or> byte (s ! 2) = 0xA9)"

function json_body :: "string \<Rightarrow> string" where
  "json_body [] = []"
| "json_body (c # cs) =
     (if byte c < 128 then escape_ascii c @ json_body cs
      else if utf8_len (c # cs) = 0 then (CHR 0x5C # ''ufffd'') @ json_body cs
      else if is_line_sep (c # cs)
      then (CHR 0x5C # ''u202'') @ [if byte (cs ! 1) = 0xA8 then CHR ''8'' else CHR ''9''] @
           json_body (drop 3 (c # cs))
      else take (utf8_len (c # cs)) (c # cs) @ json_body (drop (utf8_len (c # cs)) (c # cs)))"
  by pat_completeness auto
termination
  by (relation "measure length") auto

declare json_body.simps(2) [simp del]

definition json_string :: "string \<Rightarrow> string" where
  "json_string s = [CHR 0x22] @ json_body s @ [CHR 0x22]"

section \<open>The state file\<close>

definition newline :: string where "newline = [CHR 0x0A]"

definition json_field :: "string \<Rightarrow> string \<Rightarrow> string \<Rightarrow> string" where
  "json_field ind key val = ind @ json_string key @ '': '' @ val"

text \<open>Fields with \<open>omitempty\<close> are left out when empty; a struct is never empty.\<close>

fun commas :: "string list \<Rightarrow> string" where
  "commas [] = ''''"
| "commas [x] = x"
| "commas (x # xs) = x @ '','' @ newline @ commas xs"

definition opt_field :: "string \<Rightarrow> string \<Rightarrow> string \<Rightarrow> string list" where
  "opt_field ind key v = (if v = '''' then [] else [json_field ind key (json_string v)])"

definition json_object :: "string \<Rightarrow> string list \<Rightarrow> string" where
  "json_object ind flds =
     (if flds = [] then ''{}''
      else ''{'' @ newline @ commas flds @ newline @ ind @ ''}'')"

definition MarshalIndent :: "amzStateFile \<Rightarrow> string" where
  "MarshalIndent f =
     json_object ''''
       ([json_field ''  '' ''version'' (json_string (sfVersion f))] @
        opt_field ''  '' ''device_id'' (sfDeviceID f) @
        opt_field ''  '' ''token'' (sfToken f) @
        [json_field ''  '' ''certificate''
          (json_object ''  '' (opt_field ''    '' ''private_key'' (scPrivateKey (sfCertificate f))))])"

text \<open>Answers of the file system. A failing write may leave any content behind.\<close>

datatype write_result = WriteOk | WriteFails "string option"

record fs_answer =
  mkdirOk :: bool
  writeResult :: write_result

datatype credential_error =
    ErrIncompleteCredential
  | MkdirErr
  | WriteErr

text \<open>\<open>writeCredentialState\<close> on the content of the state path.\<close>

definition writeCredentialState ::
  "fs_answer \<Rightarrow> Credential \<Rightarrow> string option \<Rightarrow> credential_error option \<times> string option" where
  "writeCredentialState fs c file =
     (if incomplete c then (Some ErrIncompleteCredential, file)
      else
        (let data = MarshalIndent (state_of_credential c)
         in if \<not> mkdirOk fs then (Some MkdirErr, file)
            else case writeResult fs of
                   WriteFails left \<Rightarrow> (Some WriteErr, left)
                 | WriteOk \<Rightarrow> (None, Some (data @ newline))))"

lemma writeCredentialState_cases:
  "writeCredentialState fs c file = (err, file') \<Longrightarrow>
     (err = None \<longrightarrow> \<not> incomplete c \<and>
        file' = Some (MarshalIndent (state_of_credential c) @ newline)) \<and>
     (err = Some ErrIncompleteCredential \<longleftrightarrow> incomplete c) \<and>
     (incomplete c \<longrightarrow> file' = file)"
  by (auto simp: writeCredentialState_def Let_def split: write_result.splits if_splits)

end
