(* ===== verification/Instance.thy ===== *)
theory Instance
  imports Status Egress Credential
begin

text \<open>
  One tunnel instance (\<^verbatim>\<open>instance.go\<close>). The management goroutine is translated function by
  function. Wherever the goroutine waits or calls out (a \<open>select\<close>, the semaphore, the
  credential source, the client factory, the prober, the event channel) it takes the next
  answer from \<open>inputs\<close>, the script of what the environment does: a script that ends, or
  offers something the goroutine is not waiting for, leaves it \<open>Parked\<close> there. A run over
  an arbitrary script thus visits every state in which the goroutine can be found waiting.
  \<open>trace\<close> is a ghost field: the externally visible actions so far, in order.
\<close>

section \<open>Commands and events\<close>

datatype cmdKind =
    cmdConfirm
  | cmdReprobe
  | cmdReplay
  | cmdDrain
  | cmdDisable
  | cmdEnable
  | cmdStop

fun cmdKind_String :: "cmdKind \<Rightarrow> string" where
  "cmdKind_String cmdConfirm = ''Confirm''"
| "cmdKind_String cmdReprobe = ''Reprobe''"
| "cmdKind_String cmdReplay = ''Replay''"
| "cmdKind_String cmdDrain = ''Drain''"
| "cmdKind_String cmdDisable = ''Disable''"
| "cmdKind_String cmdEnable = ''Enable''"
| "cmdKind_String cmdStop = ''Stop''"

record command =
  cKind :: cmdKind
  cTimeout :: duration

text \<open>A command literal without a timeout has the zero value there.\<close>

definition cmd :: "cmdKind \<Rightarrow> command" where
  "cmd k = \<lparr>cKind = k, cTimeout = 0\<rparr>"

datatype evKind =
    evReady
  | evLost
  | evDrained
  | evReplayed
  | evDisabled
  | evStopped

fun evKind_String :: "evKind \<Rightarrow> string" where
  "evKind_String evReady = ''Ready''"
| "evKind_String evLost = ''Lost''"
| "evKind_String evDrained = ''Drained''"
| "evKind_String evReplayed = ''Replayed''"
| "evKind_String evDisabled = ''Disabled''"
| "evKind_String evStopped = ''Stopped''"

record event =
  evInst :: ID
  evK :: evKind
  evEgress :: Egress

definition cmdChanCap :: nat where "cmdChanCap = 16"
definition eventChanCap :: nat where "eventChanCap = 32"
definition backoffShiftLimit :: nat where "backoffShiftLimit = 30"

section \<open>The instance state\<close>

type_synonym conn = nat

text \<open>The part other goroutines see: identity, the atomic cells, the command channel and the
  connection table (guarded by \<open>mu\<close>).\<close>

record handle =
  inID :: ID
  inCreatedAt :: time
  inProxyAddr :: string
  inStatus :: Status
  inEgress :: "Egress option"
  inAwaitConfirm :: bool
  inStopped :: bool
  inCmds :: "command list"
  inConns :: "conn set"

text \<open>Answers of the environment.\<close>

datatype acquire_answer =
    AcquirePanic
  | AcquireErr
  | AcquireNil
  | AcquireCred Credential fs_answer

datatype client_answer =
    ClientPanic
  | NewClientErr
  | StartErr "string option"
  | Started "string option"

datatype probe_answer = ProbePanic | ProbeReturns Egress

datatype input =
    InTimer
  | InDone
  | InCmd command
  | InRunExit nat
  | InSem
  | InAcquire acquire_answer
  | InClient client_answer
  | InProbe probe_answer
  | InSent

text \<open>Visible actions.\<close>

datatype action =
    SetStatus Status
  | Emit evKind Egress
  | EmitAbandoned evKind
  | CountReplay
  | Wait duration
  | DrainTimer duration
  | NewClient string "string option"
  | ClientUp nat
  | CloseClient nat
  | CloseConns "conn set"
  | RemoveState

text \<open>Configuration (\<open>instConfig\<close>) and the fields of the management goroutine.
  \<open>iRemoveOk\<close> says whether the file system lets the state file be deleted; \<open>iWatched\<close> are
  the generations whose \<open>Run\<close> has not reported yet; \<open>iClients\<close> counts the clients built.\<close>

record inst = handle +
  iEndpoints :: "string list"
  iCredSource :: bool
  iBackoffStart :: duration
  iBackoffMax :: duration
  iDrainTimeout :: duration
  iRemoveOk :: bool
  iStateFile :: "string option"
  iClient :: "nat option"
  iClients :: nat
  iGen :: nat
  iWatched :: "nat set"
  iBackoffN :: nat
  iEpIdx :: nat
  iPending :: "command list"
  iSemHeld :: bool
  iReplays :: nat
  inputs :: "input list"
  trace :: "action list"

text \<open>Result of a step of the goroutine: it returned, it waits, or a callee panicked.\<close>

datatype 'a outcome = Ret 'a inst | Parked inst | Panic inst

fun bindO :: "'a outcome \<Rightarrow> ('a \<Rightarrow> inst \<Rightarrow> 'b outcome) \<Rightarrow> 'b outcome" where
  "bindO (Ret a s) f = f a s"
| "bindO (Parked s) f = Parked s"
| "bindO (Panic s) f = Panic s"

lemma bindO_cong [fundef_cong]:
  "m = m' \<Longrightarrow> (\<And>a s. m' = Ret a s \<Longrightarrow> f a s = g a s) \<Longrightarrow> bindO m f = bindO m' g"
  by (cases m') auto

definition act :: "action \<Rightarrow> inst \<Rightarrow> inst" where
  "act a i = i\<lparr>trace := trace i @ [a]\<rparr>"

section \<open>Operations other goroutines call\<close>

definition chan_send :: "nat \<Rightarrow> 'a \<Rightarrow> 'a list \<Rightarrow> bool \<times> 'a list" where
  "chan_send cap x q = (if length q < cap then (True, q @ [x]) else (False, q))"

text \<open>\<open>instance.send\<close>\<close>

definition send :: "command \<Rightarrow> 'a handle_scheme \<Rightarrow> bool \<times> 'a handle_scheme" where
  "send c h =
     (if inStopped h then (False, h)
      else case chan_send cmdChanCap c (inCmds h) of (ok, q) \<Rightarrow> (ok, h\<lparr>inCmds := q\<rparr>))"

definition EgressView :: "'a handle_scheme \<Rightarrow> Egress" where
  "EgressView h = (case inEgress h of Some e \<Rightarrow> e | None \<Rightarrow> zeroEgress)"

definition trackConn :: "conn \<Rightarrow> 'a handle_scheme \<Rightarrow> 'a handle_scheme" where
  "trackConn c h = h\<lparr>inConns := insert c (inConns h)\<rparr>"

definition untrackConn :: "conn \<Rightarrow> 'a handle_scheme \<Rightarrow> 'a handle_scheme" where
  "untrackConn c h = h\<lparr>inConns := inConns h - {c}\<rparr>"

section \<open>Operations of the management goroutine\<close>

definition setStatus :: "Status \<Rightarrow> inst \<Rightarrow> inst" where
  "setStatus st i = act (SetStatus st) (i\<lparr>inStatus := st\<rparr>)"

definition closeConns :: "inst \<Rightarrow> inst" where
  "closeConns i = act (CloseConns (inConns i)) (i\<lparr>inConns := {}\<rparr>)"

definition closeClient :: "inst \<Rightarrow> inst" where
  "closeClient i =
     (let i' = i\<lparr>iGen := iGen i + 1, iClient := None\<rparr>
      in case iClient i of None \<Rightarrow> i' | Some c \<Rightarrow> act (CloseClient c) i')"

definition removeState :: "inst \<Rightarrow> inst" where
  "removeState i = act RemoveState (if iRemoveOk i then i\<lparr>iStateFile := None\<rparr> else i)"

definition currentEndpoint :: "inst \<Rightarrow> string" where
  "currentEndpoint i =
     (if iEndpoints i = [] then ''''
      else iEndpoints i ! (iEpIdx i mod length (iEndpoints i)))"

definition nextEndpoint :: "inst \<Rightarrow> inst" where
  "nextEndpoint i = i\<lparr>iEpIdx := iEpIdx i + 1\<rparr>"

text \<open>64-bit wrap-around of a duration.\<close>

definition wrap64 :: "int \<Rightarrow> int" where
  "wrap64 x = (x + 2 ^ 63) mod 2 ^ 64 - 2 ^ 63"

definition backoff_value :: "duration \<Rightarrow> duration \<Rightarrow> nat \<Rightarrow> duration" where
  "backoff_value start mx n =
     (let shift = min n backoffShiftLimit;
          d = wrap64 (start * 2 ^ shift)
      in if mx < d \<or> d \<le> 0 then mx else d)"

definition backoffDelay :: "inst \<Rightarrow> duration \<times> inst" where
  "backoffDelay i =
     (backoff_value (iBackoffStart i) (iBackoffMax i) (iBackoffN i),
      i\<lparr>iBackoffN := iBackoffN i + 1\<rparr>)"

text \<open>\<open>emit\<close>: blocks until the pool takes the event or the pool is closed.\<close>

definition emit :: "evKind \<Rightarrow> Egress \<Rightarrow> inst \<Rightarrow> unit outcome" where
  "emit k eg i =
     (case inputs i of
        InSent # is \<Rightarrow> Ret () (act (Emit k eg) (i\<lparr>inputs := is\<rparr>))
      | InDone # is \<Rightarrow> Ret () (act (EmitAbandoned k) (i\<lparr>inputs := is\<rparr>))
      | _ \<Rightarrow> Parked i)"

definition probeAndReport :: "inst \<Rightarrow> unit outcome" where
  "probeAndReport i =
     (case inputs i of
        InProbe ProbePanic # is \<Rightarrow> Panic (i\<lparr>inputs := is\<rparr>)
      | InProbe (ProbeReturns eg) # is \<Rightarrow>
          (let i1 = i\<lparr>inputs := is\<rparr>;
               i2 = (if eg \<noteq> zeroEgress then i1\<lparr>inEgress := Some eg\<rparr> else i1);
               i3 = i2\<lparr>inAwaitConfirm := True\<rparr>
           in emit evReady eg i3)
      | _ \<Rightarrow> Parked i)"

text \<open>\<open>waitBackoff\<close>: every command received restarts the timer; a stop ends the wait.\<close>

function waitBackoff :: "duration \<Rightarrow> inst \<Rightarrow> bool outcome" where
  "waitBackoff d i =
     (let i1 = act (Wait d) i
      in case inputs i of
        InTimer # is \<Rightarrow> Ret True (i1\<lparr>inputs := is\<rparr>)
      | InDone # is \<Rightarrow> Ret False (i1\<lparr>inputs := is\<rparr>)
      | InCmd c # is \<Rightarrow>
          if cKind c = cmdStop then Ret False (i1\<lparr>inputs := is\<rparr>)
          else waitBackoff d (i1\<lparr>inputs := is, iPending := iPending i @ [c]\<rparr>)
      | _ \<Rightarrow> Parked i1)"
  by pat_completeness auto
termination
  by (relation "measure (\<lambda>(d, i). length (inputs i))") (auto simp: act_def)

declare waitBackoff.simps [simp del]

definition acquireSem :: "inst \<Rightarrow> bool outcome" where
  "acquireSem i =
     (case inputs i of
        InSem # is \<Rightarrow> Ret True (i\<lparr>inputs := is, iSemHeld := True\<rparr>)
      | InDone # is \<Rightarrow> Ret False (i\<lparr>inputs := is\<rparr>)
      | _ \<Rightarrow> Parked i)"

definition releaseSem :: "inst \<Rightarrow> inst" where
  "releaseSem i = i\<lparr>iSemHeld := False\<rparr>"

datatype provision_error = AcquireFailed | WriteFailed credential_error

text \<open>\<open>provisionCredential\<close>: the source is asked only when there is one and no state file.\<close>

definition provisionCredential :: "inst \<Rightarrow> provision_error option outcome" where
  "provisionCredential i =
     (if \<not> iCredSource i then Ret None i
      else if iStateFile i \<noteq> None then Ret None i
      else case inputs i of
        InAcquire AcquirePanic # is \<Rightarrow> Panic (i\<lparr>inputs := is\<rparr>)
      | InAcquire AcquireErr # is \<Rightarrow> Ret (Some AcquireFailed) (i\<lparr>inputs := is\<rparr>)
      | InAcquire AcquireNil # is \<Rightarrow> Ret None (i\<lparr>inputs := is\<rparr>)
      | InAcquire (AcquireCred c fs) # is \<Rightarrow>
          (case writeCredentialState fs c (iStateFile i) of
             (err, file) \<Rightarrow>
               Ret (map_option WriteFailed err) (i\<lparr>inputs := is, iStateFile := file\<rparr>))
      | _ \<Rightarrow> Parked i)"

text \<open>\<open>startUnderSem\<close> with \<open>startClient\<close>: the semaphore is released on every way out, a
  client that fails to start is closed at once. The result is the client and \<open>ok\<close>.\<close>

definition startUnderSem :: "inst \<Rightarrow> (nat option \<times> bool) outcome" where
  "startUnderSem i =
     bindO (acquireSem i) (\<lambda>got i1.
       if \<not> got then Ret (None, False) i1
       else
         (let i2 = act (NewClient (currentEndpoint i1) (iStateFile i1)) i1;
              c = iClients i2
          in case inputs i1 of
               InClient ClientPanic # is \<Rightarrow> Panic (releaseSem (i2\<lparr>inputs := is\<rparr>))
             | InClient NewClientErr # is \<Rightarrow> Ret (None, True) (releaseSem (i2\<lparr>inputs := is\<rparr>))
             | InClient (StartErr file) # is \<Rightarrow>
                 Ret (None, True) (releaseSem (act (CloseClient c)
                   (i2\<lparr>inputs := is, iStateFile := file, iClients := c + 1\<rparr>)))
             | InClient (Started file) # is \<Rightarrow>
                 Ret (Some c, True) (releaseSem (act (ClientUp c)
                   (i2\<lparr>inputs := is, iStateFile := file, iClients := c + 1\<rparr>)))
             | _ \<Rightarrow> Parked i2))"

text \<open>\<open>watchRun\<close>: a new generation, and a goroutine that will report its end.\<close>

definition watchRun :: "inst \<Rightarrow> inst" where
  "watchRun i = i\<lparr>iGen := iGen i + 1, iWatched := insert (iGen i + 1) (iWatched i)\<rparr>"

section \<open>Script length\<close>

text \<open>Every answer taken shortens the script; a command put aside moves to \<open>iPending\<close>.\<close>

definition load :: "inst \<Rightarrow> nat" where
  "load i = length (inputs i) + length (iPending i)"

lemma act_frame [simp]:
  "inputs (act a i) = inputs i" "iPending (act a i) = iPending i"
  "inStatus (act a i) = inStatus i" "iClient (act a i) = iClient i" "iGen (act a i) = iGen i"
  "iWatched (act a i) = iWatched i" "iSemHeld (act a i) = iSemHeld i"
  "iStateFile (act a i) = iStateFile i" "inConns (act a i) = inConns i"
  "iRemoveOk (act a i) = iRemoveOk i" "iCredSource (act a i) = iCredSource i"
  "iEndpoints (act a i) = iEndpoints i" "iEpIdx (act a i) = iEpIdx i"
  "iBackoffN (act a i) = iBackoffN i" "iBackoffStart (act a i) = iBackoffStart i"
  "iBackoffMax (act a i) = iBackoffMax i" "iDrainTimeout (act a i) = iDrainTimeout i"
  "iClients (act a i) = iClients i" "inAwaitConfirm (act a i) = inAwaitConfirm i"
  "inStopped (act a i) = inStopped i" "inEgress (act a i) = inEgress i"
  "inID (act a i) = inID i" "iReplays (act a i) = iReplays i"
  "trace (act a i) = trace i @ [a]"
  by (simp_all add: act_def)

lemma waitBackoff_load:
  "waitBackoff d i = Ret b j \<Longrightarrow>
   load j < load i \<and> length (inputs j) < length (inputs i) \<and> iStateFile j = iStateFile i"
proof (induction d i rule: waitBackoff.induct)
  case (1 d i)
  from "1.prems" show ?case
    by (subst (asm) waitBackoff.simps)
       (auto simp: Let_def load_def split: list.splits input.splits if_splits dest!: "1.IH" [OF refl])
qed

lemma provisionCredential_load:
  "provisionCredential i = Ret r j \<Longrightarrow>
   load j \<le> load i \<and> length (inputs j) \<le> length (inputs i) \<and>
   (r \<noteq> None \<longrightarrow> load j < load i \<and> length (inputs j) < length (inputs i))"
  by (auto simp: provisionCredential_def load_def
      split: if_splits list.splits input.splits acquire_answer.splits prod.splits)

lemma acquireSem_load:
  "acquireSem i = Ret b j \<Longrightarrow> load j < load i \<and> length (inputs j) < length (inputs i)"
  by (auto simp: acquireSem_def load_def split: list.splits input.splits)

lemma startUnderSem_load:
  "startUnderSem i = Ret r j \<Longrightarrow> load j < load i \<and> length (inputs j) < length (inputs i)"
  by (cases "acquireSem i")
     (auto simp: startUnderSem_def Let_def load_def releaseSem_def dest!: acquireSem_load
      split: list.splits input.splits client_answer.splits if_splits)

section \<open>The client loop\<close>

definition dropIdentity :: "bool \<Rightarrow> inst \<Rightarrow> inst" where
  "dropIdentity keepState i = (if keepState then i else nextEndpoint (removeState i))"

definition waitIfPositive :: "duration \<Rightarrow> inst \<Rightarrow> bool outcome" where
  "waitIfPositive delay i = (if 0 < delay then waitBackoff delay i else Ret True i)"

lemma frame_load [simp]:
  "inputs (closeClient i) = inputs i" "iPending (closeClient i) = iPending i"
  "inputs (dropIdentity k i) = inputs i" "iPending (dropIdentity k i) = iPending i"
  "inputs (snd (backoffDelay i)) = inputs i" "iPending (snd (backoffDelay i)) = iPending i"
  "inputs (setStatus st i) = inputs i" "iPending (setStatus st i) = iPending i"
  "inputs (closeConns i) = inputs i" "iPending (closeConns i) = iPending i"
  "inputs (watchRun i) = inputs i" "iPending (watchRun i) = iPending i"
  by (simp_all add: closeClient_def dropIdentity_def nextEndpoint_def removeState_def
      backoffDelay_def setStatus_def closeConns_def watchRun_def Let_def split: option.split)

lemma load_frame [simp]:
  "load (closeClient i) = load i" "load (dropIdentity k i) = load i"
  "load (snd (backoffDelay i)) = load i" "load (setStatus st i) = load i"
  "load (closeConns i) = load i" "load (watchRun i) = load i" "load (act a i) = load i"
  by (simp_all add: load_def)

lemma waitIfPositive_load:
  "waitIfPositive d i = Ret b j \<Longrightarrow> load j \<le> load i \<and> length (inputs j) \<le> length (inputs i)"
  by (auto simp: waitIfPositive_def dest!: waitBackoff_load split: if_splits)

text \<open>\<open>ensureClient\<close>: one round closes the old client, drops the identity unless it is kept,
  waits, provisions a credential and starts a client; a failed round tries again without
  the state, after a longer delay. \<open>False\<close> means the instance is to end.\<close>

function ensureClient :: "bool \<Rightarrow> duration \<Rightarrow> inst \<Rightarrow> bool outcome" where
  "ensureClient keepState delay i =
     bindO (waitIfPositive delay (dropIdentity keepState (closeClient i))) (\<lambda>ok i1.
       if \<not> ok then Ret False i1
       else bindO (provisionCredential i1) (\<lambda>err i2.
         if err \<noteq> None
         then ensureClient False (fst (backoffDelay i2)) (snd (backoffDelay i2))
         else bindO (startUnderSem i2) (\<lambda>r i3.
           case r of
             (_, False) \<Rightarrow> Ret False i3
           | (Some c, True) \<Rightarrow> Ret True (watchRun (i3\<lparr>iClient := Some c\<rparr>))
           | (None, True) \<Rightarrow> ensureClient False (fst (backoffDelay i3)) (snd (backoffDelay i3)))))"
  by pat_completeness auto
termination
proof (relation "measure (\<lambda>(k, d, i). length (inputs i))", goal_cases)
  case 1
  show ?case by simp
next
  case (2 keepState delay i ok i1 err i2)
  then have "length (inputs i2) < length (inputs i1)" and "length (inputs i1) \<le> length (inputs i)"
    using provisionCredential_load waitIfPositive_load by fastforce+
  then show ?case by (simp add: backoffDelay_def)
next
  case (3 keepState delay i ok i1 err i2 r i3)
  then have "length (inputs i3) < length (inputs i2)" and "length (inputs i2) \<le> length (inputs i1)"
    and "length (inputs i1) \<le> length (inputs i)"
    using startUnderSem_load provisionCredential_load waitIfPositive_load by fastforce+
  then show ?case by (simp add: backoffDelay_def)
qed

declare ensureClient.simps [simp del]

section \<open>Command handling\<close>

text \<open>The end of \<open>drain\<close> when its timer fires.\<close>

definition drainExpired :: "inst \<Rightarrow> bool outcome" where
  "drainExpired i =
     bindO (emit evDrained zeroEgress (setStatus StatusProbing (closeConns i))) (\<lambda>_ i1.
       bindO (ensureClient False (fst (backoffDelay i1)) (snd (backoffDelay i1))) (\<lambda>ok i2.
         if \<not> ok then Ret True i2
         else bindO (probeAndReport i2) (\<lambda>_ i3. Ret False i3)))"

text \<open>The \<open>select\<close> loop of \<open>drain\<close>.\<close>

function drainLoop :: "inst \<Rightarrow> bool outcome" where
  "drainLoop i =
     (case inputs i of
        InTimer # is \<Rightarrow> drainExpired (i\<lparr>inputs := is\<rparr>)
      | InDone # is \<Rightarrow> Ret True (i\<lparr>inputs := is\<rparr>)
      | InCmd c # is \<Rightarrow>
          (case cKind c of
             cmdStop \<Rightarrow> Ret True (i\<lparr>inputs := is\<rparr>)
           | cmdDisable \<Rightarrow> Ret False (closeClient (setStatus StatusDisabled (i\<lparr>inputs := is\<rparr>)))
           | _ \<Rightarrow> drainLoop (i\<lparr>inputs := is, iPending := iPending i @ [c]\<rparr>))
      | _ \<Rightarrow> Parked i)"
  by pat_completeness auto
termination
  by (relation "measure (\<lambda>i. length (inputs i))") auto

declare drainLoop.simps [simp del]

text \<open>\<open>drain\<close>; the effective timeout only sets the timer, whose firing is an input.\<close>

definition drainTimeoutOf :: "duration \<Rightarrow> inst \<Rightarrow> duration" where
  "drainTimeoutOf timeout i = (if timeout \<le> 0 then iDrainTimeout i else timeout)"

definition drain :: "duration \<Rightarrow> inst \<Rightarrow> bool outcome" where
  "drain timeout i = drainLoop (act (DrainTimer (drainTimeoutOf timeout i)) (setStatus StatusDraining i))"

definition countReplay :: "inst \<Rightarrow> inst" where
  "countReplay i = act CountReplay (i\<lparr>iReplays := iReplays i + 1\<rparr>)"

text \<open>\<open>handle\<close>: \<open>Ret True\<close> means the instance ends.\<close>

definition handle_cmd :: "command \<Rightarrow> inst \<Rightarrow> bool outcome" where
  "handle_cmd c i =
     (case cKind c of
        cmdConfirm \<Rightarrow>
          (let i1 = i\<lparr>inAwaitConfirm := False\<rparr>
           in if inStatus i1 = StatusProbing
              then Ret False ((setStatus StatusNormal i1)\<lparr>iBackoffN := 0\<rparr>)
              else Ret False i1)
      | cmdReprobe \<Rightarrow>
          (if inStatus i = StatusProbing then
             bindO (waitBackoff (fst (backoffDelay i)) (snd (backoffDelay i))) (\<lambda>ok i1.
               if ok then bindO (probeAndReport i1) (\<lambda>_ i2. Ret False i2) else Ret False i1)
           else Ret False i)
      | cmdReplay \<Rightarrow>
          (if inStatus i = StatusProbing \<or> inStatus i = StatusNormal then
             (let i1 = setStatus StatusProbing (countReplay i)
              in bindO (ensureClient False (fst (backoffDelay i1)) (snd (backoffDelay i1))) (\<lambda>ok i2.
                   if \<not> ok then Ret True i2
                   else bindO (emit evReplayed zeroEgress i2) (\<lambda>_ i3.
                     bindO (probeAndReport i3) (\<lambda>_ i4. Ret False i4))))
           else Ret False i)
      | cmdDrain \<Rightarrow>
          (if inStatus i = StatusNormal \<or> inStatus i = StatusProbing
           then drain (cTimeout c) i else Ret False i)
      | cmdDisable \<Rightarrow>
          (if inStatus i \<noteq> StatusDisabled then
             bindO (emit evDisabled zeroEgress (closeClient (setStatus StatusDisabled i)))
               (\<lambda>_ i1. Ret False i1)
           else Ret False i)
      | cmdEnable \<Rightarrow>
          (if inStatus i = StatusDisabled then
             bindO (ensureClient True 0 (setStatus StatusProbing i)) (\<lambda>ok i1.
               if \<not> ok then Ret True i1
               else bindO (probeAndReport i1) (\<lambda>_ i2. Ret False i2))
           else Ret False i)
      | cmdStop \<Rightarrow> Ret True i)"

text \<open>\<open>handleLost\<close>\<close>

definition handleLost :: "inst \<Rightarrow> bool outcome" where
  "handleLost i =
     bindO (emit evLost zeroEgress (setStatus StatusProbing i)) (\<lambda>_ i1.
       bindO (ensureClient True 0 i1) (\<lambda>ok i2.
         if \<not> ok then Ret True i2
         else bindO (probeAndReport i2) (\<lambda>_ i3. Ret False i3)))"

section \<open>Reasoning about outcomes\<close>

text \<open>\<open>post P X Q out\<close>: a return satisfies \<open>Q\<close>, a state the goroutine waits in satisfies
  \<open>P\<close>, a state a callee panicked in satisfies \<open>X\<close>.\<close>

fun post :: "(inst \<Rightarrow> bool) \<Rightarrow> (inst \<Rightarrow> bool) \<Rightarrow> ('a \<Rightarrow> inst \<Rightarrow> bool) \<Rightarrow> 'a outcome \<Rightarrow> bool" where
  "post P X Q (Ret a i) = Q a i"
| "post P X Q (Parked i) = P i"
| "post P X Q (Panic i) = X i"

lemma post_bindO [simp]: "post P X Q (bindO m f) = post P X (\<lambda>a i. post P X Q (f a i)) m"
  by (cases m) auto

lemma post_mono:
  "post P X Q out \<Longrightarrow> (\<And>i. P i \<Longrightarrow> P' i) \<Longrightarrow> (\<And>i. X i \<Longrightarrow> X' i) \<Longrightarrow>
   (\<And>a i. Q a i \<Longrightarrow> Q' a i) \<Longrightarrow> post P' X' Q' out"
  by (cases out) auto

text \<open>What one round of \<open>ensureClient\<close> establishes, with \<open>I\<close> for a further round.\<close>

definition client_round ::
  "(inst \<Rightarrow> bool) \<Rightarrow> (inst \<Rightarrow> bool) \<Rightarrow> (bool \<Rightarrow> duration \<Rightarrow> inst \<Rightarrow> bool) \<Rightarrow> (bool \<Rightarrow> inst \<Rightarrow> bool) \<Rightarrow>
   bool \<Rightarrow> duration \<Rightarrow> inst \<Rightarrow> bool" where
  "client_round P X I R keepState delay i \<longleftrightarrow>
     post P X (\<lambda>ok i1.
       if \<not> ok then R False i1
       else post P X (\<lambda>err i2.
         if err \<noteq> None then I False (fst (backoffDelay i2)) (snd (backoffDelay i2))
         else post P X (\<lambda>r i3.
           case r of
             (_, False) \<Rightarrow> R False i3
           | (Some c, True) \<Rightarrow> R True (watchRun (i3\<lparr>iClient := Some c\<rparr>))
           | (None, True) \<Rightarrow> I False (fst (backoffDelay i3)) (snd (backoffDelay i3)))
           (startUnderSem i2)) (provisionCredential i1))
       (waitIfPositive delay (dropIdentity keepState (closeClient i)))"

lemma post_RetD: "post P X Q out \<Longrightarrow> out = Ret a i \<Longrightarrow> Q a i"
  by auto

lemma post_strengthen:
  "post P X Q out \<Longrightarrow> (\<And>a i. out = Ret a i \<Longrightarrow> Q a i \<Longrightarrow> Q' a i) \<Longrightarrow> post P X Q' out"
  by (cases out) auto

lemma post_ensureClient:
  assumes round: "\<And>k d i. I k d i \<Longrightarrow> client_round P X I R k d i"
  shows "I k d i \<Longrightarrow> post P X R (ensureClient k d i)"
proof (induction k d i rule: ensureClient.induct)
  case (1 k d i)
  have r: "client_round P X I R k d i" using "1.prems" by (rule round)
  show ?case
    unfolding ensureClient.simps [of k d i] post_bindO
  proof (rule post_strengthen [OF r [unfolded client_round_def]], goal_cases)
    case w: (1 ok i1)
    show ?case
    proof (cases ok)
      case False
      with w show ?thesis by simp
    next
      case ok: True
      with w have "post P X (\<lambda>err i2.
         if err \<noteq> None then I False (fst (backoffDelay i2)) (snd (backoffDelay i2))
         else post P X (\<lambda>r i3.
           case r of
             (_, False) \<Rightarrow> R False i3
           | (Some c, True) \<Rightarrow> R True (watchRun (i3\<lparr>iClient := Some c\<rparr>))
           | (None, True) \<Rightarrow> I False (fst (backoffDelay i3)) (snd (backoffDelay i3)))
           (startUnderSem i2)) (provisionCredential i1)" by simp
      then have "post P X (\<lambda>err i2. post P X R (if err \<noteq> None
           then ensureClient False (fst (backoffDelay i2)) (snd (backoffDelay i2))
           else bindO (startUnderSem i2) (\<lambda>r i3. case r of (_, False) \<Rightarrow> Ret False i3
             | (Some c, True) \<Rightarrow> Ret True (watchRun (i3\<lparr>iClient := Some c\<rparr>))
             | (None, True) \<Rightarrow> ensureClient False (fst (backoffDelay i3)) (snd (backoffDelay i3)))))
           (provisionCredential i1)"
      proof (rule post_strengthen, goal_cases)
        case p: (1 err i2)
        show ?case
        proof (cases "err = None")
          case False
          with p "1.IH"(1) [OF w(1) _ p(1)] ok show ?thesis by simp
        next
          case True
          with p have "post P X (\<lambda>r i3.
           case r of
             (_, False) \<Rightarrow> R False i3
           | (Some c, True) \<Rightarrow> R True (watchRun (i3\<lparr>iClient := Some c\<rparr>))
           | (None, True) \<Rightarrow> I False (fst (backoffDelay i3)) (snd (backoffDelay i3)))
           (startUnderSem i2)" by simp
          then have "post P X (\<lambda>r i3. post P X R (case r of (_, False) \<Rightarrow> Ret False i3
             | (Some c, True) \<Rightarrow> Ret True (watchRun (i3\<lparr>iClient := Some c\<rparr>))
             | (None, True) \<Rightarrow> ensureClient False (fst (backoffDelay i3)) (snd (backoffDelay i3))))
             (startUnderSem i2)"
            using "1.IH"(2) [OF w(1) _ p(1) _ ] True ok
            by (elim post_strengthen) (auto split: prod.splits option.splits bool.splits)
          with True show ?thesis by simp
        qed
      qed
      with ok show ?thesis by simp
    qed
  qed
qed

section \<open>The main loop\<close>

text \<open>No operation adds to the load: \<open>fits n\<close> bounds it at the return.\<close>

abbreviation fits :: "nat \<Rightarrow> 'a \<Rightarrow> inst \<Rightarrow> bool" where
  "fits n \<equiv> (\<lambda>_ j. load j \<le> n)"

abbreviation anything :: "inst \<Rightarrow> bool" where
  "anything \<equiv> (\<lambda>_. True)"

lemma load_update [simp]:
  "load (i\<lparr>inAwaitConfirm := b\<rparr>) = load i" "load (i\<lparr>iBackoffN := n\<rparr>) = load i"
  "load (i\<lparr>iClient := c\<rparr>) = load i" "load (i\<lparr>inEgress := e\<rparr>) = load i"
  "load (countReplay i) = load i"
  by (simp_all add: load_def countReplay_def)

lemma post_fitsI: "(\<And>a j. out = Ret a j \<Longrightarrow> load j \<le> n) \<Longrightarrow> post anything anything (fits n) out"
  by (cases out) auto

lemma emit_fits: "load i \<le> n \<Longrightarrow> post anything anything (fits n) (emit k eg i)"
  by (auto simp: emit_def load_def split: list.split input.split)

lemma probeAndReport_fits: "load i \<le> n \<Longrightarrow> post anything anything (fits n) (probeAndReport i)"
  by (auto simp: probeAndReport_def emit_def Let_def load_def
      split: list.split input.split probe_answer.split)

lemma ensureClient_fits: "load i \<le> n \<Longrightarrow> post anything anything (fits n) (ensureClient k d i)"
proof (rule post_ensureClient [where I = "\<lambda>k d i. load i \<le> n"])
  fix k d i
  assume i: "load i \<le> n"
  have w: "load i1 \<le> n" if "waitIfPositive d (dropIdentity k (closeClient i)) = Ret ok i1" for ok i1
    using waitIfPositive_load [OF that] i by simp
  have p: "load i2 \<le> n" if "provisionCredential i1 = Ret err i2" "load i1 \<le> n" for err i1 i2
    using provisionCredential_load [OF that(1)] that(2) by simp
  have s: "load i3 \<le> load i2" if "startUnderSem i2 = Ret r i3" for r i2 i3
    using startUnderSem_load [OF that] by simp
  have "post anything anything (\<lambda>r i3. load i3 \<le> n) (startUnderSem i2)" if "load i2 \<le> n" for i2
    using that s by (intro post_fitsI) (meson order_trans)
  then have "post anything anything (\<lambda>r i3.
           case r of
             (_, False) \<Rightarrow> load i3 \<le> n
           | (Some c, True) \<Rightarrow> load (watchRun (i3\<lparr>iClient := Some c\<rparr>)) \<le> n
           | (None, True) \<Rightarrow> load (snd (backoffDelay i3)) \<le> n) (startUnderSem i2)"
    if "load i2 \<le> n" for i2
    using that by (fastforce elim!: post_mono split: prod.split option.split bool.split)
  then have "post anything anything (\<lambda>err i2.
         if err \<noteq> None then load (snd (backoffDelay i2)) \<le> n
         else post anything anything (\<lambda>r i3.
           case r of
             (_, False) \<Rightarrow> load i3 \<le> n
           | (Some c, True) \<Rightarrow> load (watchRun (i3\<lparr>iClient := Some c\<rparr>)) \<le> n
           | (None, True) \<Rightarrow> load (snd (backoffDelay i3)) \<le> n) (startUnderSem i2))
         (provisionCredential i1)" if "load i1 \<le> n" for i1
    using that p by (cases "provisionCredential i1") auto
  with w show "client_round anything anything (\<lambda>k d i. load i \<le> n) (fits n) k d i"
    unfolding client_round_def
    by (cases "waitIfPositive d (dropIdentity k (closeClient i))") auto
qed

lemma drainExpired_fits: "load i \<le> n \<Longrightarrow> post anything anything (fits n) (drainExpired i)"
  unfolding drainExpired_def post_bindO
  by (rule post_mono [OF emit_fits [where n = n]])
     (auto intro!: post_mono [OF ensureClient_fits [where n = n]]
       post_mono [OF probeAndReport_fits [where n = n]])

lemma drainLoop_fits: "load i \<le> n \<Longrightarrow> post anything anything (fits n) (drainLoop i)"
proof (induction i rule: drainLoop.induct)
  case (1 i)
  show ?case
  proof (subst drainLoop.simps, cases "inputs i", goal_cases)
    case 1
    then show ?case by simp
  next
    case inp: (2 a "is")
    have "load (i\<lparr>inputs := is\<rparr>) \<le> n" using "1.prems" inp by (simp add: load_def)
    moreover have "load (i\<lparr>inputs := is, iPending := iPending i @ [c]\<rparr>) \<le> n" for c
      using "1.prems" inp by (simp add: load_def)
    ultimately show ?case
      using inp "1.IH" by (auto simp: drainExpired_fits split: input.split cmdKind.split)
  qed
qed

lemma handle_cmd_fits: "load i \<le> n \<Longrightarrow> post anything anything (fits n) (handle_cmd c i)"
proof -
  assume i: "load i \<le> n"
  have wait: "post anything anything (fits n) (waitBackoff d j)" if "load j \<le> n" for d j
    using that by (intro post_fitsI) (auto dest!: waitBackoff_load)
  note rules = post_mono [OF wait] post_mono [OF emit_fits [where n = n]]
    post_mono [OF ensureClient_fits [where n = n]] post_mono [OF probeAndReport_fits [where n = n]]
  show ?thesis
    using i by (auto simp: handle_cmd_def Let_def drain_def drainLoop_fits intro!: rules
        split: cmdKind.split)
qed

lemma handleLost_fits: "load i \<le> n \<Longrightarrow> post anything anything (fits n) (handleLost i)"
  unfolding handleLost_def post_bindO
  by (rule post_mono [OF emit_fits [where n = n]])
     (auto intro!: post_mono [OF ensureClient_fits [where n = n]]
       post_mono [OF probeAndReport_fits [where n = n]])

text \<open>The loop of \<open>manage\<close>: commands put aside go first; otherwise the \<open>select\<close>. A run-exit
  signal is offered only by a generation that is being watched.\<close>

function manageLoop :: "inst \<Rightarrow> unit outcome" where
  "manageLoop i =
     (case iPending i of
        c # cs \<Rightarrow>
          bindO (handle_cmd c (i\<lparr>iPending := cs\<rparr>)) (\<lambda>stop i1.
            if stop then Ret () i1 else manageLoop i1)
      | [] \<Rightarrow>
          (case inputs i of
             InDone # is \<Rightarrow> Ret () (i\<lparr>inputs := is\<rparr>)
           | InRunExit g # is \<Rightarrow>
               if g \<notin> iWatched i then Parked i
               else
                 (let i1 = i\<lparr>inputs := is, iWatched := iWatched i - {g}\<rparr>
                  in if g = iGen i1
                     then bindO (handleLost i1) (\<lambda>stop i2.
                            if stop then Ret () i2 else manageLoop i2)
                     else manageLoop i1)
           | InCmd c # is \<Rightarrow>
               bindO (handle_cmd c (i\<lparr>inputs := is\<rparr>)) (\<lambda>stop i1.
                 if stop then Ret () i1 else manageLoop i1)
           | _ \<Rightarrow> Parked i))"
  by pat_completeness auto
termination
proof (relation "measure load", goal_cases)
  case 1
  show ?case by simp
next
  case (2 i a "is" c stop i1)
  have "load i1 \<le> load (i\<lparr>inputs := is\<rparr>)"
    by (rule post_RetD [OF handle_cmd_fits [OF order_refl] 2(4)])
  with 2(1-3) show ?case by (simp add: load_def)
next
  case (3 i a "is" g i1 stop i2)
  have "load i2 \<le> load i1"
    by (rule post_RetD [OF handleLost_fits [OF order_refl] 3(7)])
  with 3(1-5) show ?case by (simp add: load_def)
next
  case (4 i a "is" g i1)
  then show ?case by (simp add: load_def)
next
  case (5 i c cs stop i1)
  have "load i1 \<le> load (i\<lparr>iPending := cs\<rparr>)"
    by (rule post_RetD [OF handle_cmd_fits [OF order_refl] 5(2)])
  with 5(1) show ?case by (simp add: load_def)
qed

declare manageLoop.simps [simp del]

text \<open>\<open>manage\<close>: returning means the instance ends.\<close>

definition manage :: "inst \<Rightarrow> unit outcome" where
  "manage i =
     bindO (ensureClient True 0 i) (\<lambda>ok i1.
       if \<not> ok then Ret () i1
       else bindO (probeAndReport i1) (\<lambda>_ i2. manageLoop i2))"

text \<open>\<open>finalize\<close> and the deferred \<open>recoverManage\<close>, reached by a return and by a panic alike.
  The last event is dropped when the channel has no room.\<close>

definition finalize :: "inst \<Rightarrow> inst" where
  "finalize i = removeState (closeConns (closeClient (i\<lparr>inStopped := True\<rparr>)))"

definition recoverManage :: "bool \<Rightarrow> inst \<Rightarrow> inst" where
  "recoverManage room i =
     (let i1 = finalize i
      in if room then act (Emit evStopped zeroEgress) i1 else act (EmitAbandoned evStopped) i1)"

definition goroutine :: "bool \<Rightarrow> inst \<Rightarrow> unit outcome" where
  "goroutine room i =
     (case manage i of
        Ret u j \<Rightarrow> Ret u (recoverManage room j)
      | Panic j \<Rightarrow> Ret () (recoverManage room j)
      | Parked j \<Rightarrow> Parked j)"

section \<open>Construction\<close>

record instConfig =
  icID :: ID
  icProxyAddr :: string
  icEndpoints :: "string list"
  icEndpointIdx :: nat
  icCredSource :: bool
  icBackoffStart :: duration
  icBackoffMax :: duration
  icDrainTimeout :: duration

definition newHandle :: "instConfig \<Rightarrow> time \<Rightarrow> handle" where
  "newHandle cfg now =
     \<lparr>inID = icID cfg, inCreatedAt = now, inProxyAddr = icProxyAddr cfg,
      inStatus = StatusProbing, inEgress = None, inAwaitConfirm = False, inStopped = False,
      inCmds = [], inConns = {}\<rparr>"

text \<open>\<open>newInstance\<close>, with the state file found on disk, the file system's answer to
  deletions and the script of the environment.\<close>

definition newInstance ::
  "instConfig \<Rightarrow> time \<Rightarrow> string option \<Rightarrow> bool \<Rightarrow> input list \<Rightarrow> inst" where
  "newInstance cfg now file removeOk script =
     handle.extend (newHandle cfg now)
       \<lparr>iEndpoints = icEndpoints cfg, iCredSource = icCredSource cfg,
        iBackoffStart = icBackoffStart cfg, iBackoffMax = icBackoffMax cfg,
        iDrainTimeout = icDrainTimeout cfg, iRemoveOk = removeOk, iStateFile = file,
        iClient = None, iClients = 0, iGen = 0, iWatched = {}, iBackoffN = 0,
        iEpIdx = icEndpointIdx cfg, iPending = [], iSemHeld = False, iReplays = 0,
        inputs = script, trace = []\<rparr>"

end
