(* ===== verification/InstanceInv.thy ===== *)
theory InstanceInv
  imports Instance
begin

text \<open>
  The protocol of an instance: the documented state graph, a monitor that reads the trace of
  visible actions, and the proof that whatever the environment does the goroutine's trace is
  accepted and its fields agree with it, in every state in which it can wait, fail or end.
\<close>

section \<open>The documented state graph\<close>

inductive status_edge :: "Status \<Rightarrow> Status \<Rightarrow> bool" where
  confirm: "status_edge StatusProbing StatusNormal"
| rebuild: "status_edge StatusNormal StatusProbing"
| again: "status_edge StatusProbing StatusProbing"
| drain_normal: "status_edge StatusNormal StatusDraining"
| drain_probing: "status_edge StatusProbing StatusDraining"
| drained: "status_edge StatusDraining StatusProbing"
| disable_normal: "status_edge StatusNormal StatusDisabled"
| disable_probing: "status_edge StatusProbing StatusDisabled"
| disable_draining: "status_edge StatusDraining StatusDisabled"
| enable: "status_edge StatusDisabled StatusProbing"

code_pred status_edge .

inductive_simps status_edge_Normal [simp]: "status_edge s StatusNormal"
inductive_simps status_edge_Probing [simp]: "status_edge s StatusProbing"
inductive_simps status_edge_Draining [simp]: "status_edge s StatusDraining"
inductive_simps status_edge_Disabled [simp]: "status_edge s StatusDisabled"
inductive_cases status_edge_from_DisabledE: "status_edge StatusDisabled s"

lemma disabled_only_to_probing: "status_edge StatusDisabled s \<Longrightarrow> s = StatusProbing"
  by (erule status_edge_from_DisabledE)

section \<open>The trace monitor\<close>

text \<open>\<open>mHeld\<close>: the pool may still have a deduplication key registered for the instance;
  \<open>mLeak\<close>: the instance was disabled while draining, the one way out of service that sends
  no event.\<close>

record mon =
  mStatus :: Status
  mOpen :: "nat option"
  mHeld :: bool
  mLeak :: bool

definition mon0 :: mon where
  "mon0 = \<lparr>mStatus = StatusProbing, mOpen = None, mHeld = False, mLeak = False\<rparr>"

definition releasing :: "evKind \<Rightarrow> bool" where
  "releasing k \<longleftrightarrow> k \<in> {evLost, evDrained, evReplayed, evDisabled}"

fun mon_step :: "mon \<Rightarrow> action \<Rightarrow> mon option" where
  "mon_step m (SetStatus s) =
     (if status_edge (mStatus m) s
      then Some (m\<lparr>mStatus := s, mHeld := mHeld m \<or> s = StatusNormal,
                   mLeak := mLeak m \<or> mStatus m = StatusDraining \<and> s = StatusDisabled\<rparr>)
      else None)"
| "mon_step m (Emit k eg) =
     (if k = evReady then
        (if mStatus m = StatusProbing \<and> (mHeld m \<longrightarrow> mLeak m) \<and> mOpen m \<noteq> None
         then Some m else None)
      else if releasing k then
        (if mStatus m = (if k = evDisabled then StatusDisabled else StatusProbing)
         then Some (m\<lparr>mHeld := False\<rparr>) else None)
      else Some m)"
| "mon_step m (EmitAbandoned k) = Some (if releasing k then m\<lparr>mHeld := False\<rparr> else m)"
| "mon_step m (NewClient ep file) =
     (if mStatus m = StatusProbing \<and> mOpen m = None then Some m else None)"
| "mon_step m (ClientUp c) = (if mOpen m = None then Some (m\<lparr>mOpen := Some c\<rparr>) else None)"
| "mon_step m (CloseClient c) =
     (if mOpen m = None \<or> mOpen m = Some c then Some (m\<lparr>mOpen := None\<rparr>) else None)"
| "mon_step m _ = Some m"

fun run_mon :: "mon \<Rightarrow> action list \<Rightarrow> mon option" where
  "run_mon m [] = Some m"
| "run_mon m (a # as) = (case mon_step m a of None \<Rightarrow> None | Some m' \<Rightarrow> run_mon m' as)"

lemma run_mon_append:
  "run_mon m (as @ bs) = Option.bind (run_mon m as) (\<lambda>m'. run_mon m' bs)"
  by (induction as arbitrary: m) (auto split: option.split)

text \<open>The monitor accepted the trace and its state is the instance's; no watched generation
  is newer than the current one, and without a client the current one is not watched.\<close>

definition linked :: "mon \<Rightarrow> inst \<Rightarrow> bool" where
  "linked m i \<longleftrightarrow>
     run_mon mon0 (trace i) = Some m \<and> mStatus m = inStatus i \<and> mOpen m = iClient i \<and>
     (\<forall>g \<in> iWatched i. g \<le> iGen i) \<and> (iClient i = None \<longrightarrow> iGen i \<notin> iWatched i) \<and>
     \<not> inStopped i"

text \<open>States the goroutine may be found waiting in. The semaphore is held only while a
  client is being built.\<close>

definition rest_ok :: "inst \<Rightarrow> bool" where
  "rest_ok i \<longleftrightarrow> (\<exists>m. linked m i) \<and> known_status (inStatus i) \<and>
     (inStatus i = StatusDisabled \<longrightarrow> iClient i = None) \<and>
     (inStatus i = StatusNormal \<or> inStatus i = StatusDraining \<longrightarrow> iClient i \<noteq> None)"

definition wait_ok :: "inst \<Rightarrow> bool" where
  "wait_ok i \<longleftrightarrow> rest_ok i \<and> (iSemHeld i \<longrightarrow> (\<exists>ep file. last (trace i) = NewClient ep file))"

definition end_ok :: "inst \<Rightarrow> bool" where
  "end_ok i \<longleftrightarrow> rest_ok i \<and> \<not> iSemHeld i"

text \<open>States at the head of the main loop.\<close>

definition main_ok :: "inst \<Rightarrow> bool" where
  "main_ok i \<longleftrightarrow> \<not> iSemHeld i \<and>
     (\<exists>m. linked m i \<and> (mHeld m \<longrightarrow> inStatus i = StatusNormal \<or> mLeak m)) \<and>
     (inStatus i = StatusProbing \<and> iClient i \<noteq> None \<or>
      inStatus i = StatusNormal \<and> iClient i \<noteq> None \<or>
      inStatus i = StatusDisabled \<and> iClient i = None)"

text \<open>Probing states inside an operation; \<open>h\<close> says that a release may still be due.\<close>

definition probing_ok :: "bool \<Rightarrow> inst \<Rightarrow> bool" where
  "probing_ok h i \<longleftrightarrow> \<not> iSemHeld i \<and> inStatus i = StatusProbing \<and>
     (\<exists>m. linked m i \<and> (h \<or> (mHeld m \<longrightarrow> mLeak m)))"

definition done_ok :: "bool \<Rightarrow> inst \<Rightarrow> bool" where
  "done_ok stop i \<longleftrightarrow> (if stop then end_ok i else main_ok i)"

lemma done_ok_simps [simp]: "done_ok True i = end_ok i" "done_ok False i = main_ok i"
  by (simp_all add: done_ok_def)

lemma known_status_simps [simp]:
  "known_status StatusProbing" "known_status StatusNormal"
  "known_status StatusDraining" "known_status StatusDisabled"
  by (simp_all add: known_status_def)

lemma main_ok_end [intro]: "main_ok i \<Longrightarrow> end_ok i"
  by (auto simp: main_ok_def end_ok_def rest_ok_def)

lemma end_ok_wait [intro]: "end_ok i \<Longrightarrow> wait_ok i"
  by (auto simp: end_ok_def wait_ok_def)

lemma probing_ok_end [intro]: "probing_ok h i \<Longrightarrow> end_ok i"
  by (auto simp: probing_ok_def end_ok_def rest_ok_def)

lemma probing_ok_weaken: "probing_ok h i \<Longrightarrow> probing_ok True i"
  by (auto simp: probing_ok_def)

section \<open>Single operations\<close>

text \<open>Fields the invariant does not read.\<close>

lemma linked_frame [simp]:
  "linked m (i\<lparr>inputs := x1\<rparr>) = linked m i" "linked m (i\<lparr>iPending := x2\<rparr>) = linked m i"
  "linked m (i\<lparr>inAwaitConfirm := x3\<rparr>) = linked m i" "linked m (i\<lparr>inEgress := x4\<rparr>) = linked m i"
  "linked m (i\<lparr>iBackoffN := x5\<rparr>) = linked m i" "linked m (i\<lparr>iSemHeld := x6\<rparr>) = linked m i"
  "linked m (i\<lparr>iStateFile := x7\<rparr>) = linked m i" "linked m (i\<lparr>iClients := x8\<rparr>) = linked m i"
  "linked m (i\<lparr>iEpIdx := x9\<rparr>) = linked m i" "linked m (i\<lparr>inConns := x10\<rparr>) = linked m i"
  "linked m (i\<lparr>iReplays := x11\<rparr>) = linked m i"
  by (simp_all add: linked_def)

lemma linked_act:
  "linked m i \<Longrightarrow> mon_step m a = Some m' \<Longrightarrow> mStatus m' = mStatus m \<Longrightarrow> mOpen m' = mOpen m \<Longrightarrow>
   linked m' (act a i)"
  by (auto simp: linked_def run_mon_append)

lemma linked_setStatus:
  "linked m i \<Longrightarrow> status_edge (inStatus i) s \<Longrightarrow>
   linked (m\<lparr>mStatus := s, mHeld := mHeld m \<or> s = StatusNormal,
             mLeak := mLeak m \<or> inStatus i = StatusDraining \<and> s = StatusDisabled\<rparr>) (setStatus s i)"
  by (auto simp: linked_def setStatus_def run_mon_append)

lemma linked_closeClient:
  "linked m i \<Longrightarrow> linked (m\<lparr>mOpen := None\<rparr>) (closeClient i)"
  by (cases "iClient i")
     (fastforce simp: linked_def closeClient_def run_mon_append Let_def)+

lemma closeClient_frame [simp]:
  "iClient (closeClient i) = None" "inStatus (closeClient i) = inStatus i"
  "iSemHeld (closeClient i) = iSemHeld i" "iStateFile (closeClient i) = iStateFile i"
  by (simp_all add: closeClient_def Let_def split: option.split)

lemma setStatus_frame [simp]:
  "inStatus (setStatus s i) = s" "iClient (setStatus s i) = iClient i"
  "iSemHeld (setStatus s i) = iSemHeld i"
  by (simp_all add: setStatus_def)

lemma linked_closeConns: "linked m i \<Longrightarrow> linked m (closeConns i)"
  by (auto simp: closeConns_def intro: linked_act)

lemma closeConns_frame [simp]:
  "inStatus (closeConns i) = inStatus i" "iClient (closeConns i) = iClient i"
  "iSemHeld (closeConns i) = iSemHeld i"
  by (simp_all add: closeConns_def)

lemma linked_dropIdentity: "linked m i \<Longrightarrow> linked m (dropIdentity k i)"
  by (auto simp: dropIdentity_def nextEndpoint_def removeState_def intro: linked_act)

lemma dropIdentity_frame [simp]:
  "inStatus (dropIdentity k i) = inStatus i" "iClient (dropIdentity k i) = iClient i"
  "iSemHeld (dropIdentity k i) = iSemHeld i"
  by (simp_all add: dropIdentity_def nextEndpoint_def removeState_def)

lemma linked_watchRun:
  "linked m i \<Longrightarrow> iClient i = Some c \<Longrightarrow> linked m (watchRun i)"
  by (auto simp: linked_def watchRun_def)

lemma linked_up:
  "run_mon mon0 (trace i) = Some m \<Longrightarrow> mStatus m = inStatus i \<Longrightarrow> mOpen m = Some c \<Longrightarrow>
   (\<forall>g \<in> iWatched i. g \<le> iGen i) \<Longrightarrow> \<not> inStopped i \<Longrightarrow>
   linked m (watchRun (i\<lparr>iClient := Some c\<rparr>))"
  by (auto simp: linked_def watchRun_def)

lemma backoffDelay_frame [simp]:
  "linked m (snd (backoffDelay i)) = linked m i"
  "inStatus (snd (backoffDelay i)) = inStatus i" "iClient (snd (backoffDelay i)) = iClient i"
  "iSemHeld (snd (backoffDelay i)) = iSemHeld i"
  by (simp_all add: backoffDelay_def)

lemma main_ok_frame [simp]:
  "main_ok (i\<lparr>inputs := x1\<rparr>) = main_ok i" "main_ok (i\<lparr>iPending := x2\<rparr>) = main_ok i"
  "main_ok (i\<lparr>inAwaitConfirm := x3\<rparr>) = main_ok i" "main_ok (i\<lparr>iBackoffN := x4\<rparr>) = main_ok i"
  "main_ok (snd (backoffDelay i)) = main_ok i"
  by (simp_all add: main_ok_def)

lemma probing_ok_frame [simp]:
  "probing_ok h (i\<lparr>inputs := x1\<rparr>) = probing_ok h i" "probing_ok h (i\<lparr>iPending := x2\<rparr>) = probing_ok h i"
  "probing_ok h (i\<lparr>iStateFile := x3\<rparr>) = probing_ok h i"
  "probing_ok h (snd (backoffDelay i)) = probing_ok h i"
  by (simp_all add: probing_ok_def)

lemma probing_ok_act:
  "probing_ok h i \<Longrightarrow> (\<And>m. mon_step m a = Some m) \<Longrightarrow> probing_ok h (act a i)"
  by (auto simp: probing_ok_def intro: linked_act)

lemma emit_release_ok:
  assumes "probing_ok h i" and "releasing k" and "k \<noteq> evDisabled"
  shows "post wait_ok end_ok (\<lambda>_ j. probing_ok False j \<and> iClient j = iClient i) (emit k eg i)"
proof -
  from assms(1) obtain m where m: "linked m i" and st: "mStatus m = StatusProbing"
    by (auto simp: probing_ok_def linked_def)
  have k: "k \<noteq> evReady" using assms(2) by (auto simp: releasing_def)
  have "linked (m\<lparr>mHeld := False\<rparr>) (act (Emit k eg) (i\<lparr>inputs := is\<rparr>))"
    and "linked (m\<lparr>mHeld := False\<rparr>) (act (EmitAbandoned k) (i\<lparr>inputs := is\<rparr>))" for "is"
    using m st k assms(2,3) by (auto intro!: linked_act)
  then have "probing_ok False (act (Emit k eg) (i\<lparr>inputs := is\<rparr>))"
    and "probing_ok False (act (EmitAbandoned k) (i\<lparr>inputs := is\<rparr>))" for "is"
    using assms(1) by (fastforce simp: probing_ok_def)+
  moreover have "wait_ok i" using assms(1) by blast
  ultimately show ?thesis by (auto simp: emit_def split: list.split input.split)
qed

lemma probeAndReport_ok:
  assumes "probing_ok False i" and "iClient i \<noteq> None"
  shows "post wait_ok end_ok (\<lambda>_. main_ok) (probeAndReport i)"
proof -
  have cell: "probing_ok h (j\<lparr>inEgress := e\<rparr>) = probing_ok h j"
    "probing_ok h (j\<lparr>inAwaitConfirm := b\<rparr>) = probing_ok h j" for h j e b
    by (simp_all add: probing_ok_def)
  have ready: "post wait_ok end_ok (\<lambda>_. main_ok) (emit evReady eg j)"
    if "probing_ok False j" "iClient j \<noteq> None" for eg j
  proof -
    from that obtain m where m: "linked m j" "mHeld m \<longrightarrow> mLeak m" "mStatus m = StatusProbing"
      "mOpen m \<noteq> None" by (auto simp: probing_ok_def linked_def)
    have "linked m (act (Emit evReady eg) (j\<lparr>inputs := is\<rparr>))"
      and "linked m (act (EmitAbandoned evReady) (j\<lparr>inputs := is\<rparr>))" for "is"
      using m by (auto intro!: linked_act simp: releasing_def)
    then have "main_ok (act (Emit evReady eg) (j\<lparr>inputs := is\<rparr>))"
      and "main_ok (act (EmitAbandoned evReady) (j\<lparr>inputs := is\<rparr>))" for "is"
      using that m(2) by (fastforce simp: main_ok_def probing_ok_def)+
    moreover have "wait_ok j" using that by blast
    ultimately show ?thesis by (auto simp: emit_def split: list.split input.split)
  qed
  show ?thesis
    using assms ready
    by (auto simp: probeAndReport_def Let_def cell split: list.split input.split probe_answer.split
        intro!: ready)
qed

lemma waitBackoff_probing:
  "probing_ok h i \<Longrightarrow>
   post wait_ok end_ok (\<lambda>_ j. probing_ok h j \<and> iClient j = iClient i) (waitBackoff d i)"
proof (induction d i rule: waitBackoff.induct)
  case (1 d i)
  have w: "probing_ok h (act (Wait d) i)" using "1.prems" by (rule probing_ok_act) simp
  then have "wait_ok (act (Wait d) i)" by blast
  with w "1.IH" [OF refl] show ?case
    by (subst waitBackoff.simps) (auto simp: Let_def split: list.split input.split)
qed

lemma waitIfPositive_probing:
  "probing_ok h i \<Longrightarrow>
   post wait_ok end_ok (\<lambda>_ j. probing_ok h j \<and> iClient j = iClient i) (waitIfPositive d i)"
  by (simp add: waitIfPositive_def waitBackoff_probing)

lemma provisionCredential_probing:
  "probing_ok h i \<Longrightarrow>
   post wait_ok end_ok (\<lambda>_ j. probing_ok h j \<and> iClient j = iClient i) (provisionCredential i)"
  by (auto simp: provisionCredential_def
      split: list.split input.split acquire_answer.split prod.split)

text \<open>Building a client, from a state without one.\<close>

lemma startUnderSem_probing:
  assumes "probing_ok h i" and "iClient i = None"
  shows "post wait_ok end_ok
    (\<lambda>r j. case r of
       (Some c, True) \<Rightarrow> probing_ok h (watchRun (j\<lparr>iClient := Some c\<rparr>))
     | _ \<Rightarrow> probing_ok h j \<and> iClient j = None) (startUnderSem i)"
proof -
  obtain m where m: "linked m i" "h \<or> (mHeld m \<longrightarrow> mLeak m)" "mStatus m = StatusProbing"
    "mOpen m = None" "inStatus i = StatusProbing"
    using assms by (auto simp: probing_ok_def linked_def)
  let ?b = "\<lambda>x. act (NewClient (currentEndpoint (i\<lparr>inputs := x, iSemHeld := True\<rparr>)) (iStateFile i))
     (i\<lparr>inputs := x, iSemHeld := True\<rparr>)"
  have b: "linked m (?b x)" for x
    using m by (auto intro!: linked_act)
  have parked: "wait_ok (?b x)" for x
    using b [of x] m(5) by (auto simp: wait_ok_def rest_ok_def)
  have panic: "end_ok (releaseSem (?b x\<lparr>inputs := y\<rparr>))"
    and retry: "probing_ok h (releaseSem (?b x\<lparr>inputs := y\<rparr>))" for x y
    using b [of x] m by (auto simp: end_ok_def rest_ok_def probing_ok_def releaseSem_def)
  have failed: "probing_ok h (releaseSem (act (CloseClient c)
      (?b x\<lparr>inputs := y, iStateFile := f, iClients := n\<rparr>)))" for x y f n c
  proof -
    have "linked m (act (CloseClient c) (?b x\<lparr>inputs := y, iStateFile := f, iClients := n\<rparr>))"
      using b [of x] m(4) by (auto intro!: linked_act)
    then show ?thesis using m(2,5) by (auto simp: probing_ok_def releaseSem_def)
  qed
  have up: "probing_ok h (watchRun (releaseSem (act (ClientUp c)
      (?b x\<lparr>inputs := y, iStateFile := f, iClients := n\<rparr>))\<lparr>iClient := Some c\<rparr>))" for x y f n c
  proof -
    have "linked (m\<lparr>mOpen := Some c\<rparr>) (watchRun (releaseSem (act (ClientUp c)
      (?b x\<lparr>inputs := y, iStateFile := f, iClients := n\<rparr>))\<lparr>iClient := Some c\<rparr>))"
      using m by (intro linked_up) (auto simp: linked_def releaseSem_def run_mon_append)
    then show ?thesis using m(2,5) by (auto simp: probing_ok_def releaseSem_def watchRun_def)
  qed
  have "wait_ok i" using assms(1) by blast
  then show ?thesis
    using assms parked panic retry failed up
    by (auto simp: startUnderSem_def acquireSem_def Let_def releaseSem_def
        split: list.split input.split client_answer.split)
qed

lemma probing_ok_closeClient: "probing_ok h i \<Longrightarrow> probing_ok h (closeClient i)"
  by (auto simp: probing_ok_def dest: linked_closeClient)

lemma probing_ok_dropIdentity: "probing_ok h i \<Longrightarrow> probing_ok h (dropIdentity k i)"
  by (auto simp: probing_ok_def dest: linked_dropIdentity)

lemma ensureClient_ok:
  "probing_ok h i \<Longrightarrow>
   post wait_ok end_ok (\<lambda>ok j. probing_ok h j \<and> (ok \<longrightarrow> iClient j \<noteq> None)) (ensureClient k d i)"
proof (rule post_ensureClient [where I = "\<lambda>k d i. probing_ok h i"])
  fix k d i
  assume i: "probing_ok h i"
  let ?R = "\<lambda>ok j. probing_ok h j \<and> (ok \<longrightarrow> iClient j \<noteq> None)"
  let ?i0 = "dropIdentity k (closeClient i)"
  have i0: "probing_ok h ?i0" "iClient ?i0 = None"
    using i by (simp_all add: probing_ok_dropIdentity probing_ok_closeClient)
  have start: "post wait_ok end_ok (\<lambda>r j. case r of
         (_, False) \<Rightarrow> ?R False j
       | (Some c, True) \<Rightarrow> ?R True (watchRun (j\<lparr>iClient := Some c\<rparr>))
       | (None, True) \<Rightarrow> probing_ok h (snd (backoffDelay j))) (startUnderSem i2)"
    if "probing_ok h i2" "iClient i2 = None" for i2
    by (rule post_mono [OF startUnderSem_probing [OF that]])
       (auto simp: watchRun_def split: prod.splits option.splits bool.splits)
  show "client_round wait_ok end_ok (\<lambda>k d i. probing_ok h i) ?R k d i"
    unfolding client_round_def
  proof (rule post_mono [OF waitIfPositive_probing [OF i0(1), of d]], simp, simp, goal_cases)
    case w: (1 ok i1)
    have "post wait_ok end_ok (\<lambda>err i2.
         if err \<noteq> None then probing_ok h (snd (backoffDelay i2))
         else post wait_ok end_ok (\<lambda>r j. case r of
             (_, False) \<Rightarrow> ?R False j
           | (Some c, True) \<Rightarrow> ?R True (watchRun (j\<lparr>iClient := Some c\<rparr>))
           | (None, True) \<Rightarrow> probing_ok h (snd (backoffDelay j))) (startUnderSem i2))
         (provisionCredential i1)"
      by (rule post_mono [OF provisionCredential_probing [of h i1]])
         (use w i0(2) start in auto)
    with w show ?case by simp
  qed
qed

section \<open>Commands and the main loop\<close>

lemma rebuild_ok:
  assumes "probing_ok False i"
  shows "post wait_ok end_ok (\<lambda>ok j. if \<not> ok then end_ok j
      else post wait_ok end_ok (\<lambda>_. main_ok) (probeAndReport j)) (ensureClient k d i)"
  by (rule post_mono [OF ensureClient_ok [OF assms]]) (auto intro: probeAndReport_ok)

lemma main_ok_probing: "main_ok i \<Longrightarrow> inStatus i = StatusProbing \<Longrightarrow> probing_ok False i \<and> iClient i \<noteq> None"
  by (auto simp: main_ok_def probing_ok_def)

lemma main_ok_to_probing:
  assumes "main_ok i" and "inStatus i = StatusProbing \<or> inStatus i = StatusNormal"
  shows "probing_ok True (setStatus StatusProbing i)"
proof -
  from assms obtain m where m: "linked m i" by (auto simp: main_ok_def)
  have "status_edge (inStatus i) StatusProbing" using assms(2) by auto
  from linked_setStatus [OF m this] assms(1) show ?thesis
    by (auto simp: probing_ok_def main_ok_def)
qed

lemma drainExpired_ok:
  assumes "linked m i" and "inStatus i = StatusDraining" and "\<not> iSemHeld i"
  shows "post wait_ok end_ok done_ok (drainExpired i)"
proof -
  have "linked m (closeConns i)" using assms(1) by (rule linked_closeConns)
  moreover have "status_edge (inStatus (closeConns i)) StatusProbing"
    using assms(2) by simp
  ultimately have "linked (m\<lparr>mStatus := StatusProbing, mHeld := mHeld m \<or> StatusProbing = StatusNormal,
      mLeak := mLeak m \<or> inStatus (closeConns i) = StatusDraining \<and> StatusProbing = StatusDisabled\<rparr>)
      (setStatus StatusProbing (closeConns i))" by (rule linked_setStatus)
  then have "probing_ok True (setStatus StatusProbing (closeConns i))"
    using assms(3) unfolding probing_ok_def by (simp, blast)
  note emitted = emit_release_ok [OF this, of evDrained zeroEgress]
  show ?thesis
    unfolding drainExpired_def post_bindO
    by (rule post_mono [OF emitted])
       (auto simp: releasing_def intro!: post_mono [OF rebuild_ok])
qed

lemma drainLoop_ok:
  assumes "linked m i" and "inStatus i = StatusDraining" and "\<not> iSemHeld i" and "iClient i \<noteq> None"
  shows "post wait_ok end_ok done_ok (drainLoop i)"
  using assms
proof (induction i rule: drainLoop.induct)
  case (1 i)
  have rest: "end_ok i" using "1.prems" by (auto simp: end_ok_def rest_ok_def)
  then have "end_ok (i\<lparr>inputs := is\<rparr>)" for "is" by (simp add: end_ok_def rest_ok_def)
  moreover have "post wait_ok end_ok done_ok (drainExpired (i\<lparr>inputs := is\<rparr>))" for "is"
    using "1.prems" by (intro drainExpired_ok [of m]) simp_all
  moreover have "main_ok (closeClient (setStatus StatusDisabled (i\<lparr>inputs := is\<rparr>)))" for "is"
    using "1.prems" linked_closeClient [OF linked_setStatus [of m "i\<lparr>inputs := is\<rparr>" StatusDisabled]]
    by (fastforce simp: main_ok_def)
  moreover have "wait_ok i" using rest by blast
  ultimately show ?case
    using "1.prems" "1.IH" by (subst drainLoop.simps) (auto split: list.split input.split cmdKind.split)
qed

lemma drain_ok:
  assumes "main_ok i" and "inStatus i = StatusNormal \<or> inStatus i = StatusProbing"
  shows "post wait_ok end_ok done_ok (drain t i)"
proof -
  from assms obtain m where m: "linked m i" and sem: "\<not> iSemHeld i" and c: "iClient i \<noteq> None"
    by (auto simp: main_ok_def)
  have "status_edge (inStatus i) StatusDraining" using assms(2) by auto
  from linked_setStatus [OF m this] show ?thesis
    unfolding drain_def using sem c by (intro drainLoop_ok [OF linked_act]) auto
qed

lemma confirm_ok:
  assumes "main_ok i" and "inStatus i = StatusProbing"
  shows "main_ok (setStatus StatusNormal i)"
proof -
  from assms obtain m where m: "linked m i" by (auto simp: main_ok_def)
  have "status_edge (inStatus i) StatusNormal" using assms(2) by simp
  from linked_setStatus [OF m this] assms show ?thesis
    unfolding main_ok_def by (simp, blast)
qed

lemma replay_start_ok:
  assumes "main_ok i" and "inStatus i = StatusProbing \<or> inStatus i = StatusNormal"
  shows "probing_ok True (setStatus StatusProbing (countReplay i))"
proof (rule main_ok_to_probing)
  from assms(1) obtain m where m: "linked m i" "mHeld m \<longrightarrow> inStatus i = StatusNormal \<or> mLeak m"
    by (auto simp: main_ok_def)
  have "linked m (countReplay i)" unfolding countReplay_def using m(1) by (intro linked_act) simp_all
  then show "main_ok (countReplay i)"
    using assms(1) m(2) by (auto simp: main_ok_def countReplay_def)
  show "inStatus (countReplay i) = StatusProbing \<or> inStatus (countReplay i) = StatusNormal"
    using assms(2) by (simp add: countReplay_def)
qed

lemma disable_ok:
  assumes "main_ok i" and "inStatus i \<noteq> StatusDisabled"
  shows "post wait_ok end_ok (\<lambda>_. main_ok)
    (emit evDisabled zeroEgress (closeClient (setStatus StatusDisabled i)))"
proof -
  from assms obtain m where m: "linked m i" and sem: "\<not> iSemHeld i" by (auto simp: main_ok_def)
  have "status_edge (inStatus i) StatusDisabled" using assms by (auto simp: main_ok_def)
  from linked_closeClient [OF linked_setStatus [OF m this]]
  obtain m' where m': "linked m' (closeClient (setStatus StatusDisabled i))"
    and st: "mStatus m' = StatusDisabled" by auto
  let ?i = "closeClient (setStatus StatusDisabled i)"
  have "linked (m'\<lparr>mHeld := False\<rparr>) (act (Emit evDisabled eg) (?i\<lparr>inputs := is\<rparr>))"
    and "linked (m'\<lparr>mHeld := False\<rparr>) (act (EmitAbandoned evDisabled) (?i\<lparr>inputs := is\<rparr>))" for eg "is"
    using m' st by (auto intro!: linked_act simp: releasing_def)
  then have "main_ok (act (Emit evDisabled eg) (?i\<lparr>inputs := is\<rparr>))"
    and "main_ok (act (EmitAbandoned evDisabled) (?i\<lparr>inputs := is\<rparr>))" for eg "is"
    using sem by (fastforce simp: main_ok_def)+
  moreover have "wait_ok ?i" using m' sem by (auto simp: wait_ok_def rest_ok_def)
  ultimately show ?thesis by (auto simp: emit_def split: list.split input.split)
qed

lemma enable_start_ok:
  assumes "main_ok i" and "inStatus i = StatusDisabled"
  shows "probing_ok False (setStatus StatusProbing i)"
proof -
  from assms obtain m where m: "linked m i" "mHeld m \<longrightarrow> mLeak m" by (auto simp: main_ok_def)
  have "status_edge (inStatus i) StatusProbing" using assms(2) by simp
  from linked_setStatus [OF m(1) this] assms m(2) show ?thesis
    unfolding probing_ok_def by (simp add: main_ok_def, auto)
qed

lemma reprobe_ok:
  assumes "main_ok i" and "inStatus i = StatusProbing"
  shows "post wait_ok end_ok (\<lambda>ok j. if ok then post wait_ok end_ok (\<lambda>_. main_ok) (probeAndReport j)
      else main_ok j) (waitBackoff d i)"
proof -
  from main_ok_probing [OF assms] obtain c where p: "probing_ok False i" "iClient i = Some c" by auto
  have ret: "main_ok j" if "probing_ok False j" "iClient j = iClient i" for j
    using that p(2) by (auto simp: main_ok_def probing_ok_def)
  show ?thesis
    by (rule post_mono [OF waitBackoff_probing [OF p(1)]]) (auto intro!: ret probeAndReport_ok simp: p(2))
qed

lemma replay_ok:
  assumes "probing_ok True i"
  shows "post wait_ok end_ok (\<lambda>ok j. if \<not> ok then end_ok j
      else post wait_ok end_ok (\<lambda>_ j1. post wait_ok end_ok (\<lambda>_. main_ok) (probeAndReport j1))
        (emit evReplayed zeroEgress j)) (ensureClient k d i)"
proof (rule post_mono [OF ensureClient_ok [OF assms]], simp, simp, goal_cases)
  case (1 ok j)
  then have "post wait_ok end_ok (\<lambda>_ j1. probing_ok False j1 \<and> iClient j1 = iClient j)
      (emit evReplayed zeroEgress j)"
    by (intro emit_release_ok) (auto simp: releasing_def)
  with 1 show ?case
    by (auto elim!: post_mono intro: probeAndReport_ok)
qed

lemma handle_cmd_ok:
  assumes "main_ok i"
  shows "post wait_ok end_ok done_ok (handle_cmd c i)"
proof (cases "cKind c")
  case cmdConfirm
  with assms confirm_ok [of "i\<lparr>inAwaitConfirm := False\<rparr>"] show ?thesis
    by (auto simp: handle_cmd_def Let_def)
next
  case cmdReprobe
  with assms reprobe_ok [of "snd (backoffDelay i)" "fst (backoffDelay i)"] show ?thesis
    by (auto simp: handle_cmd_def elim!: post_mono)
next
  case cmdReplay
  let ?i1 = "setStatus StatusProbing (countReplay i)"
  show ?thesis
  proof (cases "inStatus i = StatusProbing \<or> inStatus i = StatusNormal")
    case True
    then have "probing_ok True (snd (backoffDelay ?i1))"
      using replay_start_ok [OF assms] by simp
    from replay_ok [OF this, of False "fst (backoffDelay ?i1)"] cmdReplay True show ?thesis
      by (simp add: handle_cmd_def Let_def) (erule post_mono; simp split: if_splits)
  next
    case False
    with assms cmdReplay show ?thesis by (simp add: handle_cmd_def)
  qed
next
  case cmdDrain
  with assms drain_ok show ?thesis by (auto simp: handle_cmd_def)
next
  case cmdDisable
  with assms disable_ok show ?thesis by (auto simp: handle_cmd_def elim!: post_mono)
next
  case cmdEnable
  show ?thesis
  proof (cases "inStatus i = StatusDisabled")
    case True
    from rebuild_ok [OF enable_start_ok [OF assms True], of True 0] cmdEnable True show ?thesis
      by (simp add: handle_cmd_def) (erule post_mono; simp split: if_splits)
  next
    case False
    with assms cmdEnable show ?thesis by (simp add: handle_cmd_def)
  qed
next
  case cmdStop
  with assms show ?thesis by (auto simp: handle_cmd_def)
qed

text \<open>A current run-exit signal can only come in while a client is up.\<close>

lemma handleLost_ok:
  assumes "main_ok i" and "iClient i \<noteq> None"
  shows "post wait_ok end_ok done_ok (handleLost i)"
proof -
  have "inStatus i = StatusProbing \<or> inStatus i = StatusNormal"
    using assms by (auto simp: main_ok_def)
  from main_ok_to_probing [OF assms(1) this]
  have "post wait_ok end_ok (\<lambda>_ j. probing_ok False j \<and> iClient j = iClient (setStatus StatusProbing i))
      (emit evLost zeroEgress (setStatus StatusProbing i))"
    by (rule emit_release_ok) (simp_all add: releasing_def)
  then show ?thesis
    unfolding handleLost_def post_bindO
    by (rule post_mono) (auto intro!: post_mono [OF rebuild_ok])
qed

lemma main_ok_unwatch:
  assumes "main_ok i"
  shows "main_ok (i\<lparr>inputs := inp, iWatched := iWatched i - {g}\<rparr>)"
proof -
  have "linked m (i\<lparr>inputs := inp, iWatched := iWatched i - {g}\<rparr>)" if "linked m i" for m
    using that by (auto simp: linked_def)
  with assms show ?thesis by (fastforce simp: main_ok_def)
qed

lemma main_ok_watched: "main_ok i \<Longrightarrow> iGen i \<in> iWatched i \<Longrightarrow> iClient i \<noteq> None"
  by (auto simp: main_ok_def linked_def)

lemma manageLoop_ok: "main_ok i \<Longrightarrow> post wait_ok end_ok (\<lambda>_. end_ok) (manageLoop i)"
proof (induction i rule: manageLoop.induct)
  case (1 i)
  have wait: "wait_ok i" and rest: "end_ok (i\<lparr>inputs := is\<rparr>)" for "is"
    using "1.prems" main_ok_end by fastforce+
  show ?case
  proof (cases "iPending i")
    case (Cons c cs)
    have "post wait_ok end_ok (\<lambda>stop j. post wait_ok end_ok (\<lambda>_. end_ok)
        (if stop then Ret () j else manageLoop j)) (handle_cmd c (i\<lparr>iPending := cs\<rparr>))"
      using handle_cmd_ok [of "i\<lparr>iPending := cs\<rparr>" c] "1.prems" "1.IH"(4) [OF Cons]
      by (auto elim!: post_strengthen split: if_splits)
    with Cons show ?thesis by (subst manageLoop.simps) simp
  next
    case Nil
    note IH = "1.IH"(1-3) [OF Nil]
    show ?thesis
    proof (cases "inputs i")
      case Nil': Nil
      with Nil wait show ?thesis by (subst manageLoop.simps) simp
    next
      case (Cons a "is")
      have command: "post wait_ok end_ok (\<lambda>stop j. post wait_ok end_ok (\<lambda>_. end_ok)
          (if stop then Ret () j else manageLoop j)) (handle_cmd c (i\<lparr>inputs := is\<rparr>))"
        if "a = InCmd c" for c
        using handle_cmd_ok [of "i\<lparr>inputs := is\<rparr>" c] "1.prems" IH(1) [OF Cons that]
        by (auto elim!: post_strengthen split: if_splits)
      let ?i1 = "\<lambda>g. i\<lparr>inputs := is, iWatched := iWatched i - {g}\<rparr>"
      have lost: "post wait_ok end_ok (\<lambda>stop j. post wait_ok end_ok (\<lambda>_. end_ok)
          (if stop then Ret () j else manageLoop j)) (handleLost (?i1 g))"
        if "a = InRunExit g" "g \<in> iWatched i" "g = iGen i" for g
        using handleLost_ok [OF main_ok_unwatch [OF "1.prems", where inp = "is" and g = g]] main_ok_watched [OF "1.prems"]
          IH(2) [OF Cons that(1) _ refl] that
        by (auto elim!: post_strengthen split: if_splits)
      have stale: "post wait_ok end_ok (\<lambda>_. end_ok) (manageLoop (?i1 g))"
        if "a = InRunExit g" "g \<in> iWatched i" "g \<noteq> iGen i" for g
        using IH(3) [OF Cons that(1) _ refl] that main_ok_unwatch [OF "1.prems"] by simp
      show ?thesis
        using Nil Cons wait rest command lost stale
        by (subst manageLoop.simps) (auto simp: Let_def split: input.split)
    qed
  qed
qed

section \<open>The whole goroutine\<close>

text \<open>A fresh instance: nothing done yet, no client.\<close>

lemma newInstance_probing: "probing_ok False (newInstance cfg now f rm script)"
  by (simp add: probing_ok_def newInstance_def handle.extend_def newHandle_def linked_def mon0_def)

lemma manage_ok:
  assumes "probing_ok False i"
  shows "post wait_ok end_ok (\<lambda>_. end_ok) (manage i)"
  unfolding manage_def post_bindO
  by (rule post_mono [OF ensureClient_ok [OF assms]])
     (auto intro!: post_mono [OF probeAndReport_ok] manageLoop_ok)

text \<open>What the last actions leave behind.\<close>

definition finished :: "inst \<Rightarrow> bool" where
  "finished i \<longleftrightarrow> inStopped i \<and> iClient i = None \<and> inConns i = {} \<and> \<not> iSemHeld i \<and>
     (iRemoveOk i \<longrightarrow> iStateFile i = None)"

lemma recoverManage_finished: "end_ok i \<Longrightarrow> finished (recoverManage room i)"
  by (auto simp: recoverManage_def finalize_def removeState_def closeConns_def closeClient_def
      finished_def end_ok_def Let_def split: option.split)

lemma goroutine_ok:
  "post wait_ok anything (\<lambda>_. finished) (goroutine room (newInstance cfg now f rm script))"
  using manage_ok [OF newInstance_probing [of cfg now f rm script]]
  by (cases "manage (newInstance cfg now f rm script)")
     (auto simp: goroutine_def recoverManage_finished)

text \<open>The goroutine never leaves a panic unhandled.\<close>

lemma goroutine_no_panic: "goroutine room i \<noteq> Panic j"
  by (cases "manage i") (auto simp: goroutine_def)

end
