(* ===== verification/Eviction.thy ===== *)
theory Eviction
  imports Status
begin

text \<open>
  The eviction policies of \<^verbatim>\<open>eviction.go\<close>: the view an \<open>Evictor\<close> decides on, the two
  built-in policies \<open>EvictNone\<close> and \<open>EvictOldest\<close>, and the interface as a locale. A
  policy returns the pair of the Go method, the victim's ID and the \<open>ok\<close> flag.
\<close>

record InstanceView =
  ivID :: ID
  ivStatus :: Status
  ivCreatedAt :: time

type_synonym evictor = "InstanceView list \<Rightarrow> ID \<times> bool"

section \<open>The policies\<close>

definition EvictNone :: evictor where
  "EvictNone candidates = ('''', False)"

text \<open>\<open>evictPriority\<close>: smaller is evicted first; the flag is \<open>ok\<close>.\<close>

fun evictPriority :: "Status \<Rightarrow> int \<times> bool" where
  "evictPriority StatusDisabled = (0, True)"
| "evictPriority StatusDraining = (1, True)"
| "evictPriority StatusNormal = (2, True)"
| "evictPriority _ = (0, False)"

text \<open>The loop of \<open>EvictOldest.Evict\<close> from index \<open>i\<close> on; \<open>best = -1\<close> is the initial value.\<close>

fun evictLoop :: "InstanceView list \<Rightarrow> nat \<Rightarrow> InstanceView list \<Rightarrow> int \<Rightarrow> int" where
  "evictLoop candidates i [] best = best"
| "evictLoop candidates i (c # cs) best =
     (case evictPriority (ivStatus c) of (pri, ok) \<Rightarrow>
        if \<not> ok then evictLoop candidates (Suc i) cs best
        else if best < 0 then evictLoop candidates (Suc i) cs (int i)
        else
          (let b = candidates ! nat best;
               bestPri = fst (evictPriority (ivStatus b))
           in if pri < bestPri \<or> pri = bestPri \<and> ivCreatedAt c < ivCreatedAt b
              then evictLoop candidates (Suc i) cs (int i)
              else evictLoop candidates (Suc i) cs best))"

definition EvictOldest :: evictor where
  "EvictOldest candidates =
     (let best = evictLoop candidates 0 candidates (-1)
      in if best < 0 then ('''', False) else (ivID (candidates ! nat best), True))"

section \<open>What the loop computes\<close>

definition evictable :: "InstanceView \<Rightarrow> bool" where
  "evictable v \<longleftrightarrow> snd (evictPriority (ivStatus v))"

definition evict_before :: "InstanceView \<Rightarrow> InstanceView \<Rightarrow> bool" where
  "evict_before a b \<longleftrightarrow>
     (let pa = fst (evictPriority (ivStatus a)); pb = fst (evictPriority (ivStatus b))
      in pa < pb \<or> pa = pb \<and> ivCreatedAt a < ivCreatedAt b)"

text \<open>\<open>best\<close> is right for the first \<open>i\<close> candidates: no evictable one when it is
  negative, otherwise the first candidate that no other comes before.\<close>

definition best_upto :: "InstanceView list \<Rightarrow> nat \<Rightarrow> int \<Rightarrow> bool" where
  "best_upto cs i best \<longleftrightarrow>
     (if best < 0 then \<forall>j < i. \<not> evictable (cs ! j)
      else nat best < i \<and> evictable (cs ! nat best) \<and>
           (\<forall>j < i. evictable (cs ! j) \<longrightarrow> \<not> evict_before (cs ! j) (cs ! nat best)) \<and>
           (\<forall>j < nat best. evictable (cs ! j) \<longrightarrow> evict_before (cs ! nat best) (cs ! j)))"

lemma evict_before_trans:
  "evict_before a b \<Longrightarrow> evict_before b c \<Longrightarrow> evict_before a c"
  by (auto simp: evict_before_def Let_def)

lemma evict_before_asym: "evict_before a b \<Longrightarrow> \<not> evict_before b a"
  by (auto simp: evict_before_def Let_def)

lemma evict_before_cotrans:
  "evict_before a c \<Longrightarrow> \<not> evict_before b c \<Longrightarrow> evict_before a b"
  by (auto simp: evict_before_def Let_def)

lemma evictable_not_probing: "evictable v \<Longrightarrow> ivStatus v \<noteq> StatusProbing"
  by (auto simp: evictable_def)

lemma best_upto_Suc_skip:
  "best_upto cs i best \<Longrightarrow> \<not> evictable (cs ! i) \<Longrightarrow> best_upto cs (Suc i) best"
  by (auto simp: best_upto_def less_Suc_eq)

lemma best_upto_Suc_first:
  "best_upto cs i best \<Longrightarrow> best < 0 \<Longrightarrow> evictable (cs ! i) \<Longrightarrow> best_upto cs (Suc i) (int i)"
  by (auto simp: best_upto_def less_Suc_eq dest: evict_before_asym)

lemma best_upto_Suc_better:
  assumes "best_upto cs i best" and "0 \<le> best" and "evictable (cs ! i)"
    and "evict_before (cs ! i) (cs ! nat best)"
  shows "best_upto cs (Suc i) (int i)"
  using assms unfolding best_upto_def
  by (auto simp: less_Suc_eq dest: evict_before_asym evict_before_cotrans)

lemma best_upto_Suc_keep:
  "best_upto cs i best \<Longrightarrow> 0 \<le> best \<Longrightarrow> \<not> evict_before (cs ! i) (cs ! nat best) \<Longrightarrow>
   best_upto cs (Suc i) best"
  by (auto simp: best_upto_def less_Suc_eq)

lemma evictLoop_best:
  "cs = pre @ rest \<Longrightarrow> best_upto cs (length pre) best \<Longrightarrow>
   best_upto cs (length cs) (evictLoop cs (length pre) rest best)"
proof (induction rest arbitrary: pre best)
  case Nil
  then show ?case by simp
next
  case (Cons c rest)
  have c: "cs ! length pre = c" using Cons.prems(1) by simp
  have step: "best_upto cs (length cs) (evictLoop cs (Suc (length pre)) rest b)"
    if "best_upto cs (Suc (length pre)) b" for b
    using Cons.IH [of "pre @ [c]" b] Cons.prems(1) that by simp
  obtain pri ok where p: "evictPriority (ivStatus c) = (pri, ok)" by fastforce
  have ok: "ok \<longleftrightarrow> evictable (cs ! length pre)" by (simp add: c evictable_def p)
  have bef: "evict_before (cs ! length pre) (cs ! nat best) \<longleftrightarrow>
      pri < fst (evictPriority (ivStatus (cs ! nat best))) \<or>
      pri = fst (evictPriority (ivStatus (cs ! nat best))) \<and>
      ivCreatedAt c < ivCreatedAt (cs ! nat best)"
    by (simp add: c evict_before_def p Let_def)
  show ?case
    using Cons.prems(2) ok bef p step
    by (auto simp: Let_def not_less intro!: step
        intro: best_upto_Suc_skip best_upto_Suc_first best_upto_Suc_better best_upto_Suc_keep)
qed

lemma EvictOldest_best_upto:
  "best_upto cs (length cs) (evictLoop cs 0 cs (-1))"
  using evictLoop_best [of cs "[]" cs "-1"] by (simp add: best_upto_def)

text \<open>The victim is the first of the candidates that no evictable one comes before.\<close>

lemma EvictOldest_SomeE:
  assumes "EvictOldest cs = (v, True)"
  obtains k where "k < length cs" "v = ivID (cs ! k)" "evictable (cs ! k)"
    "\<forall>c \<in> set cs. evictable c \<longrightarrow> \<not> evict_before c (cs ! k)"
    "\<forall>j < k. evictable (cs ! j) \<longrightarrow> evict_before (cs ! k) (cs ! j)"
proof (rule that [of "nat (evictLoop cs 0 cs (-1))"])
qed (use EvictOldest_best_upto [of cs] assms in
  \<open>auto simp: EvictOldest_def best_upto_def Let_def in_set_conv_nth split: if_splits\<close>)

lemma EvictOldest_None_iff:
  "EvictOldest cs = ('''', False) \<longleftrightarrow> (\<forall>c \<in> set cs. \<not> evictable c)"
proof (cases "evictLoop cs 0 cs (-1) < 0")
  case True
  with EvictOldest_best_upto [of cs] show ?thesis
    by (auto simp: EvictOldest_def best_upto_def in_set_conv_nth)
next
  case False
  with EvictOldest_best_upto [of cs]
  have "cs ! nat (evictLoop cs 0 cs (-1)) \<in> set cs"
    and "evictable (cs ! nat (evictLoop cs 0 cs (-1)))"
    by (auto simp: best_upto_def)
  with False show ?thesis by (auto simp: EvictOldest_def Let_def)
qed

lemma EvictOldest_ok_iff: "snd (EvictOldest cs) \<longleftrightarrow> (\<exists>c \<in> set cs. evictable c)"
  using EvictOldest_None_iff [of cs] by (auto simp: EvictOldest_def Let_def)

section \<open>The interface the pool relies on\<close>

text \<open>What the pool needs of any policy: a victim is one of the candidates.\<close>

locale evictor_contract =
  fixes evict :: evictor
  assumes victim_known: "evict cs = (v, True) \<Longrightarrow> v \<in> ivID ` set cs"
begin

lemma no_victim_of_empty: "snd (evict []) = False"
  using victim_known [of "[]" "fst (evict [])"] by (cases "evict []") auto

end

text \<open>The documented stronger promise of \<open>EvictOldest\<close>: a probing instance is never chosen.\<close>

locale settled_evictor = evictor_contract +
  assumes victim_settled:
    "evict cs = (v, True) \<Longrightarrow> \<exists>c \<in> set cs. ivID c = v \<and> ivStatus c \<noteq> StatusProbing"
begin

lemma probing_kept:
  assumes "evict cs = (v, True)" and "distinct (map ivID cs)"
    and "c \<in> set cs" and "ivStatus c = StatusProbing"
  shows "ivID c \<noteq> v"
  using victim_settled [OF assms(1)] assms(2-4)
  by (auto simp: distinct_map dest: inj_onD)

end

interpretation none: settled_evictor EvictNone
  by unfold_locales (auto simp: EvictNone_def)

interpretation oldest: settled_evictor EvictOldest
proof
  show "v \<in> ivID ` set cs" if "EvictOldest cs = (v, True)" for cs v
    using that by (auto elim!: EvictOldest_SomeE)
next
  show "\<exists>c \<in> set cs. ivID c = v \<and> ivStatus c \<noteq> StatusProbing"
    if "EvictOldest cs = (v, True)" for cs v
    using that by (elim EvictOldest_SomeE) (use evictable_not_probing nth_mem in blast)
qed

section \<open>Properties\<close>

lemma evictable_iff:
  "evictable v \<longleftrightarrow> ivStatus v \<in> {StatusNormal, StatusDraining, StatusDisabled}"
  by (cases "ivStatus v") (simp_all add: evictable_def)

lemma evict_before_status:
  "evictable a \<Longrightarrow> evictable b \<Longrightarrow>
   evict_before a b \<longleftrightarrow>
     ivStatus b < ivStatus a \<or> ivStatus a = ivStatus b \<and> ivCreatedAt a < ivCreatedAt b"
  by (auto simp: evictable_iff evict_before_def less_Status_def)

lemma EvictOldest_victim:
  assumes "EvictOldest cs = (i, True)"
  shows "\<exists>v \<in> set cs. i = ivID v \<and> ivStatus v \<in> {StatusNormal, StatusDraining, StatusDisabled} \<and>
         (\<forall>c \<in> set cs. ivStatus c \<in> {StatusNormal, StatusDraining, StatusDisabled} \<longrightarrow>
            ivStatus c < ivStatus v \<or> ivStatus c = ivStatus v \<and> ivCreatedAt v \<le> ivCreatedAt c)"
proof -
  obtain k where k: "k < length cs" and v: "i = ivID (cs ! k)" and ev: "evictable (cs ! k)"
    and first: "\<forall>c \<in> set cs. evictable c \<longrightarrow> \<not> evict_before c (cs ! k)"
    using assms by (rule EvictOldest_SomeE)
  then have "\<forall>c \<in> set cs. evictable c \<longrightarrow> ivStatus c < ivStatus (cs ! k) \<or>
      ivStatus c = ivStatus (cs ! k) \<and> ivCreatedAt (cs ! k) \<le> ivCreatedAt c"
    using evict_before_status [OF _ ev] by force
  moreover have "cs ! k \<in> set cs" using k by simp
  ultimately show ?thesis using ev v unfolding evictable_iff [symmetric] by blast
qed

text \<open>\<open>EvictOldest\<close> names a victim exactly when some candidate is not probing. The victim
  is a candidate that has left probing; among the settled candidates none has a status
  further out of service (Disabled, then Draining, then Normal), and of those with the same
  status none was created earlier.\<close>

theorem EvictOldest_choice:
  "(snd (EvictOldest cs) \<longleftrightarrow>
      (\<exists>c \<in> set cs. ivStatus c \<in> {StatusNormal, StatusDraining, StatusDisabled})) \<and>
   (snd (EvictOldest cs) \<longrightarrow>
      (\<exists>v \<in> set cs. fst (EvictOldest cs) = ivID v \<and>
         ivStatus v \<in> {StatusNormal, StatusDraining, StatusDisabled} \<and>
         (\<forall>c \<in> set cs. ivStatus c \<in> {StatusNormal, StatusDraining, StatusDisabled} \<longrightarrow>
            ivStatus c < ivStatus v \<or> ivStatus c = ivStatus v \<and> ivCreatedAt v \<le> ivCreatedAt c)))"
  using EvictOldest_ok_iff [of cs] EvictOldest_victim [of cs "fst (EvictOldest cs)"]
  unfolding evictable_iff by (cases "EvictOldest cs") auto

theorem EvictOldest_choice_witness:
  "let cs = [\<lparr>ivID = ''0'', ivStatus = StatusNormal, ivCreatedAt = 1\<rparr>,
             \<lparr>ivID = ''1'', ivStatus = StatusProbing, ivCreatedAt = 0\<rparr>,
             \<lparr>ivID = ''2'', ivStatus = StatusDraining, ivCreatedAt = 5\<rparr>]
   in (\<exists>v \<in> set cs. fst (EvictOldest cs) = ivID v) \<and> EvictOldest cs = (''2'', True)"
  using EvictOldest_choice [of "[\<lparr>ivID = ''0'', ivStatus = StatusNormal, ivCreatedAt = 1\<rparr>,
             \<lparr>ivID = ''1'', ivStatus = StatusProbing, ivCreatedAt = 0\<rparr>,
             \<lparr>ivID = ''2'', ivStatus = StatusDraining, ivCreatedAt = 5\<rparr>]"]
  by (simp add: EvictOldest_def Let_def)

end
