(* ===== verification/Ports.thy ===== *)
theory Ports
  imports GoText
begin

text \<open>
  The port allocator of \<^verbatim>\<open>pool.go\<close>: offset \<open>i\<close> is the port \<open>base + i\<close>, released offsets
  are reused last-in first-out. \<open>used\<close> is the Go map from offsets to \<open>struct{}\<close>.
  The locale \<open>slot_allocator\<close> is what the pool relies on.
\<close>

definition minListenPort :: int where "minListenPort = 1"

definition maxListenPort :: int where "maxListenPort = 65535"

record portAllocator =
  paHost :: string
  paBase :: int
  paNext :: nat
  paUsed :: "nat set"
  paFree :: "nat list"

datatype port_error = BadHostPort | PortNotNumber string | PortOutOfRange int

definition newPortAllocator :: "string \<Rightarrow> port_error + portAllocator" where
  "newPortAllocator listenBase =
     (case SplitHostPort listenBase of
        None \<Rightarrow> Inl BadHostPort
      | Some (host, portStr) \<Rightarrow>
          (case Atoi portStr of
             None \<Rightarrow> Inl (PortNotNumber portStr)
           | Some port \<Rightarrow>
               if port < minListenPort \<or> maxListenPort < port then Inl (PortOutOfRange port)
               else Inr \<lparr>paHost = host, paBase = port, paNext = 0, paUsed = {}, paFree = []\<rparr>))"

text \<open>\<open>portAllocator.addr\<close>\<close>

definition pa_addr :: "portAllocator \<Rightarrow> nat \<Rightarrow> string" where
  "pa_addr a off = JoinHostPort (paHost a) (Itoa (paBase a + int off))"

text \<open>The scanning loop of \<open>acquire\<close>: \<open>next\<close> moves on until it meets an unused offset.\<close>

function pa_scan :: "portAllocator \<Rightarrow> (string \<times> nat \<times> bool) \<times> portAllocator" where
  "pa_scan a =
     (if paBase a + int (paNext a) \<le> maxListenPort then
        (if paNext a \<in> paUsed a then pa_scan (a\<lparr>paNext := paNext a + 1\<rparr>)
         else let off = paNext a
              in ((pa_addr a off, off, True),
                  a\<lparr>paUsed := insert off (paUsed a), paNext := paNext a + 1\<rparr>))
      else (('''', 0, False), a))"
  by pat_completeness auto
termination
  by (relation "measure (\<lambda>a. nat (maxListenPort + 1 - (paBase a + int (paNext a))))") auto

declare pa_scan.simps [simp del]

definition pa_acquire :: "portAllocator \<Rightarrow> (string \<times> nat \<times> bool) \<times> portAllocator" where
  "pa_acquire a =
     (if paFree a \<noteq> [] then
        (let off = last (paFree a);
             a' = a\<lparr>paFree := butlast (paFree a), paUsed := insert off (paUsed a)\<rparr>
         in ((pa_addr a' off, off, True), a'))
      else pa_scan a)"

definition pa_release :: "portAllocator \<Rightarrow> nat \<Rightarrow> portAllocator" where
  "pa_release a off =
     (if off \<notin> paUsed a then a
      else a\<lparr>paUsed := paUsed a - {off}, paFree := paFree a @ [off]\<rparr>)"

section \<open>Invariant\<close>

text \<open>The offsets below \<open>next\<close> are exactly the used and the free ones, each once.\<close>

definition pa_inv :: "portAllocator \<Rightarrow> bool" where
  "pa_inv a \<longleftrightarrow>
     plain_text (paHost a) \<and> minListenPort \<le> paBase a \<and>
     paBase a + int (paNext a) \<le> maxListenPort + 1 \<and>
     distinct (paFree a) \<and> set (paFree a) \<inter> paUsed a = {} \<and>
     paUsed a \<union> set (paFree a) = {..<paNext a}"

lemma newPortAllocator_inv:
  "newPortAllocator s = Inr a \<Longrightarrow> pa_inv a \<and> paUsed a = {}"
  by (auto simp: newPortAllocator_def pa_inv_def lessThan_def dest: SplitHostPort_plain
      split: option.splits prod.splits if_splits)

lemma pa_scan_no_dup:
  assumes "pa_inv a"
  shows "pa_scan a =
    (if paBase a + int (paNext a) \<le> maxListenPort
     then ((pa_addr a (paNext a), paNext a, True),
           a\<lparr>paUsed := insert (paNext a) (paUsed a), paNext := paNext a + 1\<rparr>)
     else (('''', 0, False), a))"
proof -
  from assms have "paNext a \<notin> paUsed a" by (auto simp: pa_inv_def)
  then show ?thesis by (simp add: pa_scan.simps [of a] Let_def)
qed

lemma pa_addr_frame [simp]:
  "pa_addr (a\<lparr>paUsed := u\<rparr>) off = pa_addr a off"
  "pa_addr (a\<lparr>paFree := f\<rparr>) off = pa_addr a off"
  "pa_addr (a\<lparr>paNext := n\<rparr>) off = pa_addr a off"
  by (simp_all add: pa_addr_def)

lemma pa_acquire_free:
  "paFree a = fs @ [l] \<Longrightarrow>
   pa_acquire a = ((pa_addr a l, l, True), a\<lparr>paFree := fs, paUsed := insert l (paUsed a)\<rparr>)"
  by (simp add: pa_acquire_def Let_def)

lemma pa_acquire_True:
  assumes inv: "pa_inv a" and acq: "pa_acquire a = ((s, off, True), a')"
  shows "off \<notin> paUsed a \<and> paUsed a' = insert off (paUsed a) \<and> pa_inv a' \<and> s = pa_addr a off \<and>
    paBase a + int off \<le> maxListenPort \<and> paBase a' = paBase a \<and> paHost a' = paHost a"
proof (cases "paFree a" rule: rev_cases)
  case Nil
  then have "pa_acquire a = pa_scan a" by (simp add: pa_acquire_def)
  with acq inv have next_ok: "paBase a + int (paNext a) \<le> maxListenPort" and off: "off = paNext a"
    and s: "s = pa_addr a off"
    and a': "a' = a\<lparr>paUsed := insert off (paUsed a), paNext := paNext a + 1\<rparr>"
    by (auto simp: pa_scan_no_dup split: if_splits)
  from inv Nil have used: "paUsed a = {..<paNext a}" by (simp add: pa_inv_def)
  then have "pa_inv a'" using inv Nil next_ok
    by (simp add: pa_inv_def a' off lessThan_Suc)
  with used next_ok off s a' show ?thesis by simp
next
  case (snoc fs l)
  with acq have off: "off = l" and s: "s = pa_addr a l"
    and a': "a' = a\<lparr>paFree := fs, paUsed := insert l (paUsed a)\<rparr>"
    by (auto simp: pa_acquire_free)
  from inv snoc have l: "l \<notin> paUsed a" "l < paNext a" "l \<notin> set fs"
    by (auto simp: pa_inv_def)
  then have "paBase a + int l \<le> maxListenPort" using inv by (simp add: pa_inv_def)
  moreover have "pa_inv a'" using inv snoc l by (auto simp: pa_inv_def a')
  ultimately show ?thesis using off s a' l by simp
qed

text \<open>Acquisition fails only when every port up to 65535 is in use, and changes nothing.\<close>

lemma pa_acquire_False:
  assumes inv: "pa_inv a" and acq: "pa_acquire a = ((s, off, False), a')"
  shows "a' = a \<and> paUsed a = {..<nat (maxListenPort + 1 - paBase a)}"
proof (cases "paFree a" rule: rev_cases)
  case Nil
  with acq inv have "a' = a" and "\<not> paBase a + int (paNext a) \<le> maxListenPort"
    by (auto simp: pa_acquire_def pa_scan_no_dup split: if_splits)
  moreover from this inv have "paNext a = nat (maxListenPort + 1 - paBase a)"
    by (auto simp: pa_inv_def)
  ultimately show ?thesis using inv Nil by (simp add: pa_inv_def)
next
  case (snoc fs l)
  with acq show ?thesis by (simp add: pa_acquire_free)
qed

lemma pa_release_held:
  assumes "pa_inv a" and "off \<in> paUsed a"
  shows "paUsed (pa_release a off) = paUsed a - {off} \<and> pa_inv (pa_release a off)"
  using assms by (auto simp: pa_release_def pa_inv_def)

lemma pa_release_other: "off \<notin> paUsed a \<Longrightarrow> pa_release a off = a"
  by (simp add: pa_release_def)

lemma pa_release_frame [frame_simps]:
  "paBase (pa_release a off) = paBase a" "paHost (pa_release a off) = paHost a"
  by (simp_all add: pa_release_def)

lemma pa_inv_used: "pa_inv a \<Longrightarrow> off \<in> paUsed a \<Longrightarrow> paBase a + int off \<le> maxListenPort"
proof -
  assume inv: "pa_inv a" and "off \<in> paUsed a"
  then have "off < paNext a" unfolding pa_inv_def by blast
  with inv show ?thesis by (simp add: pa_inv_def)
qed

lemma pa_addr_inj: "pa_addr a i = pa_addr a j \<Longrightarrow> i = j"
  by (auto simp: pa_addr_def dest!: JoinHostPort_inj_port Itoa_inj)

text \<open>An address the allocator hands out parses back to its host and port.\<close>

lemma pa_addr_parses:
  assumes "pa_inv a" and "off \<in> paUsed a"
  shows "SplitHostPort (pa_addr a off) = Some (paHost a, Itoa (paBase a + int off))"
    and "Atoi (Itoa (paBase a + int off)) = Some (paBase a + int off)"
  using assms pa_inv_used [OF assms] plain_text_Itoa [of "paBase a + int off"]
  by (simp_all add: pa_addr_def SplitHostPort_JoinHostPort pa_inv_def minListenPort_def
      maxListenPort_def)

section \<open>The interface the pool relies on\<close>

text \<open>A table in which the holders of slots are exactly the owners, one slot each.\<close>

definition slot_table :: "('a \<Rightarrow> nat set) \<Rightarrow> ('a \<Rightarrow> bool) \<Rightarrow> ('k \<rightharpoonup> nat) \<Rightarrow> 'a \<Rightarrow> bool" where
  "slot_table held good tab a \<longleftrightarrow> good a \<and> ran tab = held a \<and> inj_on tab (dom tab)"

locale slot_allocator =
  fixes acquire :: "'a \<Rightarrow> (string \<times> nat \<times> bool) \<times> 'a"
    and release :: "'a \<Rightarrow> nat \<Rightarrow> 'a"
    and held :: "'a \<Rightarrow> nat set"
    and good :: "'a \<Rightarrow> bool"
  assumes acquire_ok: "good a \<Longrightarrow> acquire a = ((s, off, True), a') \<Longrightarrow>
      off \<notin> held a \<and> held a' = insert off (held a) \<and> good a'"
    and acquire_none: "good a \<Longrightarrow> acquire a = ((s, off, False), a') \<Longrightarrow> a' = a"
    and release_held: "good a \<Longrightarrow> off \<in> held a \<Longrightarrow>
      held (release a off) = held a - {off} \<and> good (release a off)"
begin

text \<open>A table from owners to slots stays exact and free of sharing when a slot is acquired
  for a new owner and when an owner gives its slot back.\<close>

lemma table_acquire:
  assumes "slot_table held good tab a" and "acquire a = ((s, off, True), a')" and "tab k = None"
  shows "slot_table held good (tab(k \<mapsto> off)) a'"
proof -
  from assms have new: "off \<notin> held a" "held a' = insert off (held a)" "good a'"
    using acquire_ok by (auto simp: slot_table_def)
  moreover have "ran (tab(k \<mapsto> off)) = insert off (ran tab)" using assms(3) by simp
  moreover have "inj_on (tab(k \<mapsto> off)) (dom (tab(k \<mapsto> off)))"
    using assms(1) new(1) by (intro map_upd_inj_iff) (auto simp: slot_table_def)
  ultimately show ?thesis using assms(1) by (simp add: slot_table_def)
qed

lemma table_release:
  assumes tab: "slot_table held good tab a" and k: "tab k = Some off"
  shows "slot_table held good (tab(k := None)) (release a off)"
proof -
  have "off \<in> ran tab" using k by (rule ranI)
  with tab have off: "off \<in> held a" and good: "good a" by (auto simp: slot_table_def)
  have inj: "inj_on tab (dom tab)" using tab by (simp add: slot_table_def)
  have "ran (tab(k := None)) = ran tab - {off}" by (rule ran_map_upd_None [OF inj k])
  moreover have "inj_on (tab(k := None)) (dom (tab(k := None)))"
    using inj by (rule inj_on_map_upd_None)
  ultimately show ?thesis
    using tab release_held [OF good off] by (simp add: slot_table_def)
qed

end

interpretation ports: slot_allocator pa_acquire pa_release paUsed pa_inv
proof
  show "off \<notin> paUsed a \<and> paUsed a' = insert off (paUsed a) \<and> pa_inv a'"
    if "pa_inv a" "pa_acquire a = ((s, off, True), a')" for a s off a'
    using pa_acquire_True [OF that] by blast
  show "a' = a" if "pa_inv a" "pa_acquire a = ((s, off, False), a')" for a s off a'
    using pa_acquire_False [OF that] by blast
  show "paUsed (pa_release a off) = paUsed a - {off} \<and> pa_inv (pa_release a off)"
    if "pa_inv a" "off \<in> paUsed a" for a off
    using that by (rule pa_release_held)
qed

section \<open>Any sequence of requests\<close>

text \<open>Owners ask for a port or give theirs back, in any order; an owner that holds a port
  does not ask again, and giving back without holding one does nothing.\<close>

datatype 'k port_request = Take 'k | Give 'k

fun serve :: "'k port_request \<Rightarrow> ('k \<rightharpoonup> nat) \<times> portAllocator \<Rightarrow> ('k \<rightharpoonup> nat) \<times> portAllocator" where
  "serve (Take k) (tab, a) =
     (if tab k \<noteq> None then (tab, a)
      else case pa_acquire a of
        ((s, off, True), a') \<Rightarrow> (tab(k \<mapsto> off), a')
      | ((s, off, False), a') \<Rightarrow> (tab, a'))"
| "serve (Give k) (tab, a) =
     (case tab k of
        None \<Rightarrow> (tab, a)
      | Some off \<Rightarrow> (tab(k := None), pa_release a off))"

lemma serve_table:
  "case_prod (slot_table paUsed pa_inv) ta \<Longrightarrow>
   case_prod (slot_table paUsed pa_inv) (serve r ta)"
proof (cases ta; cases r)
  fix tab a k
  assume tab: "case_prod (slot_table paUsed pa_inv) ta" and ta: "ta = (tab, a)"
  show ?thesis if r: "r = Take k"
  proof (cases "tab k")
    case None
    obtain s off ok a' where acq: "pa_acquire a = ((s, off, ok), a')" by (metis prod_cases3 surj_pair)
    from tab ta have good: "pa_inv a" by (simp add: slot_table_def)
    show ?thesis
      using tab None acq ports.table_acquire [of tab a s off a' k] ports.acquire_none [OF good]
      by (cases ok) (auto simp: ta r)
  qed (use tab ta r in simp)
  show ?thesis if r: "r = Give k"
    using tab ports.table_release [of tab a k] by (cases "tab k") (auto simp: ta r)
qed

lemma serves_table:
  "case_prod (slot_table paUsed pa_inv) ta \<Longrightarrow>
   case_prod (slot_table paUsed pa_inv) (fold serve rs ta)"
  by (induction rs arbitrary: ta) (simp_all add: serve_table)

lemma pa_acquire_base: "pa_inv a \<Longrightarrow> pa_acquire a = (r, a') \<Longrightarrow> paBase a' = paBase a"
  by (cases r; cases "snd (snd r)") (auto dest: pa_acquire_True pa_acquire_False)

lemma serve_base:
  assumes "pa_inv a"
  shows "paBase (snd (serve r (tab, a))) = paBase a"
proof (cases r)
  case (Take k)
  then show ?thesis
    using pa_acquire_base [OF assms] by (cases "pa_acquire a") (auto split: prod.split bool.split)
qed (simp add: frame_simps split: option.split)

lemma serves_base:
  "case_prod (slot_table paUsed pa_inv) ta \<Longrightarrow> paBase (snd (fold serve rs ta)) = paBase (snd ta)"
proof (induction rs arbitrary: ta)
  case (Cons r rs)
  then have "paBase (snd (serve r ta)) = paBase (snd ta)"
    by (cases ta) (simp add: slot_table_def serve_base)
  with Cons show ?case by (simp add: serve_table)
qed simp

lemma newPortAllocator_base:
  "newPortAllocator s = Inr a \<Longrightarrow> \<exists>h ps. SplitHostPort s = Some (h, ps) \<and> Atoi ps = Some (paBase a)"
  by (auto simp: newPortAllocator_def split: option.splits prod.splits if_splits)

section \<open>Properties\<close>

lemmas eval_listen = newPortAllocator_def SplitHostPort_def split_tail_def Atoi_def is_digit_def
  digit_val_def Let_def minListenPort_def maxListenPort_def

text \<open>When a request for a port is refused, nothing has changed and every port from the
  base up to 65535 is in the hands of some owner: no port is lost by returns and reuse.\<close>

lemma port_refused_only_when_full:
  assumes "newPortAllocator s = Inr a0"
    and "(tab, a) = fold serve rs (Map.empty, a0)"
    and "pa_acquire a = ((addr, off, False), a')"
  shows "a' = a \<and> ran tab = {..<nat (65536 - paBase a0)}"
proof -
  have "case_prod (slot_table paUsed pa_inv) (Map.empty, a0)"
    using newPortAllocator_inv [OF assms(1)] by (simp add: slot_table_def)
  then have tab: "slot_table paUsed pa_inv tab a" and base: "paBase a = paBase a0"
    using serves_table [of "(Map.empty, a0)" rs] serves_base [of "(Map.empty, a0)" rs] assms(2)
    by (metis case_prod_conv, metis snd_conv)
  then show ?thesis
    using pa_acquire_False [OF _ assms(3)] by (simp add: slot_table_def maxListenPort_def)
qed



lemma port_refused_only_when_full_witness:
  "\<exists>tab a a0. newPortAllocator ''[::1]:65535'' = Inr a0 \<and>
     (tab, a) = fold serve [Take 0, Give 0, Take (7 :: nat)] (Map.empty, a0) \<and>
     pa_acquire a = (('''', 0, False), a) \<and> ran tab = {..<1}"
proof -
  define a0 where "a0 = \<lparr>paHost = ''::1'', paBase = 65535, paNext = 0, paUsed = {}, paFree = []\<rparr>"
  define ta where "ta = fold serve [Take 0, Give 0, Take (7 :: nat)] (Map.empty, a0)"
  have new: "newPortAllocator ''[::1]:65535'' = Inr a0"
    by (simp add: a0_def eval_listen)
  have full: "pa_acquire (snd ta) = (('''', 0, False), snd ta)"
    unfolding ta_def a0_def
    by (simp add: pa_acquire_def pa_release_def pa_scan.simps maxListenPort_def Let_def)
  have run: "(fst ta, snd ta) = fold serve [Take 0, Give 0, Take (7 :: nat)] (Map.empty, a0)"
    unfolding ta_def by (rule prod.collapse)
  have "ran (fst ta) = {..<nat (65536 - paBase a0)}"
    using port_refused_only_when_full [OF new run full] by simp
  then have "ran (fst ta) = {..<1}" by (simp add: a0_def)
  with new run full show ?thesis by blast
qed

end
