(* ===== verification/Options.thy ===== *)
theory Options
  imports Egress Eviction Ports
begin

text \<open>
  The configuration of \<^verbatim>\<open>options.go\<close>: the options record, \<open>withDefaults\<close> and
  \<open>Validate\<close>. A Go interface field that may be nil is an \<open>option\<close>; the credential source
  and the logger only matter here as set or not (what a source answers is an input of the
  instance model).
\<close>

datatype Logger = UserLogger | DiscardLogger

record Options =
  oMin :: int
  oMax :: int
  oListenBase :: string
  oStateDir :: string
  oEvictor :: "evictor option"
  oDedupeKeyer :: "keyer option"
  oEgressProbeV4URL :: string
  oEgressProbeV6URL :: string
  oHealthInterval :: duration
  oHealthTimeout :: duration
  oEgressCheckInterval :: duration
  oDrainTimeout :: duration
  oReplayBackoffStart :: duration
  oReplayBackoffMax :: duration
  oReplayConcurrency :: int
  oDialTransport :: string
  oEndpoints :: "string list"
  oCredentialSource :: bool
  oLogger :: "Logger option"

section \<open>Defaults\<close>

definition defaultListenBase :: string where
  "defaultListenBase = ''127.0.0.1:51367''"

definition defaultStateDir :: string where
  "defaultStateDir = ''./warp-state''"

definition defaultEgressProbeV4URL :: string where
  "defaultEgressProbeV4URL = ''https://api4.ipify.org''"

definition defaultEgressProbeV6URL :: string where
  "defaultEgressProbeV6URL = ''https://api6.ipify.org''"

definition defaultHealthInterval :: duration where "defaultHealthInterval = 30 * second"
definition defaultHealthTimeout :: duration where "defaultHealthTimeout = 10 * second"
definition defaultEgressCheckInterval :: duration where "defaultEgressCheckInterval = 5 * minute"
definition defaultDrainTimeout :: duration where "defaultDrainTimeout = 10 * second"
definition defaultReplayBackoffStart :: duration where "defaultReplayBackoffStart = 1 * second"
definition defaultReplayBackoffMax :: duration where "defaultReplayBackoffMax = 60 * second"
definition defaultReplayConcurrency :: int where "defaultReplayConcurrency = 1"

definition TransportSOCKS5 :: string where "TransportSOCKS5 = ''socks5''"
definition TransportHTTP :: string where "TransportHTTP = ''http''"

lemmas default_defs =
  defaultListenBase_def defaultStateDir_def defaultEgressProbeV4URL_def
  defaultEgressProbeV6URL_def defaultHealthInterval_def defaultHealthTimeout_def
  defaultEgressCheckInterval_def defaultDrainTimeout_def defaultReplayBackoffStart_def
  defaultReplayBackoffMax_def defaultReplayConcurrency_def TransportSOCKS5_def TransportHTTP_def

definition if_empty :: "string \<Rightarrow> string \<Rightarrow> string" where
  "if_empty d s = (if s = '''' then d else s)"

definition if_not_positive :: "int \<Rightarrow> int \<Rightarrow> int" where
  "if_not_positive d x = (if x \<le> 0 then d else x)"

definition if_nil :: "'a \<Rightarrow> 'a option \<Rightarrow> 'a option" where
  "if_nil d x = (case x of None \<Rightarrow> Some d | Some _ \<Rightarrow> x)"

definition withDefaults :: "Options \<Rightarrow> Options" where
  "withDefaults o1 = o1\<lparr>
     oListenBase := if_empty defaultListenBase (oListenBase o1),
     oStateDir := if_empty defaultStateDir (oStateDir o1),
     oEvictor := if_nil EvictNone (oEvictor o1),
     oDedupeKeyer := if_nil DedupeByV6 (oDedupeKeyer o1),
     oEgressProbeV4URL := if_empty defaultEgressProbeV4URL (oEgressProbeV4URL o1),
     oEgressProbeV6URL := if_empty defaultEgressProbeV6URL (oEgressProbeV6URL o1),
     oHealthInterval := if_not_positive defaultHealthInterval (oHealthInterval o1),
     oHealthTimeout := if_not_positive defaultHealthTimeout (oHealthTimeout o1),
     oEgressCheckInterval := if_not_positive defaultEgressCheckInterval (oEgressCheckInterval o1),
     oDrainTimeout := if_not_positive defaultDrainTimeout (oDrainTimeout o1),
     oReplayBackoffStart := if_not_positive defaultReplayBackoffStart (oReplayBackoffStart o1),
     oReplayBackoffMax := if_not_positive defaultReplayBackoffMax (oReplayBackoffMax o1),
     oReplayConcurrency := if_not_positive defaultReplayConcurrency (oReplayConcurrency o1),
     oDialTransport := if_empty TransportSOCKS5 (oDialTransport o1),
     oLogger := if_nil DiscardLogger (oLogger o1)\<rparr>"

section \<open>Validation\<close>

datatype hostport_error = NoHostPort | PortText string | PortRange int

definition validateHostPort :: "string \<Rightarrow> hostport_error option" where
  "validateHostPort s =
     (case SplitHostPort s of
        None \<Rightarrow> Some NoHostPort
      | Some (h, portStr) \<Rightarrow>
          (case Atoi portStr of
             None \<Rightarrow> Some (PortText portStr)
           | Some port \<Rightarrow>
               if port < minListenPort \<or> maxListenPort < port then Some (PortRange port)
               else None))"

datatype options_error =
    MinNotPositive
  | MinAboveMax int int
  | MaxAbovePorts int
  | BadListenBase hostport_error
  | StateDirEmpty
  | EvictorUnset
  | DedupeKeyerUnset
  | ProbeURLEmpty
  | PeriodNotPositive
  | DrainTimeoutNotPositive
  | BadBackoffRange
  | ConcurrencyNotPositive
  | BadTransport string
  | BadEndpoint string hostport_error

fun validateEndpoints :: "string list \<Rightarrow> options_error option" where
  "validateEndpoints [] = None"
| "validateEndpoints (ep # eps) =
     (case validateHostPort ep of
        Some err \<Rightarrow> Some (BadEndpoint ep err)
      | None \<Rightarrow> validateEndpoints eps)"

text \<open>\<open>Options.Validate\<close>: \<open>None\<close> is the nil error, otherwise the first offending item.\<close>

definition Validate :: "Options \<Rightarrow> options_error option" where
  "Validate o1 =
     (if oMin o1 \<le> 0 then Some MinNotPositive
      else if oMax o1 < oMin o1 then Some (MinAboveMax (oMin o1) (oMax o1))
      else if maxListenPort < oMax o1 then Some (MaxAbovePorts (oMax o1))
      else case validateHostPort (oListenBase o1) of
        Some err \<Rightarrow> Some (BadListenBase err)
      | None \<Rightarrow>
      if oStateDir o1 = '''' then Some StateDirEmpty
      else if Option.is_none (oEvictor o1) then Some EvictorUnset
      else if Option.is_none (oDedupeKeyer o1) then Some DedupeKeyerUnset
      else if oEgressProbeV4URL o1 = '''' \<or> oEgressProbeV6URL o1 = '''' then Some ProbeURLEmpty
      else if oHealthInterval o1 \<le> 0 \<or> oHealthTimeout o1 \<le> 0 \<or> oEgressCheckInterval o1 \<le> 0
      then Some PeriodNotPositive
      else if oDrainTimeout o1 \<le> 0 then Some DrainTimeoutNotPositive
      else if oReplayBackoffStart o1 \<le> 0 \<or> oReplayBackoffMax o1 < oReplayBackoffStart o1
      then Some BadBackoffRange
      else if oReplayConcurrency o1 \<le> 0 then Some ConcurrencyNotPositive
      else if oDialTransport o1 \<noteq> TransportSOCKS5 \<and> oDialTransport o1 \<noteq> TransportHTTP
      then Some (BadTransport (oDialTransport o1))
      else validateEndpoints (oEndpoints o1))"

section \<open>What validation establishes\<close>

lemma if_empty_simps [simp]:
  "if_empty d (if_empty d s) = if_empty d s" "d \<noteq> '''' \<Longrightarrow> if_empty d s \<noteq> ''''"
  by (simp_all add: if_empty_def)

lemma if_not_positive_simps [simp]:
  "0 < d \<Longrightarrow> if_not_positive d (if_not_positive d x) = if_not_positive d x"
  "0 < d \<Longrightarrow> 0 < if_not_positive d x"
  by (auto simp: if_not_positive_def)

lemma if_nil_simps [simp]: "if_nil d (if_nil d x) = if_nil d x" "if_nil d x \<noteq> None"
  by (simp_all add: if_nil_def split: option.splits)

lemma withDefaults_idem: "withDefaults (withDefaults o1) = withDefaults o1"
  by (simp add: withDefaults_def default_defs)

lemma validateEndpoints_None_iff:
  "validateEndpoints eps = None \<longleftrightarrow> (\<forall>ep \<in> set eps. validateHostPort ep = None)"
  by (induction eps) (auto split: option.splits)

text \<open>The conditions \<open>Validate\<close> checks, as one predicate.\<close>

definition valid_options :: "Options \<Rightarrow> bool" where
  "valid_options o1 \<longleftrightarrow>
     0 < oMin o1 \<and> oMin o1 \<le> oMax o1 \<and> oMax o1 \<le> maxListenPort \<and>
     validateHostPort (oListenBase o1) = None \<and> oStateDir o1 \<noteq> '''' \<and>
     oEvictor o1 \<noteq> None \<and> oDedupeKeyer o1 \<noteq> None \<and>
     oEgressProbeV4URL o1 \<noteq> '''' \<and> oEgressProbeV6URL o1 \<noteq> '''' \<and>
     0 < oHealthInterval o1 \<and> 0 < oHealthTimeout o1 \<and> 0 < oEgressCheckInterval o1 \<and>
     0 < oDrainTimeout o1 \<and> 0 < oReplayBackoffStart o1 \<and>
     oReplayBackoffStart o1 \<le> oReplayBackoffMax o1 \<and> 0 < oReplayConcurrency o1 \<and>
     oDialTransport o1 \<in> {TransportSOCKS5, TransportHTTP} \<and>
     (\<forall>ep \<in> set (oEndpoints o1). validateHostPort ep = None)"

lemma Validate_None_iff: "Validate o1 = None \<longleftrightarrow> valid_options o1"
  unfolding Validate_def valid_options_def validateEndpoints_None_iff [symmetric]
  by (simp add: not_le not_less Option.is_none_def split: option.split)

text \<open>Only the items a default cannot repair can make a completed configuration invalid.\<close>

lemma Validate_withDefaults:
  "Validate (withDefaults o1) = None \<longleftrightarrow>
     0 < oMin o1 \<and> oMin o1 \<le> oMax o1 \<and> oMax o1 \<le> maxListenPort \<and>
     validateHostPort (if_empty defaultListenBase (oListenBase o1)) = None \<and>
     if_not_positive defaultReplayBackoffStart (oReplayBackoffStart o1)
       \<le> if_not_positive defaultReplayBackoffMax (oReplayBackoffMax o1) \<and>
     if_empty TransportSOCKS5 (oDialTransport o1) \<in> {TransportSOCKS5, TransportHTTP} \<and>
     (\<forall>ep \<in> set (oEndpoints o1). validateHostPort ep = None)"
  unfolding Validate_None_iff valid_options_def
  by (simp add: withDefaults_def default_defs)

text \<open>The allocator repeats the checks that validation made.\<close>

lemma validateHostPort_allocator:
  "validateHostPort s = None \<longleftrightarrow> (\<exists>a. newPortAllocator s = Inr a)"
  by (auto simp: validateHostPort_def newPortAllocator_def split: option.splits prod.splits if_splits)

section \<open>Properties\<close>

text \<open>After the defaults are filled in, \<open>Validate\<close> accepts a configuration exactly when
  the items no default can repair are sound: \<open>0 < Min \<le> Max \<le> 65535\<close>, the listen base and
  every endpoint are host and port, the transport is a known one and the back-off start
  does not exceed its maximum. Filling in the defaults twice changes nothing more.\<close>

theorem Validate_after_defaults:
  "withDefaults (withDefaults o1) = withDefaults o1 \<and>
   (Validate (withDefaults o1) = None \<longleftrightarrow>
     0 < oMin o1 \<and> oMin o1 \<le> oMax o1 \<and> oMax o1 \<le> 65535 \<and>
     validateHostPort (if_empty defaultListenBase (oListenBase o1)) = None \<and>
     if_not_positive defaultReplayBackoffStart (oReplayBackoffStart o1)
       \<le> if_not_positive defaultReplayBackoffMax (oReplayBackoffMax o1) \<and>
     oDialTransport o1 \<in> {'''', TransportSOCKS5, TransportHTTP} \<and>
     list_all (\<lambda>ep. validateHostPort ep = None) (oEndpoints o1))"
  unfolding Validate_withDefaults withDefaults_idem
  by (auto simp: maxListenPort_def list_all_iff if_empty_def TransportSOCKS5_def)

text \<open>\<open>validateHostPort\<close> accepts exactly the texts from which a port allocator can be
  built, and an accepted one gives an empty allocator whose base is the port read.\<close>

theorem validateHostPort_exact:
  "(case newPortAllocator s of
      Inl e \<Rightarrow> validateHostPort s \<noteq> None
    | Inr a \<Rightarrow> validateHostPort s = None \<and> pa_inv a \<and> paUsed a = {} \<and>
        1 \<le> paBase a \<and> paBase a \<le> 65535)"
  using validateHostPort_allocator [of s] newPortAllocator_inv [of s]
  by (auto simp: newPortAllocator_def minListenPort_def maxListenPort_def
      split: sum.split option.splits prod.splits if_splits)

end
