(* ===== verification/GoSort.thy ===== *)
theory GoSort
  imports Prelude
begin

text \<open>
  \<open>slices.SortFunc\<close>. Go sorts short slices by insertion (\<open>insertionSortCmpFunc\<close>, up to
  twelve elements), which is the definition below, and longer ones by pattern-defeating
  quicksort, which is not stable. The locale \<open>sort_func\<close> is the documented contract, so
  what is proved in it holds of either.
\<close>

text \<open>One pass of the inner loop: the new element moves left past strictly greater ones.
  The sorted prefix is kept reversed.\<close>

fun insertLeft :: "('a \<Rightarrow> 'a \<Rightarrow> int) \<Rightarrow> 'a \<Rightarrow> 'a list \<Rightarrow> 'a list" where
  "insertLeft cmp x [] = [x]"
| "insertLeft cmp x (y # ys) = (if cmp x y < 0 then y # insertLeft cmp x ys else x # y # ys)"

definition SortFunc :: "('a \<Rightarrow> 'a \<Rightarrow> int) \<Rightarrow> 'a list \<Rightarrow> 'a list" where
  "SortFunc cmp xs = rev (fold (insertLeft cmp) xs [])"

text \<open>A comparison that orders the elements of a set, ties allowed.\<close>

definition cmp_orders :: "('a \<Rightarrow> 'a \<Rightarrow> int) \<Rightarrow> 'a set \<Rightarrow> bool" where
  "cmp_orders cmp A \<longleftrightarrow>
     (\<forall>x \<in> A. \<forall>y \<in> A. cmp x y < 0 \<longleftrightarrow> \<not> cmp y x \<le> 0) \<and>
     (\<forall>x \<in> A. \<forall>y \<in> A. \<forall>z \<in> A. cmp x y \<le> 0 \<longrightarrow> cmp y z \<le> 0 \<longrightarrow> cmp x z \<le> 0)"

text \<open>Two elements that compare equal are the same element.\<close>

definition cmp_strict :: "('a \<Rightarrow> 'a \<Rightarrow> int) \<Rightarrow> 'a set \<Rightarrow> bool" where
  "cmp_strict cmp A \<longleftrightarrow> (\<forall>x \<in> A. \<forall>y \<in> A. cmp x y \<le> 0 \<longrightarrow> cmp y x \<le> 0 \<longrightarrow> x = y)"

lemma cmp_orders_subset: "cmp_orders cmp A \<Longrightarrow> B \<subseteq> A \<Longrightarrow> cmp_orders cmp B"
  unfolding cmp_orders_def by (meson subsetD)

lemma cmp_strict_subset: "cmp_strict cmp A \<Longrightarrow> B \<subseteq> A \<Longrightarrow> cmp_strict cmp B"
  unfolding cmp_strict_def by (meson subsetD)

lemma cmp_orders_refl: "cmp_orders cmp A \<Longrightarrow> x \<in> A \<Longrightarrow> cmp x x \<le> 0"
  by (fastforce simp: cmp_orders_def)

locale sort_func =
  fixes sort :: "('a \<Rightarrow> 'a \<Rightarrow> int) \<Rightarrow> 'a list \<Rightarrow> 'a list"
  assumes sort_mset: "mset (sort cmp xs) = mset xs"
    and sort_sorted: "cmp_orders cmp (set xs) \<Longrightarrow> sorted_wrt (\<lambda>x y. cmp x y \<le> 0) (sort cmp xs)"
begin

lemma sort_set [simp]: "set (sort cmp xs) = set xs"
  using sort_mset by (metis set_mset_mset)

lemma sort_length [simp]: "length (sort cmp xs) = length xs"
  using sort_mset by (metis size_mset)

lemma sort_distinct [simp]: "distinct (sort cmp xs) = distinct xs"
  using sort_mset by (metis mset_eq_imp_distinct_iff)

text \<open>The result of a strict comparison depends on the elements only, not on their order.\<close>

lemma sort_unique:
  assumes "cmp_orders cmp (set xs)" and "cmp_strict cmp (set xs)"
    and "mset ys = mset xs" and "sorted_wrt (\<lambda>x y. cmp x y \<le> 0) ys"
  shows "ys = sort cmp xs"
proof (rule sorted_wrt_same_mset_unique)
  show "sorted_wrt (\<lambda>x y. cmp x y \<le> 0) ys" by fact
  show "sorted_wrt (\<lambda>x y. cmp x y \<le> 0) (sort cmp xs)" using assms(1) by (rule sort_sorted)
  show "mset ys = mset (sort cmp xs)" using assms(3) by (simp add: sort_mset)
  have "set ys = set xs" using assms(3) by (metis set_mset_mset)
  then show "x = y" if "x \<in> set ys" "y \<in> set ys" "cmp x y \<le> 0" "cmp y x \<le> 0" for x y
    using assms(2) that by (auto simp: cmp_strict_def)
qed

lemma sort_perm:
  "cmp_orders cmp (set xs) \<Longrightarrow> cmp_strict cmp (set xs) \<Longrightarrow> mset ys = mset xs \<Longrightarrow>
   sort cmp ys = sort cmp xs"
  using sort_unique [of cmp xs "sort cmp ys"] sort_sorted [of cmp ys]
  by (metis mset_eq_setD sort_mset)

text \<open>Removing elements leaves the order of the others as it was.\<close>

lemma sort_filter:
  assumes "cmp_orders cmp (set xs)" and "cmp_strict cmp (set xs)"
  shows "sort cmp (filter P xs) = filter P (sort cmp xs)"
proof (rule sort_unique [symmetric])
  show "cmp_orders cmp (set (filter P xs))" "cmp_strict cmp (set (filter P xs))"
    using assms by (auto elim: cmp_orders_subset cmp_strict_subset)
  show "mset (filter P (sort cmp xs)) = mset (filter P xs)"
    by (simp add: sort_mset mset_filter)
  show "sorted_wrt (\<lambda>x y. cmp x y \<le> 0) (filter P (sort cmp xs))"
    using sort_sorted [OF assms(1)] by (rule sorted_wrt_filter)
qed

lemma sort_hd_least:
  assumes "cmp_orders cmp (set xs)" and "x \<in> set xs"
  shows "cmp (hd (sort cmp xs)) x \<le> 0"
proof -
  have "sort cmp xs \<noteq> []" using assms(2) sort_set [of cmp xs] by (metis empty_iff list.set(1))
  then obtain y ys where s: "sort cmp xs = y # ys" by (cases "sort cmp xs") auto
  have "x = y \<or> x \<in> set ys" using assms(2) sort_set [of cmp xs] s by auto
  moreover have "y \<in> set xs" using sort_set [of cmp xs] s by auto
  then have "cmp y y \<le> 0" by (rule cmp_orders_refl [OF assms(1)])
  ultimately show ?thesis
    using sort_sorted [OF assms(1)] s by auto
qed

end

lemma mset_insertLeft: "mset (insertLeft cmp x ys) = add_mset x (mset ys)"
  by (induction ys) auto

lemma mset_fold_insertLeft: "mset (fold (insertLeft cmp) xs ys) = mset xs + mset ys"
  by (induction xs arbitrary: ys) (auto simp: mset_insertLeft)

lemma sorted_insertLeft:
  assumes "cmp_orders cmp (insert x (set ys))" and "sorted_wrt (\<lambda>a b. cmp b a \<le> 0) ys"
  shows "sorted_wrt (\<lambda>a b. cmp b a \<le> 0) (insertLeft cmp x ys)"
  using assms
proof (induction ys)
  case Nil
  then show ?case by simp
next
  case (Cons y ys)
  have set_ins: "set (insertLeft cmp x ys) = insert x (set ys)"
    by (metis mset_insertLeft set_mset_add_mset_insert set_mset_mset)
  show ?case
  proof (cases "cmp x y < 0")
    case True
    have "cmp_orders cmp (insert x (set ys))"
      using Cons.prems(1) by (rule cmp_orders_subset) auto
    with Cons True set_ins show ?thesis by auto
  next
    case False
    then have yx: "cmp y x \<le> 0" using Cons.prems(1) by (auto simp: cmp_orders_def)
    have "cmp z x \<le> 0" if "z \<in> set ys" for z
    proof -
      have "cmp z y \<le> 0" using Cons.prems(2) that by simp
      with yx that Cons.prems(1) show ?thesis unfolding cmp_orders_def by (meson insertCI list.set_intros)
    qed
    with False yx Cons.prems(2) show ?thesis by simp
  qed
qed

lemma sorted_fold_insertLeft:
  "cmp_orders cmp (set xs \<union> set ys) \<Longrightarrow> sorted_wrt (\<lambda>a b. cmp b a \<le> 0) ys \<Longrightarrow>
   sorted_wrt (\<lambda>a b. cmp b a \<le> 0) (fold (insertLeft cmp) xs ys)"
proof (induction xs arbitrary: ys)
  case Nil
  then show ?case by simp
next
  case (Cons x xs)
  have set_ins: "set (insertLeft cmp x ys) = insert x (set ys)"
    by (metis mset_insertLeft set_mset_add_mset_insert set_mset_mset)
  have "cmp_orders cmp (insert x (set ys))"
    using Cons.prems(1) by (rule cmp_orders_subset) auto
  then have "sorted_wrt (\<lambda>a b. cmp b a \<le> 0) (insertLeft cmp x ys)"
    using Cons.prems(2) by (rule sorted_insertLeft)
  then show ?case using Cons.prems(1) by (simp add: Cons.IH set_ins)
qed

interpretation go: sort_func SortFunc
proof
  show "mset (SortFunc cmp xs) = mset xs" for cmp :: "'a \<Rightarrow> 'a \<Rightarrow> int" and xs
    by (simp add: SortFunc_def mset_fold_insertLeft)
  show "sorted_wrt (\<lambda>x y. cmp x y \<le> 0) (SortFunc cmp xs)"
    if "cmp_orders cmp (set xs)" for cmp :: "'a \<Rightarrow> 'a \<Rightarrow> int" and xs
    using sorted_fold_insertLeft [of cmp xs "[]"] that by (simp add: SortFunc_def sorted_wrt_rev)
qed

end
