(* ===== verification/Pool.thy ===== *)
theory Pool
  imports Options Instance GoSort
begin

text \<open>
  The coordinator (\<^verbatim>\<open>pool.go\<close>). An \<open>*instance\<close> is its ID, looked up in \<open>pStore\<close>, the heap
  of all instances ever created (IDs are never reused, see \<open>PoolInv\<close>); \<open>pInsts\<close> lists the
  keys of the Go map \<open>instances\<close> in the order of creation. The other maps are Isabelle maps.
  Where the code ranges over \<open>p.instances\<close> the order is the runtime's choice: \<open>iter\<close>, a
  function that permutes the key list, is an argument of the operation.

  A coordinator operation is atomic here. The exceptions are the two checks that wait for
  network probes: they take the store as it is when the last probe has answered.
\<close>

section \<open>State\<close>

definition probeFailLimit :: nat where "probeFailLimit = 3"

datatype dial_func = DialThroughProxy | DialThroughProxyHTTP

type_synonym store = "ID \<rightharpoonup> handle"
type_synonym iteration = "ID list \<Rightarrow> ID list"
type_synonym clock = "nat \<Rightarrow> time"

record pool =
  pOpts :: Options
  pDialThrough :: dial_func
  pInsts :: "ID list"
  pStore :: store
  pConfigs :: "ID \<rightharpoonup> instConfig"
  pUsedKeys :: "string \<rightharpoonup> ID"
  pKeysByInst :: "ID \<rightharpoonup> string"
  pEmptyByInst :: "ID \<rightharpoonup> nat"
  pPortOf :: "ID \<rightharpoonup> nat"
  pPorts :: portAllocator
  pSnap :: "ID list option"
  pEvents :: "event list"
  pWake :: bool
  pReplays :: nat
  pDialTotal :: nat
  pDialFailures :: nat
  pMin :: "32 word"
  pMax :: "32 word"
  pCursor :: "64 word"
  pClosed :: bool
  pCloseOnce :: bool
  pCancelled :: bool
  pNextSeq :: nat

text \<open>Reading a Go map: a missing key gives the zero value.\<close>

definition lookup0 :: "'a \<Rightarrow> ('k \<rightharpoonup> 'a) \<Rightarrow> 'k \<Rightarrow> 'a" where
  "lookup0 z m k = (case m k of None \<Rightarrow> z | Some v \<Rightarrow> v)"

abbreviation keyOf :: "pool \<Rightarrow> keyer" where
  "keyOf p \<equiv> the (oDedupeKeyer (pOpts p))"

abbreviation handleOf :: "pool \<Rightarrow> ID \<Rightarrow> handle" where
  "handleOf p i \<equiv> the (pStore p i)"

abbreviation statusOf :: "pool \<Rightarrow> ID \<Rightarrow> Status" where
  "statusOf p i \<equiv> inStatus (handleOf p i)"

text \<open>\<open>in.send(c)\<close> through the heap.\<close>

definition pool_send :: "ID \<Rightarrow> command \<Rightarrow> pool \<Rightarrow> bool \<times> pool" where
  "pool_send i c p =
     (case send c (handleOf p i) of (ok, h) \<Rightarrow> (ok, p\<lparr>pStore := (pStore p)(i \<mapsto> h)\<rparr>))"

definition post_cmd :: "ID \<Rightarrow> command \<Rightarrow> pool \<Rightarrow> pool" where
  "post_cmd i c p = snd (pool_send i c p)"

section \<open>Deduplication keys\<close>

definition releaseKey :: "ID \<Rightarrow> pool \<Rightarrow> pool" where
  "releaseKey i p =
     (case pKeysByInst p i of
        None \<Rightarrow> p
      | Some key \<Rightarrow>
          (let p1 = p\<lparr>pKeysByInst := (pKeysByInst p)(i := None)\<rparr>
           in if lookup0 '''' (pUsedKeys p1) key = i
              then p1\<lparr>pUsedKeys := (pUsedKeys p1)(key := None)\<rparr> else p1))"

definition clearEmpty :: "ID \<Rightarrow> pool \<Rightarrow> pool" where
  "clearEmpty i p = p\<lparr>pEmptyByInst := (pEmptyByInst p)(i := None)\<rparr>"

definition registerKey :: "ID \<Rightarrow> string \<Rightarrow> pool \<Rightarrow> pool" where
  "registerKey i key p =
     p\<lparr>pUsedKeys := (pUsedKeys p)(key \<mapsto> i), pKeysByInst := (pKeysByInst p)(i \<mapsto> key)\<rparr>"

text \<open>\<open>owner, dup := p.usedKeys[key]; dup && owner != i\<close>\<close>

definition takenByOther :: "pool \<Rightarrow> string \<Rightarrow> ID \<Rightarrow> bool" where
  "takenByOther p key i = (case pUsedKeys p key of None \<Rightarrow> False | Some owner \<Rightarrow> owner \<noteq> i)"

definition handleReady :: "ID \<Rightarrow> Egress \<Rightarrow> pool \<Rightarrow> pool" where
  "handleReady i eg p =
     (let key = keyOf p eg
      in if whitelistedEmptyKey key eg then
           (let p1 = clearEmpty i (releaseKey i p)
            in post_cmd i (cmd cmdConfirm) (p1\<lparr>pKeysByInst := (pKeysByInst p1)(i \<mapsto> '''')\<rparr>))
         else if key = '''' then
           (let n = lookup0 0 (pEmptyByInst p) i + 1
            in if n < probeFailLimit
               then post_cmd i (cmd cmdReprobe) (p\<lparr>pEmptyByInst := (pEmptyByInst p)(i \<mapsto> n)\<rparr>)
               else post_cmd i (cmd cmdReplay) (clearEmpty i p))
         else if takenByOther p key i then post_cmd i (cmd cmdReplay) p
         else post_cmd i (cmd cmdConfirm) (registerKey i key (clearEmpty i (releaseKey i p))))"

section \<open>Instances\<close>

text \<open>\<open>viewLess\<close> compares the numeric values of two IDs; \<open>publish\<close> sorts by it.\<close>

definition viewLess :: "ID \<Rightarrow> ID \<Rightarrow> int" where
  "viewLess a b =
     (case (Atoi a, Atoi b) of
        (Some na, Some nb) \<Rightarrow> cmpCompare na nb
      | _ \<Rightarrow> Compare a b)"

definition publish :: "iteration \<Rightarrow> pool \<Rightarrow> pool" where
  "publish iter p = p\<lparr>pSnap := Some (SortFunc viewLess (iter (pInsts p)))\<rparr>"

definition snapshot :: "pool \<Rightarrow> ID list" where
  "snapshot p = (case pSnap p of Some v \<Rightarrow> v | None \<Rightarrow> [])"

definition removeInstance :: "iteration \<Rightarrow> ID \<Rightarrow> pool \<Rightarrow> pool" where
  "removeInstance iter i p =
     (let p1 = p\<lparr>pInsts := removeAll i (pInsts p)\<rparr>;
          p2 = clearEmpty i (releaseKey i p1);
          p3 = (case pPortOf p2 i of
                  None \<Rightarrow> p2
                | Some off \<Rightarrow> p2\<lparr>pPorts := pa_release (pPorts p2) off,
                                 pPortOf := (pPortOf p2)(i := None)\<rparr>)
      in publish iter p3)"

text \<open>The ID is the creation number, the endpoints start there too.\<close>

definition seqID :: "nat \<Rightarrow> ID" where
  "seqID n = Itoa (int n)"

text \<open>\<open>fmt.Sprintf(stateFileFormat, i)\<close>\<close>

definition stateFile :: "ID \<Rightarrow> string" where
  "stateFile i = ''inst-'' @ i @ ''.json''"

definition createInstance :: "iteration \<Rightarrow> clock \<Rightarrow> pool \<Rightarrow> bool \<times> pool" where
  "createInstance iter now p =
     (case pa_acquire (pPorts p) of
        ((addr, off, False), ports) \<Rightarrow> (False, p\<lparr>pPorts := ports\<rparr>)
      | ((addr, off, True), ports) \<Rightarrow>
          (let sq = pNextSeq p;
               i = seqID sq;
               opts = pOpts p;
               cfg = \<lparr>icID = i, icProxyAddr = addr, icEndpoints = oEndpoints opts,
                      icEndpointIdx = sq, icCredSource = oCredentialSource opts,
                      icBackoffStart = oReplayBackoffStart opts,
                      icBackoffMax = oReplayBackoffMax opts,
                      icDrainTimeout = oDrainTimeout opts\<rparr>;
               p1 = p\<lparr>pPorts := ports, pNextSeq := sq + 1,
                      pStore := (pStore p)(i \<mapsto> newHandle cfg (now sq)),
                      pConfigs := (pConfigs p)(i \<mapsto> cfg),
                      pInsts := (if i \<in> set (pInsts p) then pInsts p else pInsts p @ [i]),
                      pPortOf := (pPortOf p)(i \<mapsto> off)\<rparr>
           in (True, publish iter p1)))"

section \<open>Alignment\<close>

definition countsActive :: "Status \<Rightarrow> bool" where
  "countsActive s \<longleftrightarrow> s = StatusNormal \<or> s = StatusProbing"

definition activeCount :: "pool \<Rightarrow> nat" where
  "activeCount p = length (filter (\<lambda>i. countsActive (statusOf p i)) (pInsts p))"

definition views :: "iteration \<Rightarrow> pool \<Rightarrow> InstanceView list" where
  "views iter p =
     map (\<lambda>i. \<lparr>ivID = inID (handleOf p i), ivStatus = statusOf p i,
               ivCreatedAt = inCreatedAt (handleOf p i)\<rparr>) (iter (pInsts p))"

definition evictOnce :: "iteration \<Rightarrow> pool \<Rightarrow> pool" where
  "evictOnce iter p =
     (case the (oEvictor (pOpts p)) (views iter p) of
        (victim, ok) \<Rightarrow>
          if \<not> ok then p
          else if victim \<in> set (pInsts p) then post_cmd victim (cmd cmdStop) p
          else p)"

text \<open>Ports still to be handed out; a creation takes one, so the loop ends.\<close>

definition pa_room :: "portAllocator \<Rightarrow> nat" where
  "pa_room a = length (paFree a) + nat (maxListenPort + 1 - (paBase a + int (paNext a)))"

lemma pa_scan_room: "pa_scan a = ((s, off, True), a') \<Longrightarrow> pa_room a' < pa_room a"
proof (induction a rule: pa_scan.induct)
  case (1 a)
  show ?case
  proof (cases "paBase a + int (paNext a) \<le> maxListenPort \<and> paNext a \<in> paUsed a")
    case True
    with 1 have "pa_room a' < pa_room (a\<lparr>paNext := paNext a + 1\<rparr>)"
      by (simp add: pa_scan.simps [of a])
    with True show ?thesis by (simp add: pa_room_def)
  next
    case False
    with "1.prems" show ?thesis
      by (auto simp: pa_scan.simps [of a] pa_room_def Let_def split: if_splits)
  qed
qed

lemma pa_acquire_room: "pa_acquire a = ((s, off, True), a') \<Longrightarrow> pa_room a' < pa_room a"
proof (cases "paFree a" rule: rev_cases)
  case Nil
  assume "pa_acquire a = ((s, off, True), a')"
  with Nil show ?thesis by (simp add: pa_acquire_def pa_scan_room)
next
  case (snoc fs l)
  assume "pa_acquire a = ((s, off, True), a')"
  with snoc show ?thesis by (auto simp: pa_acquire_free pa_room_def)
qed

lemma createInstance_room:
  "createInstance iter now p = (True, p') \<Longrightarrow> pa_room (pPorts p') < pa_room (pPorts p)"
  by (auto simp: createInstance_def publish_def Let_def dest: pa_acquire_room
      split: prod.splits bool.splits)

function alignLoop :: "iteration \<Rightarrow> clock \<Rightarrow> int \<Rightarrow> int \<Rightarrow> pool \<Rightarrow> pool" where
  "alignLoop iter now mn mx p =
     (if int (activeCount p) < mn then
        (if mx \<le> int (length (pInsts p)) then evictOnce iter p
         else case createInstance iter now p of
           (False, p') \<Rightarrow> p'
         | (True, p') \<Rightarrow> alignLoop iter now mn mx p')
      else p)"
  by pat_completeness auto
termination
  by (relation "measure (\<lambda>(iter, now, mn, mx, p). pa_room (pPorts p))")
     (auto dest: createInstance_room sym)

declare alignLoop.simps [simp del]

definition align :: "iteration \<Rightarrow> clock \<Rightarrow> pool \<Rightarrow> pool" where
  "align iter now p =
     (let mn = sint (pMin p); mx = sint (pMax p)
      in if mx < int (length (pInsts p)) then evictOnce iter p
         else alignLoop iter now mn mx p)"

section \<open>Events\<close>

definition handleEvent :: "iteration \<Rightarrow> clock \<Rightarrow> event \<Rightarrow> pool \<Rightarrow> pool" where
  "handleEvent iter now ev p =
     (case evK ev of
        evReady \<Rightarrow> handleReady (evInst ev) (evEgress ev) p
      | evLost \<Rightarrow> align iter now (releaseKey (evInst ev) p)
      | evDrained \<Rightarrow> align iter now (releaseKey (evInst ev) p)
      | evReplayed \<Rightarrow> align iter now (releaseKey (evInst ev) p)
      | evDisabled \<Rightarrow> align iter now (releaseKey (evInst ev) p)
      | evStopped \<Rightarrow> align iter now (removeInstance iter (evInst ev) p))"

section \<open>Periodic checks\<close>

text \<open>What a checking goroutine gave: it panicked (\<open>recoverProbe\<close>; no result is sent) or
  its callee returned.\<close>

datatype 'a task = TaskPanic | TaskReturns 'a

definition drainCmd :: "pool \<Rightarrow> command" where
  "drainCmd p = \<lparr>cKind = cmdDrain, cTimeout = oDrainTimeout (pOpts p)\<rparr>"

text \<open>\<open>tcpHealth\<close>: the errors of connecting to the proxy and of closing again.\<close>

datatype health_error = ProxyUnreachable string | ProxyCloseFailed string

definition tcpHealth :: "string option \<Rightarrow> string option \<Rightarrow> health_error option" where
  "tcpHealth dialErr closeErr =
     (case dialErr of
        Some err \<Rightarrow> Some (ProxyUnreachable err)
      | None \<Rightarrow> map_option ProxyCloseFailed closeErr)"

definition normalInsts :: "iteration \<Rightarrow> pool \<Rightarrow> ID list" where
  "normalInsts iter p = filter (\<lambda>i. statusOf p i = StatusNormal) (iter (pInsts p))"

text \<open>\<open>healthCheck\<close>: \<open>arrive\<close> is the order in which the results reach the channel,
  \<open>answer\<close> whether the check of an instance failed, \<open>later\<close> the store when all are in.\<close>

fun healthResult :: "(ID \<Rightarrow> bool task) \<Rightarrow> ID \<Rightarrow> pool \<Rightarrow> pool" where
  "healthResult answer i p =
     (case answer i of
        TaskReturns True \<Rightarrow> post_cmd i (drainCmd p) p
      | _ \<Rightarrow> p)"

definition healthCheck ::
  "iteration \<Rightarrow> iteration \<Rightarrow> (ID \<Rightarrow> bool task) \<Rightarrow> store \<Rightarrow> pool \<Rightarrow> pool" where
  "healthCheck iter arrive answer later p =
     fold (healthResult answer) (arrive (normalInsts iter p)) (p\<lparr>pStore := later\<rparr>)"

text \<open>\<open>applyEgress\<close>: \<open>err\<close> says whether the prober returned an error.\<close>

definition storeEgress :: "ID \<Rightarrow> Egress \<Rightarrow> pool \<Rightarrow> pool" where
  "storeEgress i eg p = p\<lparr>pStore := (pStore p)(i \<mapsto> (handleOf p i)\<lparr>inEgress := Some eg\<rparr>)\<rparr>"

definition newerOf :: "pool \<Rightarrow> ID \<Rightarrow> ID \<Rightarrow> ID" where
  "newerOf p i owner =
     (if owner \<in> set (pInsts p) \<and> inCreatedAt (handleOf p i) < inCreatedAt (handleOf p owner)
      then owner else i)"

text \<open>The decision on the key, after the egress has been written back.\<close>

definition applyKey :: "ID \<Rightarrow> string \<Rightarrow> Egress \<Rightarrow> pool \<Rightarrow> pool" where
  "applyKey i key eg p =
     (if whitelistedEmptyKey key eg then releaseKey i p
      else if key = '''' then post_cmd i (drainCmd p) p
      else if lookup0 '''' (pKeysByInst p) i = key then p
      else if takenByOther p key i
      then post_cmd (newerOf p i (the (pUsedKeys p key))) (drainCmd p) p
      else registerKey i key (releaseKey i p))"

definition applyEgress :: "ID \<Rightarrow> Egress \<Rightarrow> bool \<Rightarrow> pool \<Rightarrow> pool" where
  "applyEgress i eg err p =
     applyKey i (if err then '''' else keyOf p eg) eg
       (if \<not> err \<and> eg \<noteq> zeroEgress then storeEgress i eg p else p)"

fun egressResult :: "(ID \<Rightarrow> (Egress \<times> bool) task) \<Rightarrow> ID \<Rightarrow> pool \<Rightarrow> pool" where
  "egressResult answer i p =
     (case answer i of
        TaskPanic \<Rightarrow> p
      | TaskReturns (eg, err) \<Rightarrow> applyEgress i eg err p)"

definition egressCheck ::
  "iteration \<Rightarrow> iteration \<Rightarrow> (ID \<Rightarrow> (Egress \<times> bool) task) \<Rightarrow> store \<Rightarrow> pool \<Rightarrow> pool" where
  "egressCheck iter arrive answer later p =
     fold (egressResult answer) (arrive (normalInsts iter p)) (p\<lparr>pStore := later\<rparr>)"

text \<open>\<open>reconfirmProbing\<close>: the confirmation is sent again to decided instances that wait.\<close>

definition needsConfirm :: "pool \<Rightarrow> ID \<Rightarrow> bool" where
  "needsConfirm p i \<longleftrightarrow>
     pKeysByInst p i \<noteq> None \<and> statusOf p i = StatusProbing \<and> inAwaitConfirm (handleOf p i)"

fun reconfirmOne :: "ID \<Rightarrow> pool \<Rightarrow> pool" where
  "reconfirmOne i p = (if needsConfirm p i then post_cmd i (cmd cmdConfirm) p else p)"

definition reconfirmProbing :: "iteration \<Rightarrow> pool \<Rightarrow> pool" where
  "reconfirmProbing iter p = fold reconfirmOne (iter (pInsts p)) p"

section \<open>The operations of the facade\<close>

datatype pool_error =
    InstanceNotFound ID
  | ErrInvalidTransition Status Status
  | ErrClosed
  | MinNotPos
  | MinExceedsMax int int
  | MaxBelowMin int int

fun validTransition :: "Status \<Rightarrow> Status \<Rightarrow> bool" where
  "validTransition cur StatusDraining = (cur \<noteq> StatusDisabled)"
| "validTransition cur StatusDisabled = True"
| "validTransition cur StatusNormal = (cur = StatusDisabled)"
| "validTransition cur _ = False"

text \<open>The command for a target; the zero command is what the variable starts with.\<close>

fun transitionCmd :: "pool \<Rightarrow> Status \<Rightarrow> command" where
  "transitionCmd p StatusNormal = cmd cmdEnable"
| "transitionCmd p StatusDraining = drainCmd p"
| "transitionCmd p StatusDisabled = cmd cmdDisable"
| "transitionCmd p _ = cmd cmdConfirm"

definition pool_setStatus :: "ID \<Rightarrow> Status \<Rightarrow> pool \<Rightarrow> pool_error option \<times> pool" where
  "pool_setStatus i target p =
     (if i \<notin> set (snapshot p) then (Some (InstanceNotFound i), p)
      else
        (let cur = statusOf p i
         in if cur = target then (None, p)
            else if \<not> validTransition cur target then (Some (ErrInvalidTransition cur target), p)
            else case pool_send i (transitionCmd p target) p of
              (ok, p') \<Rightarrow> (if ok then None else Some ErrClosed, p')))"

text \<open>\<open>int32(n)\<close> of a 64-bit \<open>n\<close> keeps the low 32 bits.\<close>

definition int32 :: "int \<Rightarrow> 32 word" where
  "int32 n = word_of_int n"

definition wakeup :: "pool \<Rightarrow> pool" where
  "wakeup p = p\<lparr>pWake := True\<rparr>"

definition setMin :: "int \<Rightarrow> pool \<Rightarrow> pool_error option \<times> pool" where
  "setMin n p =
     (if n \<le> 0 then (Some MinNotPos, p)
      else if sint (pMax p) < sint (int32 n) then (Some (MinExceedsMax n (sint (pMax p))), p)
      else (None, wakeup (p\<lparr>pMin := int32 n\<rparr>)))"

definition setMax :: "int \<Rightarrow> pool \<Rightarrow> pool_error option \<times> pool" where
  "setMax n p =
     (if sint (int32 n) < sint (pMin p) then (Some (MaxBelowMin n (sint (pMin p))), p)
      else (None, wakeup (p\<lparr>pMax := int32 n\<rparr>)))"

text \<open>\<open>Close\<close>, up to the point where it starts to wait for the goroutines; the list is
  the instances it waits for, empty on a repeated call.\<close>

definition Close :: "pool \<Rightarrow> ID list \<times> pool" where
  "Close p =
     (if pCloseOnce p then ([], p)
      else (pInsts p, p\<lparr>pCloseOnce := True, pClosed := True, pCancelled := True\<rparr>))"

section \<open>Construction\<close>

datatype new_error = BadConfig options_error | MkdirFailed | BadListen port_error

definition newPool :: "Options \<Rightarrow> bool \<Rightarrow> new_error + pool" where
  "newPool raw dirOk =
     (let opts = withDefaults raw
      in case Validate opts of
           Some err \<Rightarrow> Inl (BadConfig err)
         | None \<Rightarrow>
             if \<not> dirOk then Inl MkdirFailed
             else case newPortAllocator (oListenBase opts) of
               Inl err \<Rightarrow> Inl (BadListen err)
             | Inr ports \<Rightarrow>
                 Inr \<lparr>pOpts = opts,
                      pDialThrough = (if oDialTransport opts = TransportHTTP
                        then DialThroughProxyHTTP else DialThroughProxy),
                      pInsts = [], pStore = Map.empty, pConfigs = Map.empty,
                      pUsedKeys = Map.empty, pKeysByInst = Map.empty, pEmptyByInst = Map.empty,
                      pPortOf = Map.empty, pPorts = ports, pSnap = None, pEvents = [],
                      pWake = False, pReplays = 0, pDialTotal = 0, pDialFailures = 0,
                      pMin = int32 (oMin opts), pMax = int32 (oMax opts), pCursor = 0,
                      pClosed = False, pCloseOnce = False, pCancelled = False, pNextSeq = 0\<rparr>)"

section \<open>The coordinator loop\<close>

text \<open>What the \<open>select\<close> of \<open>reconcile\<close> received.\<close>

datatype tick =
    TickEvent event
  | TickHealth iteration "ID \<Rightarrow> bool task" store
  | TickEgress iteration "ID \<Rightarrow> (Egress \<times> bool) task" store
  | TickWake

definition reconcile_tick :: "iteration \<Rightarrow> clock \<Rightarrow> tick \<Rightarrow> pool \<Rightarrow> pool" where
  "reconcile_tick iter now t p =
     (case t of
        TickEvent ev \<Rightarrow> handleEvent iter now ev p
      | TickHealth arrive answer later \<Rightarrow>
          align iter now (reconfirmProbing iter (healthCheck iter arrive answer later p))
      | TickEgress arrive answer later \<Rightarrow>
          align iter now (egressCheck iter arrive answer later p)
      | TickWake \<Rightarrow> align iter now p)"

text \<open>\<open>reconcile\<close> over the rounds of its \<open>select\<close> so far, each with its clock: it aligns once
  before the first.\<close>

definition reconcile :: "iteration \<Rightarrow> clock \<Rightarrow> (clock \<times> tick) list \<Rightarrow> pool \<Rightarrow> pool" where
  "reconcile iter now rounds p =
     fold (\<lambda>(now', t). reconcile_tick iter now' t) rounds (align iter now p)"

text \<open>The goroutine around \<open>reconcile\<close>: a panic of the loop (in the keyer, the evictor or the
  logger, which the caller supplies) is recovered in the state it left and closes the pool
  for dialling.\<close>

datatype loop_end = LoopReturned | LoopPanicked

definition coordinator_end :: "loop_end \<Rightarrow> pool \<Rightarrow> pool" where
  "coordinator_end e p = (case e of LoopReturned \<Rightarrow> p | LoopPanicked \<Rightarrow> p\<lparr>pClosed := True\<rparr>)"

end
