(* ===== verification/Dial.thy ===== *)
theory Dial
  imports Pool
begin

text \<open>
  Dialling (\<^verbatim>\<open>dial.go\<close>) and the read-only facade (\<^verbatim>\<open>warppool.go\<close>). The network is an
  argument: \<open>ctxErr k\<close> is what \<open>ctx.Err()\<close> says before the \<open>k\<close>-th attempt of the call and
  \<open>through k addr\<close> what the \<open>k\<close>-th dial through the proxy at \<open>addr\<close> gives. The wrapper of a
  connection is identified with the connection it wraps. A snapshot element is the ID of
  its instance; status and egress are read through the heap when they are needed.
\<close>

unbundle bit_operations_syntax

section \<open>The hash\<close>

definition fnvOffset64 :: "64 word" where "fnvOffset64 = 14695981039346656037"
definition fnvPrime64 :: "64 word" where "fnvPrime64 = 1099511628211"
definition mixPrimeA :: "64 word" where "mixPrimeA = 0xff51afd7ed558ccd"
definition mixPrimeB :: "64 word" where "mixPrimeB = 0xc4ceb9fe1a85ec53"
definition mixShift :: nat where "mixShift = 33"

definition fnvByte :: "char \<Rightarrow> 64 word \<Rightarrow> 64 word" where
  "fnvByte c h = (h XOR of_char c) * fnvPrime64"

definition xorShift :: "64 word \<Rightarrow> 64 word" where
  "xorShift h = h XOR drop_bit mixShift h"

definition avalanche :: "64 word \<Rightarrow> 64 word" where
  "avalanche h = xorShift (xorShift (xorShift h * mixPrimeA) * mixPrimeB)"

definition fnv64a :: "string \<Rightarrow> 64 word" where
  "fnv64a s = avalanche (fold fnvByte s fnvOffset64)"

section \<open>Views\<close>

record InstanceInfo =
  iiID :: ID
  iiStatus :: Status
  iiEgress :: Egress

definition infoOf :: "pool \<Rightarrow> ID \<Rightarrow> InstanceInfo" where
  "infoOf p i = \<lparr>iiID = i, iiStatus = statusOf p i, iiEgress = EgressView (handleOf p i)\<rparr>"

definition normalCandidates :: "pool \<Rightarrow> ID list \<Rightarrow> ID list" where
  "normalCandidates p vs = filter (\<lambda>v. statusOf p v = StatusNormal) vs"

definition affinityCmp :: "string \<Rightarrow> ID \<Rightarrow> ID \<Rightarrow> int" where
  "affinityCmp key a b = cmpCompare (fnv64a (key @ b)) (fnv64a (key @ a))"

definition affinityOrder :: "string \<Rightarrow> ID list \<Rightarrow> ID list" where
  "affinityOrder key candidates = SortFunc (affinityCmp key) candidates"

section \<open>Dialling\<close>

datatype dial_error =
    DialPoolClosed
  | DialNoInstance
  | DialCtx string
  | DialThrough string

record instanceConn =
  icConn :: conn
  icInfo :: InstanceInfo
  icInst :: ID

type_synonym ctx_errs = "nat \<Rightarrow> string option"
type_synonym dial_net = "nat \<Rightarrow> string \<Rightarrow> string + conn"

text \<open>The result of a dial is the pair of Go results: \<open>Inl None\<close> would be \<open>nil, nil\<close>.\<close>

type_synonym dial_result = "dial_error option + instanceConn"

definition dialView :: "(string \<Rightarrow> string + conn) \<Rightarrow> ID \<Rightarrow> pool \<Rightarrow> (dial_error + instanceConn) \<times> pool" where
  "dialView through v p =
     (let p1 = p\<lparr>pDialTotal := pDialTotal p + 1\<rparr>
      in case through (inProxyAddr (handleOf p v)) of
           Inl err \<Rightarrow> (Inl (DialThrough err), p1\<lparr>pDialFailures := pDialFailures p1 + 1\<rparr>)
         | Inr c \<Rightarrow>
             (Inr \<lparr>icConn = c, icInfo = infoOf p1 v, icInst = v\<rparr>,
              p1\<lparr>pStore := (pStore p1)(v \<mapsto> trackConn c (handleOf p1 v))\<rparr>))"

text \<open>The loop shared by \<open>dial\<close> and \<open>dialKey\<close>, over the views in the order of the attempts.\<close>

fun dialLoop ::
  "ctx_errs \<Rightarrow> dial_net \<Rightarrow> nat \<Rightarrow> ID list \<Rightarrow> dial_error option \<Rightarrow> pool \<Rightarrow> dial_result \<times> pool" where
  "dialLoop ctxErr through k [] lastErr p = (Inl lastErr, p)"
| "dialLoop ctxErr through k (v # vs) lastErr p =
     (case ctxErr k of
        Some err \<Rightarrow> (Inl (Some (DialCtx err)), p)
      | None \<Rightarrow>
          (case dialView (through k) v p of
             (Inr c, p') \<Rightarrow> (Inr c, p')
           | (Inl err, p') \<Rightarrow> dialLoop ctxErr through (Suc k) vs (Some err) p'))"

definition rotation :: "64 word \<Rightarrow> 'a list \<Rightarrow> 'a list" where
  "rotation start vs =
     (let n = length vs; first = unat (start mod of_nat n)
      in map (\<lambda>i. vs ! ((first + i) mod n)) [0..<n])"

definition dial :: "ctx_errs \<Rightarrow> dial_net \<Rightarrow> 64 word \<Rightarrow> pool \<Rightarrow> dial_result \<times> pool" where
  "dial ctxErr through start p =
     (let candidates = normalCandidates p (snapshot p)
      in if candidates = [] then (Inl (Some DialNoInstance), p)
         else dialLoop ctxErr through 0 (rotation start candidates) None p)"

definition dialKey :: "ctx_errs \<Rightarrow> dial_net \<Rightarrow> string \<Rightarrow> pool \<Rightarrow> dial_result \<times> pool" where
  "dialKey ctxErr through key p =
     (let candidates = normalCandidates p (snapshot p)
      in if candidates = [] then (Inl (Some DialNoInstance), p)
         else dialLoop ctxErr through 0 (affinityOrder key candidates) None p)"

text \<open>\<open>p.cursor.Add(1)-1\<close>\<close>

definition nextStart :: "pool \<Rightarrow> 64 word \<times> pool" where
  "nextStart p = (pCursor p + 1 - 1, p\<lparr>pCursor := pCursor p + 1\<rparr>)"

definition DialContext :: "ctx_errs \<Rightarrow> dial_net \<Rightarrow> pool \<Rightarrow> dial_result \<times> pool" where
  "DialContext ctxErr through p =
     (if pClosed p then (Inl (Some DialPoolClosed), p)
      else case nextStart p of (start, p1) \<Rightarrow> dial ctxErr through start p1)"

definition DialContextWithKey ::
  "ctx_errs \<Rightarrow> dial_net \<Rightarrow> string \<Rightarrow> pool \<Rightarrow> dial_result \<times> pool" where
  "DialContextWithKey ctxErr through key p =
     (if pClosed p then (Inl (Some DialPoolClosed), p)
      else if key = '''' then (case nextStart p of (start, p1) \<Rightarrow> dial ctxErr through start p1)
      else dialKey ctxErr through key p)"

text \<open>\<open>instanceConn.Close\<close>: the registration goes before the connection is closed; the
  result of closing is the network's.\<close>

definition conn_Close :: "(conn \<Rightarrow> 'e option) \<Rightarrow> instanceConn \<Rightarrow> pool \<Rightarrow> 'e option \<times> pool" where
  "conn_Close closeErr c p =
     (closeErr (icConn c),
      p\<lparr>pStore := (pStore p)(icInst c \<mapsto> untrackConn (icConn c) (handleOf p (icInst c)))\<rparr>)"

section \<open>The facade\<close>

definition Instances :: "pool \<Rightarrow> InstanceInfo list" where
  "Instances p = map (infoOf p) (snapshot p)"

record Stats =
  stNormal :: nat
  stProbing :: nat
  stDraining :: nat
  stDisabled :: nat
  stTotal :: nat
  stReplays :: nat
  stDialTotal :: nat
  stDialFails :: nat

fun countStatus :: "Status \<Rightarrow> Stats \<Rightarrow> Stats" where
  "countStatus StatusNormal s = s\<lparr>stNormal := stNormal s + 1\<rparr>"
| "countStatus StatusProbing s = s\<lparr>stProbing := stProbing s + 1\<rparr>"
| "countStatus StatusDraining s = s\<lparr>stDraining := stDraining s + 1\<rparr>"
| "countStatus StatusDisabled s = s\<lparr>stDisabled := stDisabled s + 1\<rparr>"
| "countStatus (StatusOther n) s = s"

definition Pool_Stats :: "pool \<Rightarrow> Stats" where
  "Pool_Stats p =
     fold (\<lambda>v. countStatus (statusOf p v)) (snapshot p)
       \<lparr>stNormal = 0, stProbing = 0, stDraining = 0, stDisabled = 0,
        stTotal = length (snapshot p), stReplays = pReplays p,
        stDialTotal = pDialTotal p, stDialFails = pDialFailures p\<rparr>"

text \<open>The calls that delegate to the coordinator's part; \<open>Pool_New\<close> takes the real client factory,
  health check and transport.\<close>

definition Pool_New :: "Options \<Rightarrow> bool \<Rightarrow> new_error + pool" where
  "Pool_New opts dirOk = newPool opts dirOk"

definition Pool_SetStatus :: "ID \<Rightarrow> Status \<Rightarrow> pool \<Rightarrow> pool_error option \<times> pool" where
  "Pool_SetStatus i s p = pool_setStatus i s p"

definition Pool_SetMin :: "int \<Rightarrow> pool \<Rightarrow> pool_error option \<times> pool" where
  "Pool_SetMin n p = setMin n p"

definition Pool_SetMax :: "int \<Rightarrow> pool \<Rightarrow> pool_error option \<times> pool" where
  "Pool_SetMax n p = setMax n p"

definition Pool_Close :: "pool \<Rightarrow> ID list \<times> pool" where
  "Pool_Close p = Close p"

definition conn_Instance :: "instanceConn \<Rightarrow> InstanceInfo" where
  "conn_Instance c = icInfo c"

section \<open>The hash mixes without loss\<close>

lemma xorShift_xorShift [simp]: "xorShift (xorShift h) = h"
  by (rule bit_word_eqI) (auto simp: xorShift_def mixShift_def bit_xor_iff bit_drop_bit_eq
      dest: bit_imp_le_length)

lemma xorShift_inj: "xorShift g = xorShift h \<longleftrightarrow> g = h"
  by (metis xorShift_xorShift)

lemma mult_cancel_unit:
  fixes a b m n :: "64 word"
  assumes "m * n = 1"
  shows "a * m = b * m \<longleftrightarrow> a = b"
proof
  assume "a * m = b * m"
  then have "a * (m * n) = b * (m * n)" by (simp only: mult.assoc [symmetric])
  with assms show "a = b" by simp
qed simp

lemma avalanche_inj: "avalanche g = avalanche h \<longleftrightarrow> g = h"
proof -
  have "mixPrimeA * 0x4f74430c22a54005 = 1" and "mixPrimeB * 0x9cb4b2f8129337db = 1"
    by (simp_all add: mixPrimeA_def mixPrimeB_def)
  note this [THEN mult_cancel_unit]
  then show ?thesis by (simp add: avalanche_def xorShift_inj)
qed

lemma fnvByte_inj: "fnvByte c g = fnvByte d h \<longleftrightarrow> g XOR of_char c = h XOR of_char d"
proof -
  have "fnvPrime64 * 0xce965057aff6957b = 1" by (simp add: fnvPrime64_def)
  from mult_cancel_unit [OF this] show ?thesis by (simp add: fnvByte_def)
qed

end
