(* ===== verification/PoolInv.thy ===== *)
theory PoolInv
  imports Dial
begin

text \<open>
  The invariant of the coordinator's tables, its preservation by every operation, and the
  reachable states of a pool: coordinator ticks, calls of the facade, and instances that
  change their own cells and put events on the channel, in any interleaving.
\<close>

section \<open>Interference\<close>

text \<open>What instances (and command sends) may do to the heap: identity never changes, a
  stopped instance stays stopped.\<close>

definition handle_ext :: "handle \<Rightarrow> handle \<Rightarrow> bool" where
  "handle_ext h h' \<longleftrightarrow> inID h' = inID h \<and> inCreatedAt h' = inCreatedAt h \<and>
     inProxyAddr h' = inProxyAddr h \<and> (inStopped h \<longrightarrow> inStopped h')"

definition store_ext :: "store \<Rightarrow> store \<Rightarrow> bool" where
  "store_ext s s' \<longleftrightarrow> dom s' = dom s \<and> (\<forall>i \<in> dom s. handle_ext (the (s i)) (the (s' i)))"

lemma handle_ext_refl [simp]: "handle_ext h h"
  by (simp add: handle_ext_def)

lemma handle_ext_trans: "handle_ext h h1 \<Longrightarrow> handle_ext h1 h2 \<Longrightarrow> handle_ext h h2"
  by (simp add: handle_ext_def)

lemma store_ext_refl [simp]: "store_ext s s"
  by (simp add: store_ext_def)

lemma store_ext_trans: "store_ext s s1 \<Longrightarrow> store_ext s1 s2 \<Longrightarrow> store_ext s s2"
  unfolding store_ext_def by (metis handle_ext_trans)

lemma store_ext_upd: "i \<in> dom s \<Longrightarrow> handle_ext (the (s i)) h \<Longrightarrow> store_ext s (s(i \<mapsto> h))"
  by (auto simp: store_ext_def)

lemma send_ext: "handle_ext h (snd (send c h))"
  by (auto simp: send_def chan_send_def handle_ext_def)

section \<open>The invariant\<close>

definition ids_inv :: "pool \<Rightarrow> bool" where
  "ids_inv p \<longleftrightarrow>
     (\<exists>ns. pInsts p = map seqID ns \<and> sorted_wrt (<) ns \<and> (\<forall>n \<in> set ns. n < pNextSeq p)) \<and>
     dom (pStore p) = seqID ` {..<pNextSeq p} \<and>
     (\<forall>i \<in> dom (pStore p). inID (handleOf p i) = i)"

definition ports_inv :: "pool \<Rightarrow> bool" where
  "ports_inv p \<longleftrightarrow>
     slot_table paUsed pa_inv (pPortOf p) (pPorts p) \<and> dom (pPortOf p) = set (pInsts p) \<and>
     (\<forall>i \<in> set (pInsts p). inProxyAddr (handleOf p i) = pa_addr (pPorts p) (the (pPortOf p i)))"

definition keys_inv :: "pool \<Rightarrow> bool" where
  "keys_inv p \<longleftrightarrow>
     (\<forall>k i. pUsedKeys p k = Some i \<longleftrightarrow> pKeysByInst p i = Some k \<and> k \<noteq> '''') \<and>
     dom (pKeysByInst p) \<subseteq> set (pInsts p) \<and> dom (pEmptyByInst p) \<subseteq> set (pInsts p) \<and>
     (\<forall>i n. pEmptyByInst p i = Some n \<longrightarrow> 0 < n \<and> n < probeFailLimit)"

definition snap_inv :: "pool \<Rightarrow> bool" where
  "snap_inv p \<longleftrightarrow> mset (snapshot p) = mset (pInsts p) \<and>
     (int (pNextSeq p) \<le> 2 ^ 63 \<longrightarrow> snapshot p = pInsts p)"

fun stop_last :: "event list \<Rightarrow> bool" where
  "stop_last [] \<longleftrightarrow> True"
| "stop_last (e # es) \<longleftrightarrow>
     (evK e = evStopped \<longrightarrow> evInst e \<notin> evInst ` set es) \<and> stop_last es"

definition events_inv :: "pool \<Rightarrow> bool" where
  "events_inv p \<longleftrightarrow> length (pEvents p) \<le> eventChanCap \<and> stop_last (pEvents p) \<and>
     (\<forall>e \<in> set (pEvents p). evInst e \<in> set (pInsts p) \<and>
        (evK e = evStopped \<longrightarrow> inStopped (handleOf p (evInst e)))) \<and>
     (\<forall>i \<in> dom (pStore p). i \<notin> set (pInsts p) \<longrightarrow> inStopped (handleOf p i))"

definition tables_inv :: "pool \<Rightarrow> bool" where
  "tables_inv p \<longleftrightarrow> ids_inv p \<and> ports_inv p \<and> keys_inv p \<and> snap_inv p"

definition pool_inv :: "pool \<Rightarrow> bool" where
  "pool_inv p \<longleftrightarrow> tables_inv p \<and> events_inv p"

lemmas inv_defs = ids_inv_def ports_inv_def keys_inv_def snap_inv_def

lemma seqID_inj [simp]: "seqID m = seqID n \<longleftrightarrow> m = n"
  by (auto simp: seqID_def dest: Itoa_inj)

lemma seqID_neq_Nil [simp]: "seqID n \<noteq> ''''" "'''' \<noteq> seqID n"
  using Itoa_neq_Nil [of "int n"] by (simp_all add: seqID_def eq_commute [of "[]"])

lemma ids_inv_distinct: "ids_inv p \<Longrightarrow> distinct (pInsts p)"
  by (auto simp: ids_inv_def distinct_map inj_on_def strict_sorted_iff)

lemma ids_inv_dom: "ids_inv p \<Longrightarrow> i \<in> set (pInsts p) \<Longrightarrow> i \<in> dom (pStore p)"
  by (auto simp: ids_inv_def)

lemma ids_inv_fresh: "ids_inv p \<Longrightarrow> seqID (pNextSeq p) \<notin> set (pInsts p) \<and>
    seqID (pNextSeq p) \<notin> dom (pStore p)"
proof -
  assume ids: "ids_inv p"
  then obtain ns where ns: "pInsts p = map seqID ns" "\<forall>n \<in> set ns. n < pNextSeq p"
    unfolding ids_inv_def by blast
  then have "pNextSeq p \<notin> set ns" by blast
  with ns(1) have "seqID (pNextSeq p) \<notin> set (pInsts p)" by auto
  moreover have "seqID (pNextSeq p) \<notin> dom (pStore p)"
    using ids unfolding ids_inv_def by (metis imageE lessThan_iff less_irrefl seqID_inj)
  ultimately show ?thesis by blast
qed

section \<open>Heap updates\<close>

lemma store_ext_D:
  "store_ext s s' \<Longrightarrow> i \<in> dom s \<Longrightarrow> inID (the (s' i)) = inID (the (s i)) \<and>
     inProxyAddr (the (s' i)) = inProxyAddr (the (s i)) \<and>
     inCreatedAt (the (s' i)) = inCreatedAt (the (s i)) \<and>
     (inStopped (the (s i)) \<longrightarrow> inStopped (the (s' i)))"
  by (auto simp: store_ext_def handle_ext_def)

lemma tables_inv_store [invariant_intros]:
  assumes "tables_inv p" and "store_ext (pStore p) s"
  shows "tables_inv (p\<lparr>pStore := s\<rparr>)"
proof -
  have d: "dom s = dom (pStore p)" using assms(2) by (simp add: store_ext_def)
  have ids: "ids_inv p" using assms(1) by (simp add: tables_inv_def)
  have "ids_inv (p\<lparr>pStore := s\<rparr>)"
    using ids d store_ext_D [OF assms(2)] by (simp add: ids_inv_def)
  moreover have "ports_inv (p\<lparr>pStore := s\<rparr>)"
    using assms(1) store_ext_D [OF assms(2) ids_inv_dom [OF ids]]
    by (simp add: tables_inv_def ports_inv_def)
  ultimately show ?thesis
    using assms(1) by (simp add: tables_inv_def keys_inv_def snap_inv_def snapshot_def)
qed

lemma events_inv_store:
  assumes "pool_inv p" and "store_ext (pStore p) s"
  shows "events_inv (p\<lparr>pStore := s\<rparr>)"
proof -
  have d: "dom s = dom (pStore p)" using assms(2) by (simp add: store_ext_def)
  have ids: "ids_inv p" and ev: "events_inv p"
    using assms(1) by (simp_all add: pool_inv_def tables_inv_def)
  have "inStopped (the (s (evInst e)))"
    if "e \<in> set (pEvents p)" "evK e = evStopped" for e
    using ev that store_ext_D [OF assms(2) ids_inv_dom [OF ids]] by (simp add: events_inv_def)
  moreover have "inStopped (the (s i))" if "i \<in> dom s" "i \<notin> set (pInsts p)" for i
    using ev that d store_ext_D [OF assms(2), of i] by (simp add: events_inv_def)
  ultimately show ?thesis using ev by (simp add: events_inv_def)
qed

lemma pool_inv_store [invariant_intros]:
  "pool_inv p \<Longrightarrow> store_ext (pStore p) s \<Longrightarrow> pool_inv (p\<lparr>pStore := s\<rparr>)"
  using tables_inv_store events_inv_store by (simp add: pool_inv_def)

lemma post_cmd_eq:
  "post_cmd i c p = p\<lparr>pStore := (pStore p)(i \<mapsto> snd (send c (handleOf p i)))\<rparr>"
  by (simp add: post_cmd_def pool_send_def split: prod.split)

lemma pool_send_eq:
  "pool_send i c p = (fst (send c (handleOf p i)), post_cmd i c p)"
  by (simp add: post_cmd_def pool_send_def split: prod.split)

lemma post_cmd_frame [simp]:
  "pInsts (post_cmd i c p) = pInsts p" "pUsedKeys (post_cmd i c p) = pUsedKeys p"
  "pKeysByInst (post_cmd i c p) = pKeysByInst p" "pEmptyByInst (post_cmd i c p) = pEmptyByInst p"
  "pEvents (post_cmd i c p) = pEvents p" "dom (pStore (post_cmd i c p)) = insert i (dom (pStore p))"
  "pPorts (post_cmd i c p) = pPorts p" "pPortOf (post_cmd i c p) = pPortOf p"
  "pMin (post_cmd i c p) = pMin p" "pMax (post_cmd i c p) = pMax p"
  "pNextSeq (post_cmd i c p) = pNextSeq p" "pOpts (post_cmd i c p) = pOpts p"
  by (simp_all add: post_cmd_eq)

lemma post_cmd_ext: "i \<in> dom (pStore p) \<Longrightarrow> store_ext (pStore p) (pStore (post_cmd i c p))"
  by (simp add: post_cmd_eq store_ext_upd send_ext)

lemma pool_inv_ids: "pool_inv p \<Longrightarrow> ids_inv p"
  by (simp add: pool_inv_def tables_inv_def)

lemma pool_inv_post_cmd [invariant_intros]:
  "pool_inv p \<Longrightarrow> i \<in> dom (pStore p) \<Longrightarrow> pool_inv (post_cmd i c p)"
  unfolding post_cmd_eq by (rule pool_inv_store) (simp_all add: store_ext_upd send_ext)

section \<open>Key tables\<close>

text \<open>Fields other than the key tables.\<close>

definition same_but_keys :: "pool \<Rightarrow> pool \<Rightarrow> bool" where
  "same_but_keys p p' \<longleftrightarrow>
     (\<exists>u k e. p' = p\<lparr>pUsedKeys := u, pKeysByInst := k, pEmptyByInst := e\<rparr>)"

lemma same_but_keysI:
  "p' = p\<lparr>pUsedKeys := pUsedKeys p', pKeysByInst := pKeysByInst p', pEmptyByInst := pEmptyByInst p'\<rparr> \<Longrightarrow>
   same_but_keys p p'"
  unfolding same_but_keys_def by blast

lemma pool_inv_keys:
  assumes "pool_inv p" and "same_but_keys p p'" and "keys_inv p'"
  shows "pool_inv p'"
proof -
  have "pool_inv (p\<lparr>pUsedKeys := u, pKeysByInst := k, pEmptyByInst := e\<rparr>) \<longleftrightarrow>
      keys_inv (p\<lparr>pUsedKeys := u, pKeysByInst := k, pEmptyByInst := e\<rparr>)" for u k e
    using assms(1)
    by (simp add: pool_inv_def tables_inv_def ids_inv_def ports_inv_def snap_inv_def snapshot_def
        events_inv_def)
  with assms(2,3) show ?thesis by (auto simp: same_but_keys_def)
qed

lemma releaseKey_same: "same_but_keys p (releaseKey i p)"
  by (rule same_but_keysI) (simp add: releaseKey_def Let_def split: option.split)

lemma clearEmpty_same: "same_but_keys p (clearEmpty i p)"
  by (rule same_but_keysI) (simp add: clearEmpty_def)

lemma registerKey_same: "same_but_keys p (registerKey i k p)"
  by (rule same_but_keysI) (simp add: registerKey_def)

lemma same_but_keys_refl: "same_but_keys p p"
  by (rule same_but_keysI) simp

lemma same_but_keys_trans: "same_but_keys p p1 \<Longrightarrow> same_but_keys p1 p2 \<Longrightarrow> same_but_keys p p2"
  by (rule same_but_keysI) (auto simp: same_but_keys_def)

lemma same_but_keysD:
  "same_but_keys p p' \<Longrightarrow> pInsts p' = pInsts p \<and> pStore p' = pStore p \<and> pPorts p' = pPorts p \<and>
     pPortOf p' = pPortOf p \<and> pOpts p' = pOpts p \<and> pMin p' = pMin p \<and> pMax p' = pMax p \<and>
     pNextSeq p' = pNextSeq p \<and> pEvents p' = pEvents p \<and> snapshot p' = snapshot p"
  by (auto simp: same_but_keys_def snapshot_def)

lemma releaseKey_fields [simp]:
  "pInsts (releaseKey i p) = pInsts p" "pStore (releaseKey i p) = pStore p"
  "pEmptyByInst (releaseKey i p) = pEmptyByInst p" "pOpts (releaseKey i p) = pOpts p"
  "pKeysByInst (releaseKey i p) = (pKeysByInst p)(i := None)"
  by (auto simp: releaseKey_def Let_def split: option.split)

text \<open>With consistent tables, releasing removes exactly the key of the instance.\<close>

lemma releaseKey_used:
  assumes "keys_inv p" and "i \<noteq> ''''"
  shows "pUsedKeys (releaseKey i p) k = (if pKeysByInst p i = Some k then None else pUsedKeys p k)"
proof (cases "pKeysByInst p i")
  case None
  then show ?thesis by (simp add: releaseKey_def)
next
  case (Some key)
  have empty: "pUsedKeys p '''' = None"
    using assms(1) unfolding keys_inv_def by (metis not_Some_eq)
  have "key \<noteq> '''' \<Longrightarrow> pUsedKeys p key = Some i"
    using assms(1) Some by (simp add: keys_inv_def)
  with empty assms(2) have "lookup0 '''' (pUsedKeys p) key = i \<longleftrightarrow> key \<noteq> ''''"
    by (cases "key = ''''") (simp_all add: lookup0_def)
  with empty show ?thesis using Some by (auto simp: releaseKey_def Let_def)
qed

lemma keys_inv_used: "keys_inv p \<Longrightarrow> pUsedKeys p k = Some i \<longleftrightarrow> pKeysByInst p i = Some k \<and> k \<noteq> ''''"
  by (simp add: keys_inv_def)

lemma keys_inv_inj:
  "keys_inv p \<Longrightarrow> pKeysByInst p i = Some k \<Longrightarrow> pKeysByInst p j = Some k \<Longrightarrow> k \<noteq> '''' \<Longrightarrow> i = j"
  using keys_inv_used [of p k i] keys_inv_used [of p k j] by simp

lemma keys_inv_releaseKey:
  assumes "keys_inv p" and "i \<noteq> ''''"
  shows "keys_inv (releaseKey i p)"
proof -
  have used: "pUsedKeys (releaseKey i p) k = Some j \<longleftrightarrow>
      pKeysByInst (releaseKey i p) j = Some k \<and> k \<noteq> ''''" for k j
    using keys_inv_inj [OF assms(1), of i k j]
    by (auto simp: releaseKey_used [OF assms] keys_inv_used [OF assms(1)])
  moreover have "dom (pKeysByInst (releaseKey i p)) \<subseteq> set (pInsts p)"
    using assms(1) by (auto simp: keys_inv_def)
  ultimately show ?thesis using assms(1) by (simp add: keys_inv_def)
qed

lemma keys_inv_clearEmpty: "keys_inv p \<Longrightarrow> keys_inv (clearEmpty i p)"
  by (auto simp: keys_inv_def clearEmpty_def)

text \<open>Registering needs a member that holds no key and a free non-empty key.\<close>

lemma keys_inv_registerKey:
  assumes "keys_inv p" and "pKeysByInst p i = None" and "pUsedKeys p k = None"
    and "i \<in> set (pInsts p)" and "k \<noteq> ''''"
  shows "keys_inv (registerKey i k p)"
proof -
  have "pUsedKeys (registerKey i k p) k' = Some j \<longleftrightarrow>
      pKeysByInst (registerKey i k p) j = Some k' \<and> k' \<noteq> ''''" for k' j
    using assms unfolding keys_inv_def registerKey_def by (simp, metis option.distinct(1))
  moreover have "dom (pKeysByInst (registerKey i k p)) \<subseteq> set (pInsts p)"
    using assms(1,4) by (auto simp: keys_inv_def registerKey_def)
  ultimately show ?thesis using assms(1) by (simp add: keys_inv_def registerKey_def)
qed

lemma keys_inv_mark:
  "keys_inv p \<Longrightarrow> pKeysByInst p i = None \<Longrightarrow> i \<in> set (pInsts p) \<Longrightarrow>
   keys_inv (p\<lparr>pKeysByInst := (pKeysByInst p)(i \<mapsto> '''')\<rparr>)"
  unfolding keys_inv_def by (auto split: if_splits)

lemma takenByOther_False:
  "\<not> takenByOther p k i \<Longrightarrow> pUsedKeys p k = None \<or> pUsedKeys p k = Some i"
  by (auto simp: takenByOther_def split: option.splits)

lemma releaseKey_frees:
  assumes "keys_inv p" and "i \<noteq> ''''" and "\<not> takenByOther p k i"
  shows "pUsedKeys (releaseKey i p) k = None"
proof (cases "pUsedKeys p k")
  case None
  then show ?thesis by (simp add: releaseKey_used [OF assms(1,2)])
next
  case (Some j)
  with assms(3) have "j = i" using takenByOther_False by fastforce
  with Some assms(1) have "pKeysByInst p i = Some k" unfolding keys_inv_def by blast
  then show ?thesis by (simp add: releaseKey_used [OF assms(1,2)])
qed

lemma clearEmpty_simp [simp]: "clearEmpty j p = p\<lparr>pEmptyByInst := (pEmptyByInst p)(j := None)\<rparr>"
  by (simp add: clearEmpty_def)

lemma member_neq_Nil: "pool_inv p \<Longrightarrow> i \<in> set (pInsts p) \<Longrightarrow> i \<noteq> ''''"
  by (auto dest!: pool_inv_ids simp: ids_inv_def)

lemma pool_inv_keysD: "pool_inv p \<Longrightarrow> keys_inv p"
  by (simp add: pool_inv_def tables_inv_def)

lemma pool_inv_member: "pool_inv p \<Longrightarrow> i \<in> set (pInsts p) \<Longrightarrow> i \<in> dom (pStore p)"
  by (rule ids_inv_dom) (rule pool_inv_ids)

lemma pool_inv_releaseKey [invariant_intros]:
  "pool_inv p \<Longrightarrow> i \<in> set (pInsts p) \<Longrightarrow> pool_inv (releaseKey i p)"
  using pool_inv_keys [OF _ releaseKey_same] keys_inv_releaseKey pool_inv_keysD member_neq_Nil
  by blast

text \<open>Registering after a release, for a member and a key no other instance owns.\<close>

lemma pool_inv_register:
  assumes inv: "pool_inv p" and i: "i \<in> set (pInsts p)" and k: "k \<noteq> ''''" "\<not> takenByOther p k i"
  shows "pool_inv (registerKey i k (releaseKey i p))"
    and "pool_inv (registerKey i k (clearEmpty i (releaseKey i p)))"
proof -
  note kinv = pool_inv_keysD [OF inv] and ne = member_neq_Nil [OF inv i]
  have rel: "keys_inv (releaseKey i p)" by (rule keys_inv_releaseKey [OF kinv ne])
  note free = releaseKey_frees [OF kinv ne k(2)]
  have "keys_inv (registerKey i k (releaseKey i p))"
    using rel free i k(1) by (intro keys_inv_registerKey) simp_all
  then show "pool_inv (registerKey i k (releaseKey i p))"
    using pool_inv_keys [OF inv] same_but_keys_trans releaseKey_same registerKey_same by blast
  have "keys_inv (registerKey i k (clearEmpty i (releaseKey i p)))"
    using keys_inv_clearEmpty [OF rel] free i k(1)
    by (intro keys_inv_registerKey) simp_all
  then show "pool_inv (registerKey i k (clearEmpty i (releaseKey i p)))"
    using pool_inv_keys [OF inv] same_but_keys_trans releaseKey_same registerKey_same
      clearEmpty_same by blast
qed

lemma pool_inv_mark:
  assumes inv: "pool_inv p" and i: "i \<in> set (pInsts p)"
  shows "pool_inv ((clearEmpty i (releaseKey i p))\<lparr>pKeysByInst :=
    (pKeysByInst (clearEmpty i (releaseKey i p)))(i \<mapsto> '''')\<rparr>)" (is "pool_inv ?q")
proof (rule pool_inv_keys [OF inv])
  have "keys_inv (clearEmpty i (releaseKey i p))"
    using keys_inv_releaseKey [OF pool_inv_keysD [OF inv] member_neq_Nil [OF inv i]]
    by (rule keys_inv_clearEmpty)
  then show "keys_inv ?q" using i by (intro keys_inv_mark) simp_all
  have "same_but_keys (clearEmpty i (releaseKey i p)) ?q" by (rule same_but_keysI) simp
  then show "same_but_keys p ?q"
    using same_but_keys_trans releaseKey_same clearEmpty_same by blast
qed

lemma pool_inv_count:
  assumes inv: "pool_inv p" and i: "i \<in> set (pInsts p)"
  shows "pool_inv (clearEmpty i p)"
    and "0 < n \<Longrightarrow> n < probeFailLimit \<Longrightarrow> pool_inv (p\<lparr>pEmptyByInst := (pEmptyByInst p)(i \<mapsto> n)\<rparr>)"
proof -
  show "pool_inv (clearEmpty i p)"
    using pool_inv_keys [OF inv clearEmpty_same] keys_inv_clearEmpty pool_inv_keysD [OF inv] by blast
  show "pool_inv (p\<lparr>pEmptyByInst := (pEmptyByInst p)(i \<mapsto> n)\<rparr>)" if "0 < n" "n < probeFailLimit"
  proof (rule pool_inv_keys [OF inv])
    show "same_but_keys p (p\<lparr>pEmptyByInst := (pEmptyByInst p)(i \<mapsto> n)\<rparr>)"
      by (rule same_but_keysI) simp
    show "keys_inv (p\<lparr>pEmptyByInst := (pEmptyByInst p)(i \<mapsto> n)\<rparr>)"
      using pool_inv_keysD [OF inv] i that by (auto simp: keys_inv_def)
  qed
qed

section \<open>Membership changes\<close>

definition perm_iter :: "iteration \<Rightarrow> bool" where
  "perm_iter iter \<longleftrightarrow> (\<forall>xs. mset (iter xs) = mset xs)"

lemma perm_iter_set: "perm_iter iter \<Longrightarrow> set (iter xs) = set xs"
  unfolding perm_iter_def by (metis set_mset_mset)

text \<open>IDs up to the 63-bit range compare by their numbers.\<close>

lemma viewLess_seqID:
  "int m < 2 ^ 63 \<Longrightarrow> int n < 2 ^ 63 \<Longrightarrow> viewLess (seqID m) (seqID n) = cmpCompare (int m) (int n)"
  by (simp add: viewLess_def seqID_def)

lemma viewLess_strict:
  assumes "A \<subseteq> seqID ` {n. int n < 2 ^ 63}"
  shows "cmp_orders viewLess A" and "cmp_strict viewLess A"
proof -
  have cmp: "\<exists>m n. x = seqID m \<and> y = seqID n \<and> viewLess x y = cmpCompare (int m) (int n) \<and>
      viewLess y x = cmpCompare (int n) (int m)"
    if "x \<in> A" "y \<in> A" for x y
    using assms that viewLess_seqID by blast
  have le: "viewLess x y \<le> 0 \<longleftrightarrow> (\<exists>m n. x = seqID m \<and> y = seqID n \<and> m \<le> n)"
    if "x \<in> A" "y \<in> A" for x y
    using cmp [OF that] by auto
  have lt: "viewLess x y < 0 \<longleftrightarrow> \<not> viewLess y x \<le> 0" if "x \<in> A" "y \<in> A" for x y
    using cmp [OF that] by (auto simp: cmpCompare_def split: if_splits)
  show "cmp_orders viewLess A"
    unfolding cmp_orders_def using le lt by (auto 0 4 intro: order_trans)
  show "cmp_strict viewLess A"
    unfolding cmp_strict_def using le by fastforce
qed

text \<open>Whatever order the runtime iterates in, the sorted snapshot is the creation order.\<close>

lemma sort_views:
  assumes "perm_iter iter" and "vs = map seqID ns" and "sorted_wrt (<) ns"
    and "\<forall>n \<in> set ns. int n < 2 ^ 63"
  shows "SortFunc viewLess (iter vs) = vs"
proof -
  have sub: "set (iter vs) \<subseteq> seqID ` {n. int n < 2 ^ 63}"
    using assms by (auto simp: perm_iter_set)
  have "sorted_wrt (\<lambda>x y. viewLess x y \<le> 0) vs"
    unfolding assms(2) sorted_wrt_map
    using assms(3,4) by (elim sorted_wrt_mono_rel [rotated]) (auto simp: viewLess_seqID)
  then have "vs = SortFunc viewLess (iter vs)"
    using assms(1) by (intro go.sort_unique viewLess_strict sub) (auto simp: perm_iter_def)
  then show ?thesis by simp
qed

lemma publish_fields [simp]:
  "pInsts (publish iter p) = pInsts p" "pStore (publish iter p) = pStore p"
  "pUsedKeys (publish iter p) = pUsedKeys p" "pKeysByInst (publish iter p) = pKeysByInst p"
  "pEmptyByInst (publish iter p) = pEmptyByInst p" "pPorts (publish iter p) = pPorts p"
  "pPortOf (publish iter p) = pPortOf p" "pNextSeq (publish iter p) = pNextSeq p"
  "pEvents (publish iter p) = pEvents p" "pMin (publish iter p) = pMin p"
  "pMax (publish iter p) = pMax p" "pOpts (publish iter p) = pOpts p"
  "snapshot (publish iter p) = SortFunc viewLess (iter (pInsts p))"
  by (simp_all add: publish_def snapshot_def)

lemma publish_inv:
  assumes "perm_iter iter" and "ids_inv p"
  shows "snap_inv (publish iter p)"
proof -
  obtain ns where ns: "pInsts p = map seqID ns" "sorted_wrt (<) ns" "\<forall>n \<in> set ns. n < pNextSeq p"
    using assms(2) by (auto simp: ids_inv_def)
  have "mset (SortFunc viewLess (iter (pInsts p))) = mset (pInsts p)"
    using assms(1) by (simp add: go.sort_mset perm_iter_def)
  moreover have "SortFunc viewLess (iter (pInsts p)) = pInsts p" if "int (pNextSeq p) \<le> 2 ^ 63"
    using that ns by (intro sort_views [OF assms(1)]) auto
  ultimately show ?thesis by (simp add: snap_inv_def)
qed

lemma ids_ports_keys_publish [simp]:
  "ids_inv (publish iter p) = ids_inv p" "ports_inv (publish iter p) = ports_inv p"
  "keys_inv (publish iter p) = keys_inv p" "events_inv (publish iter p) = events_inv p"
  by (simp_all add: ids_inv_def ports_inv_def keys_inv_def events_inv_def)

subsection \<open>Removal\<close>

text \<open>The part of \<open>removeInstance\<close> before the snapshot is published, in two steps.\<close>

definition dropMember :: "ID \<Rightarrow> pool \<Rightarrow> pool" where
  "dropMember i p = clearEmpty i (releaseKey i (p\<lparr>pInsts := removeAll i (pInsts p)\<rparr>))"

definition dropPort :: "ID \<Rightarrow> pool \<Rightarrow> pool" where
  "dropPort i p =
     (case pPortOf p i of
        None \<Rightarrow> p
      | Some off \<Rightarrow> p\<lparr>pPorts := pa_release (pPorts p) off, pPortOf := (pPortOf p)(i := None)\<rparr>)"

lemma removeInstance_steps: "removeInstance iter i p = publish iter (dropPort i (dropMember i p))"
  by (simp add: removeInstance_def dropMember_def dropPort_def Let_def split: option.split)

lemma releaseKey_insts [simp]:
  "releaseKey i (p\<lparr>pInsts := xs\<rparr>) = (releaseKey i p)\<lparr>pInsts := xs\<rparr>"
  by (simp add: releaseKey_def Let_def split: option.split)

lemma dropMember_fields [simp]:
  "pInsts (dropMember i p) = removeAll i (pInsts p)" "pStore (dropMember i p) = pStore p"
  "pKeysByInst (dropMember i p) = (pKeysByInst p)(i := None)"
  "pEmptyByInst (dropMember i p) = (pEmptyByInst p)(i := None)"
  "pUsedKeys (dropMember i p) = pUsedKeys (releaseKey i p)"
  "pPortOf (dropMember i p) = pPortOf p" "pPorts (dropMember i p) = pPorts p"
  "pNextSeq (dropMember i p) = pNextSeq p" "pEvents (dropMember i p) = pEvents p"
  using same_but_keysD [OF releaseKey_same [of p i]] by (simp_all add: dropMember_def)

lemma dropPort_fields [simp]:
  "pInsts (dropPort i p) = pInsts p" "pStore (dropPort i p) = pStore p"
  "pKeysByInst (dropPort i p) = pKeysByInst p" "pEmptyByInst (dropPort i p) = pEmptyByInst p"
  "pUsedKeys (dropPort i p) = pUsedKeys p" "pNextSeq (dropPort i p) = pNextSeq p"
  "pEvents (dropPort i p) = pEvents p"
  by (simp_all add: dropPort_def split: option.split)

lemma pa_addr_release [simp]: "pa_addr (pa_release a off) o' = pa_addr a o'"
  by (simp add: pa_release_def)

lemma removeAll_map_seqID:
  "removeAll i (map seqID ns) = map seqID (filter (\<lambda>n. seqID n \<noteq> i) ns)"
  by (induction ns) auto

lemma ids_inv_remove:
  assumes "ids_inv p"
  shows "ids_inv (p\<lparr>pInsts := removeAll i (pInsts p)\<rparr>)"
proof -
  obtain ns where ns: "pInsts p = map seqID ns" "sorted_wrt (<) ns" "\<forall>n \<in> set ns. n < pNextSeq p"
    using assms by (auto simp: ids_inv_def)
  let ?ms = "filter (\<lambda>n. seqID n \<noteq> i) ns"
  have "removeAll i (pInsts p) = map seqID ?ms" by (simp add: ns(1) removeAll_map_seqID)
  moreover have "sorted_wrt (<) ?ms" by (rule sorted_wrt_filter [OF ns(2)])
  moreover have "\<forall>n \<in> set ?ms. n < pNextSeq p" using ns(3) by simp
  ultimately have "\<exists>ns. removeAll i (pInsts p) = map seqID ns \<and> sorted_wrt (<) ns \<and>
      (\<forall>n \<in> set ns. n < pNextSeq p)" by blast
  with assms show ?thesis by (simp add: ids_inv_def)
qed

lemma keys_inv_dropMember:
  assumes "keys_inv p" and "i \<noteq> ''''"
  shows "keys_inv (dropMember i p)"
proof -
  have "pUsedKeys (releaseKey i p) k = Some j \<longleftrightarrow> ((pKeysByInst p)(i := None)) j = Some k \<and> k \<noteq> ''''"
    for k j using keys_inv_used [OF keys_inv_releaseKey [OF assms]] by simp
  moreover have "dom ((pKeysByInst p)(i := None)) \<subseteq> set (removeAll i (pInsts p))"
    and "dom ((pEmptyByInst p)(i := None)) \<subseteq> set (removeAll i (pInsts p))"
    using assms(1) by (auto simp: keys_inv_def)
  ultimately show ?thesis using assms(1) by (simp add: keys_inv_def)
qed

lemma ports_inv_drop:
  assumes "ports_inv p" and "i \<in> set (pInsts p)"
  shows "ports_inv (dropPort i (dropMember i p))"
proof -
  have tab: "slot_table paUsed pa_inv (pPortOf p) (pPorts p)" and d: "dom (pPortOf p) = set (pInsts p)"
    and addr: "\<forall>j \<in> set (pInsts p). inProxyAddr (handleOf p j) = pa_addr (pPorts p) (the (pPortOf p j))"
    using assms(1) by (simp_all add: ports_inv_def)
  obtain off where off: "pPortOf p i = Some off" using d assms(2) by blast
  let ?q = "dropPort i (dropMember i p)"
  have q: "pPorts ?q = pa_release (pPorts p) off" "pPortOf ?q = (pPortOf p)(i := None)"
    "pInsts ?q = removeAll i (pInsts p)" "pStore ?q = pStore p"
    using off by (simp_all add: dropPort_def)
  have "slot_table paUsed pa_inv (pPortOf ?q) (pPorts ?q)"
    unfolding q by (rule ports.table_release [OF tab off])
  moreover have "dom (pPortOf ?q) = set (pInsts ?q)" unfolding q using d by auto
  moreover have "\<forall>j \<in> set (pInsts ?q). inProxyAddr (handleOf ?q j) = pa_addr (pPorts ?q) (the (pPortOf ?q j))"
    unfolding q using addr by simp
  ultimately show ?thesis by (simp add: ports_inv_def)
qed

lemma dropPort_inv [simp]:
  "ids_inv (dropPort i p) = ids_inv p" "keys_inv (dropPort i p) = keys_inv p"
  by (simp_all add: ids_inv_def keys_inv_def)

lemma ids_inv_dropMember: "ids_inv p \<Longrightarrow> ids_inv (dropMember i p)"
  using ids_inv_remove [of p i] by (simp add: ids_inv_def)

lemma tables_inv_removeInstance:
  assumes inv: "tables_inv p" and iter: "perm_iter iter" and i: "i \<in> set (pInsts p)" "i \<noteq> ''''"
  shows "tables_inv (removeInstance iter i p)"
proof -
  have parts: "ids_inv p" "ports_inv p" "keys_inv p" using inv by (simp_all add: tables_inv_def)
  let ?q = "dropPort i (dropMember i p)"
  have ids: "ids_inv ?q" using ids_inv_dropMember [OF parts(1)] by simp
  moreover have "keys_inv ?q" using keys_inv_dropMember [OF parts(3) i(2)] by simp
  moreover have "ports_inv ?q" by (rule ports_inv_drop [OF parts(2) i(1)])
  moreover have "snap_inv (publish iter ?q)" by (rule publish_inv [OF iter ids])
  ultimately show ?thesis unfolding tables_inv_def removeInstance_steps by simp
qed

lemma removeInstance_fields [simp]:
  "pInsts (removeInstance iter i p) = removeAll i (pInsts p)"
  "pStore (removeInstance iter i p) = pStore p"
  "pNextSeq (removeInstance iter i p) = pNextSeq p"
  "pEvents (removeInstance iter i p) = pEvents p"
  by (simp_all add: removeInstance_steps)

subsection \<open>Creation\<close>

definition instance_config :: "pool \<Rightarrow> string \<Rightarrow> instConfig" where
  "instance_config p addr =
     \<lparr>icID = seqID (pNextSeq p), icProxyAddr = addr, icEndpoints = oEndpoints (pOpts p),
      icEndpointIdx = pNextSeq p, icCredSource = oCredentialSource (pOpts p),
      icBackoffStart = oReplayBackoffStart (pOpts p), icBackoffMax = oReplayBackoffMax (pOpts p),
      icDrainTimeout = oDrainTimeout (pOpts p)\<rparr>"

definition added :: "clock \<Rightarrow> string \<Rightarrow> nat \<Rightarrow> portAllocator \<Rightarrow> pool \<Rightarrow> pool" where
  "added now addr off ports p =
     p\<lparr>pPorts := ports, pNextSeq := pNextSeq p + 1,
       pStore := (pStore p)(seqID (pNextSeq p) \<mapsto>
         newHandle (instance_config p addr) (now (pNextSeq p))),
       pConfigs := (pConfigs p)(seqID (pNextSeq p) \<mapsto> instance_config p addr),
       pInsts := pInsts p @ [seqID (pNextSeq p)],
       pPortOf := (pPortOf p)(seqID (pNextSeq p) \<mapsto> off)\<rparr>"

lemma createInstance_eq:
  assumes "ids_inv p"
  shows "createInstance iter now p =
    (case pa_acquire (pPorts p) of
       ((addr, off, ok), ports) \<Rightarrow>
         if ok then (True, publish iter (added now addr off ports p))
         else (False, p\<lparr>pPorts := ports\<rparr>))"
  using ids_inv_fresh [OF assms]
  by (auto simp: createInstance_def added_def instance_config_def Let_def split: prod.split bool.split)

lemma newHandle_fields [simp]:
  "inID (newHandle cfg t) = icID cfg" "inProxyAddr (newHandle cfg t) = icProxyAddr cfg"
  "inCreatedAt (newHandle cfg t) = t" "inStatus (newHandle cfg t) = StatusProbing"
  "inStopped (newHandle cfg t) = False"
  by (simp_all add: newHandle_def)

lemma instance_config_fields [simp]:
  "icID (instance_config p addr) = seqID (pNextSeq p)" "icProxyAddr (instance_config p addr) = addr"
  by (simp_all add: instance_config_def)

lemma added_fields [simp]:
  "pInsts (added now addr off ports p) = pInsts p @ [seqID (pNextSeq p)]"
  "pNextSeq (added now addr off ports p) = pNextSeq p + 1"
  "pStore (added now addr off ports p) = (pStore p)(seqID (pNextSeq p) \<mapsto>
     newHandle (instance_config p addr) (now (pNextSeq p)))"
  "pUsedKeys (added now addr off ports p) = pUsedKeys p"
  "pKeysByInst (added now addr off ports p) = pKeysByInst p"
  "pEmptyByInst (added now addr off ports p) = pEmptyByInst p"
  "pPorts (added now addr off ports p) = ports" "pEvents (added now addr off ports p) = pEvents p"
  "pPortOf (added now addr off ports p) = (pPortOf p)(seqID (pNextSeq p) \<mapsto> off)"
  by (simp_all add: added_def)

lemma ids_inv_added:
  assumes "ids_inv p"
  shows "ids_inv (added now addr off ports p)"
proof -
  obtain ns where ns: "pInsts p = map seqID ns" "sorted_wrt (<) ns" "\<forall>n \<in> set ns. n < pNextSeq p"
    using assms by (auto simp: ids_inv_def)
  let ?ms = "ns @ [pNextSeq p]"
  have "pInsts p @ [seqID (pNextSeq p)] = map seqID ?ms" by (simp add: ns(1))
  moreover have "sorted_wrt (<) ?ms" using ns(2,3) by (simp add: sorted_wrt_append)
  moreover have "\<forall>n \<in> set ?ms. n < pNextSeq p + 1" using ns(3) by auto
  ultimately have "\<exists>ms. pInsts p @ [seqID (pNextSeq p)] = map seqID ms \<and> sorted_wrt (<) ms \<and>
      (\<forall>n \<in> set ms. n < pNextSeq p + 1)" by blast
  with assms show ?thesis by (auto simp: ids_inv_def lessThan_Suc)
qed

lemma ports_inv_added:
  assumes ids: "ids_inv p" and inv: "ports_inv p"
    and acq: "pa_acquire (pPorts p) = ((addr, off, True), ports)"
  shows "ports_inv (added now addr off ports p)"
proof -
  have tab: "slot_table paUsed pa_inv (pPortOf p) (pPorts p)" and d: "dom (pPortOf p) = set (pInsts p)"
    using inv by (simp_all add: ports_inv_def)
  have fresh: "seqID (pNextSeq p) \<notin> set (pInsts p)" using ids_inv_fresh [OF ids] by blast
  with d have none: "pPortOf p (seqID (pNextSeq p)) = None" by blast
  from tab have "pa_inv (pPorts p)" by (simp add: slot_table_def)
  from pa_acquire_True [OF this acq] have addr: "addr = pa_addr (pPorts p) off"
    and same: "pa_addr ports o' = pa_addr (pPorts p) o'" for o'
    by (simp_all add: pa_addr_def)
  have "slot_table paUsed pa_inv ((pPortOf p)(seqID (pNextSeq p) \<mapsto> off)) ports"
    by (rule ports.table_acquire [OF tab acq none])
  then show ?thesis
    using inv d fresh addr same by (auto simp: ports_inv_def)
qed

lemma pool_inv_createInstance:
  assumes inv: "pool_inv p" and iter: "perm_iter iter" and new: "createInstance iter now p = (ok, p')"
  shows "pool_inv p'"
proof -
  note ids = pool_inv_ids [OF inv]
  have pinv: "ports_inv p" and kinv: "keys_inv p" and einv: "events_inv p"
    using inv by (simp_all add: pool_inv_def tables_inv_def)
  obtain addr off k ports where acq: "pa_acquire (pPorts p) = ((addr, off, k), ports)"
    by (metis prod_cases3 surj_pair)
  show ?thesis
  proof (cases k)
    case False
    have "pa_inv (pPorts p)" using pinv by (simp add: ports_inv_def slot_table_def)
    moreover have "pa_acquire (pPorts p) = ((addr, off, False), ports)" using acq False by simp
    ultimately have "ports = pPorts p" by (rule ports.acquire_none)
    with new acq False inv show ?thesis by (simp add: createInstance_eq [OF ids])
  next
    case True
    have fresh: "seqID (pNextSeq p) \<notin> set (pInsts p)" using ids_inv_fresh [OF ids] by blast
    have "keys_inv (added now addr off ports p)" using kinv by (auto simp: keys_inv_def)
    moreover have "ports_inv (added now addr off ports p)"
      using acq True by (intro ports_inv_added ids pinv) simp
    moreover have "events_inv (added now addr off ports p)"
      using einv fresh by (auto simp: events_inv_def)
    ultimately show ?thesis
      using new acq True ids_inv_added [OF ids] publish_inv [OF iter ids_inv_added [OF ids]]
      by (auto simp: createInstance_eq [OF ids] pool_inv_def tables_inv_def)
  qed
qed

section \<open>Alignment\<close>

lemma views_IDs:
  "ids_inv p \<Longrightarrow> perm_iter iter \<Longrightarrow> ivID ` set (views iter p) = set (pInsts p)"
  using ids_inv_dom [of p] by (force simp: views_def image_image perm_iter_set ids_inv_def)

lemma evictOnce_cases:
  obtains "evictOnce iter p = p"
  | v where "v \<in> set (pInsts p)" "the (oEvictor (pOpts p)) (views iter p) = (v, True)"
      "evictOnce iter p = post_cmd v (cmd cmdStop) p"
proof (cases "the (oEvictor (pOpts p)) (views iter p)")
  case (Pair v ok)
  show ?thesis
  proof (cases "ok \<and> v \<in> set (pInsts p)")
    case True
    with Pair have "evictOnce iter p = post_cmd v (cmd cmdStop) p" by (simp add: evictOnce_def)
    with True Pair show ?thesis by (intro that(2) [of v]) simp_all
  next
    case False
    with Pair have "evictOnce iter p = p" by (auto simp: evictOnce_def)
    then show ?thesis by (rule that(1))
  qed
qed

lemma pool_inv_post_member [invariant_intros]:
  "pool_inv p \<Longrightarrow> i \<in> set (pInsts p) \<Longrightarrow> pool_inv (post_cmd i c p)"
  by (simp add: pool_inv_post_cmd pool_inv_member)

lemma pool_inv_evictOnce: "pool_inv p \<Longrightarrow> pool_inv (evictOnce iter p)"
  using pool_inv_post_cmd pool_inv_member by (cases iter p rule: evictOnce_cases) auto

lemma evictOnce_fields [simp]:
  "pInsts (evictOnce iter p) = pInsts p" "pMin (evictOnce iter p) = pMin p"
  "pMax (evictOnce iter p) = pMax p" "pEvents (evictOnce iter p) = pEvents p"
  "pNextSeq (evictOnce iter p) = pNextSeq p"
  by (cases iter p rule: evictOnce_cases; simp)+

lemma alignLoop_cases:
  obtains "mn \<le> int (activeCount p)" "alignLoop iter now mn mx p = p"
  | "int (activeCount p) < mn" "mx \<le> int (length (pInsts p))"
      "alignLoop iter now mn mx p = evictOnce iter p"
  | p' where "int (activeCount p) < mn" "int (length (pInsts p)) < mx"
      "createInstance iter now p = (False, p')" "alignLoop iter now mn mx p = p'"
  | p' where "int (activeCount p) < mn" "int (length (pInsts p)) < mx"
      "createInstance iter now p = (True, p')"
      "alignLoop iter now mn mx p = alignLoop iter now mn mx p'"
proof -
  obtain ok p' where new: "createInstance iter now p = (ok, p')" by fastforce
  note eq = alignLoop.simps [of iter now mn mx p]
  show ?thesis
  proof (cases "int (activeCount p) < mn")
    case False
    then show ?thesis using that(1) eq by simp
  next
    case active: True
    show ?thesis
    proof (cases "mx \<le> int (length (pInsts p))")
      case True
      then show ?thesis using that(2) eq active by simp
    next
      case False
      then have room: "int (length (pInsts p)) < mx" by simp
      show ?thesis
      proof (cases ok)
        case True
        then show ?thesis using that(4) [OF active room, of p'] eq active room new by simp
      next
        case False
        then show ?thesis using that(3) [OF active room, of p'] eq active room new by simp
      qed
    qed
  qed
qed

lemma pool_inv_alignLoop:
  assumes "perm_iter iter"
  shows "pool_inv p \<Longrightarrow> pool_inv (alignLoop iter now mn mx p)"
proof (induction "pa_room (pPorts p)" arbitrary: p rule: less_induct)
  case less
  show ?case
  proof (cases rule: alignLoop_cases [of mn p iter now mx])
    case (3 p')
    then show ?thesis using pool_inv_createInstance [OF less.prems assms 3(3)] by simp
  next
    case (4 p')
    have "pool_inv (alignLoop iter now mn mx p')"
      using pool_inv_createInstance [OF less.prems assms 4(3)] createInstance_room [OF 4(3)]
      by (intro less.hyps)
    with 4(4) show ?thesis by simp
  qed (simp_all add: less.prems pool_inv_evictOnce)
qed

lemma pool_inv_align [invariant_intros]:
  "perm_iter iter \<Longrightarrow> pool_inv p \<Longrightarrow> pool_inv (align iter now p)"
  by (simp add: align_def Let_def pool_inv_evictOnce pool_inv_alignLoop)

section \<open>Events\<close>

lemma pool_inv_handleReady [invariant_intros]:
  assumes inv: "pool_inv p" and i: "i \<in> set (pInsts p)"
  shows "pool_inv (handleReady i eg p)"
proof -
  have post: "pool_inv (post_cmd i c q)" if "pool_inv q" "pInsts q = pInsts p" for c q
    using that i pool_inv_post_cmd pool_inv_member by simp
  have reg: "pool_inv (registerKey i k (clearEmpty i (releaseKey i p)))"
    if "k \<noteq> ''''" "\<not> takenByOther p k i" for k
    using pool_inv_register(2) [OF inv i that] .
  show ?thesis
    using inv reg pool_inv_mark [OF inv i] pool_inv_count [OF inv i]
    by (auto simp: handleReady_def Let_def registerKey_def intro!: post)
qed

lemma pool_inv_pop:
  assumes "pool_inv p" and "pEvents p = ev # es"
  shows "pool_inv (p\<lparr>pEvents := es\<rparr>)" and "evInst ev \<in> set (pInsts p)"
    and "evK ev = evStopped \<Longrightarrow> evInst ev \<notin> evInst ` set es \<and> inStopped (handleOf p (evInst ev))"
  using assms
  by (auto simp: pool_inv_def tables_inv_def events_inv_def ids_inv_def ports_inv_def keys_inv_def
      snap_inv_def snapshot_def)

lemma pool_inv_removeInstance:
  assumes inv: "pool_inv p" and iter: "perm_iter iter" and i: "i \<in> set (pInsts p)"
    and gone: "i \<notin> evInst ` set (pEvents p)" "inStopped (handleOf p i)"
  shows "pool_inv (removeInstance iter i p)"
proof -
  have "tables_inv (removeInstance iter i p)"
    using inv iter i member_neq_Nil [OF inv i] by (intro tables_inv_removeInstance) (simp_all add: pool_inv_def)
  moreover have "events_inv (removeInstance iter i p)"
    using inv gone by (auto simp: pool_inv_def events_inv_def)
  ultimately show ?thesis by (simp add: pool_inv_def)
qed

lemma pool_inv_handleEvent [invariant_intros]:
  assumes "pool_inv p" and "perm_iter iter" and "pEvents p = ev # es"
  shows "pool_inv (handleEvent iter now ev (p\<lparr>pEvents := es\<rparr>))"
  using pool_inv_pop [OF assms(1,3)] assms(2)
  by (auto simp: handleEvent_def split: evKind.split
      intro!: pool_inv_align pool_inv_handleReady pool_inv_releaseKey pool_inv_removeInstance)

section \<open>Periodic checks\<close>

text \<open>A step that keeps the member list and the invariant may be folded over members.\<close>

lemma fold_inv:
  assumes "\<And>i q. i \<in> A \<Longrightarrow> pool_inv q \<Longrightarrow> pInsts q = xs \<Longrightarrow> pool_inv (f i q) \<and> pInsts (f i q) = xs"
  shows "set is \<subseteq> A \<Longrightarrow> pool_inv p \<Longrightarrow> pInsts p = xs \<Longrightarrow>
    pool_inv (fold f is p) \<and> pInsts (fold f is p) = xs"
  using assms by (induction "is" arbitrary: p) auto

lemma healthResult_inv:
  "i \<in> set (pInsts p) \<Longrightarrow> pool_inv p \<Longrightarrow>
   pool_inv (healthResult answer i p) \<and> pInsts (healthResult answer i p) = pInsts p"
  by (auto intro: pool_inv_post_cmd dest: pool_inv_member split: task.split bool.split)

lemma storeEgress_inv:
  "i \<in> set (pInsts p) \<Longrightarrow> pool_inv p \<Longrightarrow> pool_inv (storeEgress i eg p)"
  unfolding storeEgress_def
  by (intro pool_inv_store store_ext_upd) (auto simp: handle_ext_def dest: pool_inv_member)

lemma storeEgress_fields [simp]:
  "pInsts (storeEgress i eg p) = pInsts p" "pKeysByInst (storeEgress i eg p) = pKeysByInst p"
  "pUsedKeys (storeEgress i eg p) = pUsedKeys p" "pEmptyByInst (storeEgress i eg p) = pEmptyByInst p"
  "pOpts (storeEgress i eg p) = pOpts p"
  by (simp_all add: storeEgress_def)

lemma registerKey_fields [simp]:
  "pInsts (registerKey i k p) = pInsts p" "pStore (registerKey i k p) = pStore p"
  by (simp_all add: registerKey_def)

lemma newerOf_member: "i \<in> set (pInsts p) \<Longrightarrow> newerOf p i owner \<in> set (pInsts p)"
  by (simp add: newerOf_def)

lemma applyKey_inv:
  assumes i: "i \<in> set (pInsts p)" and inv: "pool_inv p"
  shows "pool_inv (applyKey i key eg p)" and "pInsts (applyKey i key eg p) = pInsts p"
  using assms pool_inv_register(1) [OF inv i, of key]
  by (auto simp: applyKey_def intro!: pool_inv_releaseKey pool_inv_post_member newerOf_member)

lemma applyEgress_inv:
  assumes "i \<in> set (pInsts p)" and "pool_inv p"
  shows "pool_inv (applyEgress i eg err p) \<and> pInsts (applyEgress i eg err p) = pInsts p"
  using assms by (simp add: applyEgress_def applyKey_inv storeEgress_inv)

lemma egressResult_inv:
  "i \<in> set (pInsts p) \<Longrightarrow> pool_inv p \<Longrightarrow>
   pool_inv (egressResult answer i p) \<and> pInsts (egressResult answer i p) = pInsts p"
  by (auto simp: applyEgress_inv split: task.split)

lemma reconfirmOne_inv:
  "i \<in> set (pInsts p) \<Longrightarrow> pool_inv p \<Longrightarrow>
   pool_inv (reconfirmOne i p) \<and> pInsts (reconfirmOne i p) = pInsts p"
  by (auto intro: pool_inv_post_cmd dest: pool_inv_member)

lemma normalInsts_members: "perm_iter iter \<Longrightarrow> set (normalInsts iter p) \<subseteq> set (pInsts p)"
  by (auto simp: normalInsts_def perm_iter_set)

lemma pool_inv_healthCheck [invariant_intros]:
  assumes inv: "pool_inv p" and iter: "perm_iter iter" "perm_iter arrive"
    and later: "store_ext (pStore p) later"
  shows "pool_inv (healthCheck iter arrive answer later p)"
proof -
  have "set (arrive (normalInsts iter p)) \<subseteq> set (pInsts p)"
    using normalInsts_members [OF iter(1)] by (simp add: perm_iter_set [OF iter(2)])
  moreover have "pool_inv (p\<lparr>pStore := later\<rparr>)" by (rule pool_inv_store [OF inv later])
  ultimately show ?thesis
    unfolding healthCheck_def
    by (rule fold_inv [where A = "set (pInsts p)" and xs = "pInsts p", THEN conjunct1, rotated])
       (use healthResult_inv in simp_all)
qed

lemma pool_inv_egressCheck [invariant_intros]:
  assumes inv: "pool_inv p" and iter: "perm_iter iter" "perm_iter arrive"
    and later: "store_ext (pStore p) later"
  shows "pool_inv (egressCheck iter arrive answer later p)"
proof -
  have "set (arrive (normalInsts iter p)) \<subseteq> set (pInsts p)"
    using normalInsts_members [OF iter(1)] by (simp add: perm_iter_set [OF iter(2)])
  moreover have "pool_inv (p\<lparr>pStore := later\<rparr>)" by (rule pool_inv_store [OF inv later])
  ultimately show ?thesis
    unfolding egressCheck_def
    by (rule fold_inv [where A = "set (pInsts p)" and xs = "pInsts p", THEN conjunct1, rotated])
       (use egressResult_inv in simp_all)
qed

lemma pool_inv_reconfirmProbing [invariant_intros]:
  assumes inv: "pool_inv p" and iter: "perm_iter iter"
  shows "pool_inv (reconfirmProbing iter p)"
  unfolding reconfirmProbing_def
  by (rule fold_inv [where A = "set (pInsts p)" and xs = "pInsts p", THEN conjunct1])
     (use reconfirmOne_inv inv iter in \<open>simp_all add: perm_iter_set\<close>)

end
