(* ===== verification/ScriptInv.thy ===== *)
theory ScriptInv
  imports InstanceInv PoolInv "HOL-Library.Sublist"
begin

text \<open>
  Invariants of the management goroutine, in general: the locale \<open>script_invariant\<close> asks that
  a predicate survives the elementary moves of the goroutine and concludes that it holds in
  every state the goroutine can wait, fail or end in, for any script of the environment.
  It is interpreted for the identity of the instance, for the rotation of the endpoints,
  for the end of the event stream and for the trace itself.
\<close>

section \<open>The interface\<close>

text \<open>Actions that carry no obligation of their own.\<close>

fun quiet :: "action \<Rightarrow> bool" where
  "quiet (Emit k eg) = (k \<noteq> evStopped)"
| "quiet (EmitAbandoned k) = (k \<noteq> evStopped)"
| "quiet CountReplay = True"
| "quiet (Wait d) = True"
| "quiet (DrainTimer d) = True"
| "quiet (ClientUp c) = True"
| "quiet (CloseClient c) = True"
| "quiet _ = False"

locale script_invariant =
  fixes J :: "inst \<Rightarrow> bool"
  assumes cells [simp]: "J (i\<lparr>inputs := a1\<rparr>) = J i" "J (i\<lparr>iPending := a2\<rparr>) = J i"
      "J (i\<lparr>inAwaitConfirm := a3\<rparr>) = J i" "J (i\<lparr>inEgress := a4\<rparr>) = J i"
      "J (i\<lparr>iBackoffN := a5\<rparr>) = J i" "J (i\<lparr>iSemHeld := a6\<rparr>) = J i"
      "J (i\<lparr>iStateFile := a7\<rparr>) = J i" "J (i\<lparr>iClients := a8\<rparr>) = J i"
      "J (i\<lparr>iClient := a9\<rparr>) = J i" "J (i\<lparr>iGen := a10\<rparr>) = J i"
      "J (i\<lparr>iWatched := a11\<rparr>) = J i" "J (i\<lparr>iReplays := a12\<rparr>) = J i"
    and act_quiet: "quiet a \<Longrightarrow> J i \<Longrightarrow> J (act a i)"
    and set_status: "J i \<Longrightarrow> J (setStatus s i)"
    and close_conns: "J i \<Longrightarrow> J (closeConns i)"
    and drop_identity: "J i \<Longrightarrow> J (nextEndpoint (removeState i))"
    and build: "J i \<Longrightarrow> J (act (NewClient (currentEndpoint i) (iStateFile i)) i)"
begin

abbreviation kept :: "'a outcome \<Rightarrow> bool" where
  "kept \<equiv> post J J (\<lambda>_. J)"

lemma kept_bindO: "kept m \<Longrightarrow> (\<And>a i. J i \<Longrightarrow> kept (f a i)) \<Longrightarrow> kept (bindO m f)"
  by (cases m) auto

lemma kept_then: "kept m \<Longrightarrow> (\<And>a i. J i \<Longrightarrow> Q a i) \<Longrightarrow> post J J Q m"
  by (cases m) auto

lemma closeClient_kept: "J i \<Longrightarrow> J (closeClient i)"
  by (auto simp: closeClient_def Let_def intro!: act_quiet split: option.split)

lemma dropIdentity_kept: "J i \<Longrightarrow> J (dropIdentity k i)"
  by (simp add: dropIdentity_def drop_identity)

lemma backoffDelay_kept [simp]: "J (snd (backoffDelay i)) = J i"
  by (simp add: backoffDelay_def)

lemma watchRun_kept [simp]: "J (watchRun i) = J i"
  by (simp add: watchRun_def)

lemma releaseSem_kept [simp]: "J (releaseSem i) = J i"
  by (simp add: releaseSem_def)

lemma countReplay_kept: "J i \<Longrightarrow> J (countReplay i)"
  by (simp add: countReplay_def act_quiet)

lemma emit_kept: "J i \<Longrightarrow> k \<noteq> evStopped \<Longrightarrow> kept (emit k eg i)"
  by (auto simp: emit_def intro!: act_quiet split: list.split input.split)

lemma probeAndReport_kept: "J i \<Longrightarrow> kept (probeAndReport i)"
  by (auto simp: probeAndReport_def Let_def intro!: emit_kept
      split: list.split input.split probe_answer.split)

lemma waitBackoff_kept: "J i \<Longrightarrow> kept (waitBackoff d i)"
proof (induction d i rule: waitBackoff.induct)
  case (1 d i)
  have "J (act (Wait d) i)" using "1.prems" by (simp add: act_quiet)
  with "1.IH" [OF refl] show ?case
    by (subst waitBackoff.simps) (auto simp: Let_def split: list.split input.split)
qed

lemma provisionCredential_kept: "J i \<Longrightarrow> kept (provisionCredential i)"
  by (auto simp: provisionCredential_def split: list.split input.split acquire_answer.split prod.split)

lemma startUnderSem_kept: "J i \<Longrightarrow> kept (startUnderSem i)"
proof -
  assume "J i"
  have "J (act (CloseClient c) j)" "J (act (ClientUp c) j)" if "J j" for c j
    using that by (simp_all add: act_quiet)
  with \<open>J i\<close> build show ?thesis
    unfolding startUnderSem_def
    by (intro kept_bindO)
       (auto simp: acquireSem_def Let_def split: list.split input.split client_answer.split)
qed

lemma ensureClient_kept: "J i \<Longrightarrow> kept (ensureClient k d i)"
proof (rule post_ensureClient [where I = "\<lambda>k d i. J i"])
  fix k d i
  assume "J i"
  then have start: "kept (waitIfPositive d (dropIdentity k (closeClient i)))"
    by (simp add: waitIfPositive_def waitBackoff_kept dropIdentity_kept closeClient_kept)
  have sem: "post J J (\<lambda>r i3.
      case r of
        (_, False) \<Rightarrow> J i3
      | (Some c, True) \<Rightarrow> J (watchRun (i3\<lparr>iClient := Some c\<rparr>))
      | (None, True) \<Rightarrow> J (snd (backoffDelay i3))) (startUnderSem i2)" if "J i2" for i2
    using startUnderSem_kept [OF that]
    by (auto elim!: post_mono split: prod.split option.split bool.split)
  show "client_round J J (\<lambda>k d i. J i) (\<lambda>_. J) k d i"
    unfolding client_round_def
    using start sem
    by (auto intro!: kept_then [OF start] kept_then [OF provisionCredential_kept])
qed

lemmas steps = kept_then [OF emit_kept] kept_then [OF ensureClient_kept]
  kept_then [OF probeAndReport_kept] kept_then [OF waitBackoff_kept]

lemma drainExpired_kept: "J i \<Longrightarrow> kept (drainExpired i)"
  unfolding drainExpired_def by (auto intro!: steps set_status close_conns)

lemma drainLoop_kept: "J i \<Longrightarrow> kept (drainLoop i)"
proof (induction i rule: drainLoop.induct)
  case (1 i)
  then show ?case
    by (subst drainLoop.simps)
       (auto simp: drainExpired_kept closeClient_kept set_status
         split: list.split input.split cmdKind.split)
qed

lemma handle_cmd_kept: "J i \<Longrightarrow> kept (handle_cmd c i)"
  unfolding handle_cmd_def
  by (auto simp: Let_def drain_def
      intro!: steps probeAndReport_kept set_status closeClient_kept countReplay_kept drainLoop_kept act_quiet
      split: cmdKind.split)

lemma handleLost_kept: "J i \<Longrightarrow> kept (handleLost i)"
  unfolding handleLost_def
  by (auto intro!: steps set_status)

lemma manageLoop_kept: "J i \<Longrightarrow> kept (manageLoop i)"
proof (induction i rule: manageLoop.induct)
  case (1 i)
  have cont: "kept (if stop then Ret () j else manageLoop j)"
    if "J j" "\<not> stop \<Longrightarrow> J j \<Longrightarrow> kept (manageLoop j)" for stop j
    using that by simp
  show ?case
  proof (cases "iPending i")
    case (Cons c cs)
    have "kept (bindO (handle_cmd c (i\<lparr>iPending := cs\<rparr>)) (\<lambda>stop i1. if stop then Ret () i1 else manageLoop i1))"
      unfolding post_bindO using "1.IH"(4) [OF Cons] "1.prems"
      by (auto intro: post_strengthen [OF handle_cmd_kept])
    with Cons show ?thesis by (subst manageLoop.simps) simp
  next
    case Nil
    show ?thesis
    proof (cases "inputs i")
      case Nil': Nil
      with Nil "1.prems" show ?thesis by (subst manageLoop.simps) simp
    next
      case (Cons a "is")
      have command: "kept (bindO (handle_cmd c (i\<lparr>inputs := is\<rparr>)) (\<lambda>stop i1. if stop then Ret () i1 else manageLoop i1))"
        if "a = InCmd c" for c
        unfolding post_bindO using "1.IH"(1) [OF Nil Cons that] "1.prems"
        by (auto intro: post_strengthen [OF handle_cmd_kept])
      let ?i1 = "\<lambda>g. i\<lparr>inputs := is, iWatched := iWatched i - {g}\<rparr>"
      have lost: "kept (bindO (handleLost (?i1 g)) (\<lambda>stop i1. if stop then Ret () i1 else manageLoop i1))"
        if "a = InRunExit g" "g \<in> iWatched i" "g = iGen i" for g
        unfolding post_bindO using "1.IH"(2) [OF Nil Cons that(1) _ refl] that "1.prems"
        by (auto intro: post_strengthen [OF handleLost_kept])
      have stale: "kept (manageLoop (?i1 g))"
        if "a = InRunExit g" "g \<in> iWatched i" "g \<noteq> iGen i" for g
        using "1.IH"(3) [OF Nil Cons that(1) _ refl] that "1.prems" by simp
      show ?thesis
        using Nil Cons "1.prems" command lost stale
        by (subst manageLoop.simps) (auto simp: Let_def split: input.split)
    qed
  qed
qed

text \<open>The conclusion for the whole goroutine, up to its final clean-up.\<close>

lemma manage_kept: "J i \<Longrightarrow> kept (manage i)"
  unfolding manage_def
  by (auto intro!: steps manageLoop_kept)

lemma goroutine_kept:
  assumes "J i"
  shows "case goroutine room i of
      Parked j \<Rightarrow> J j
    | Panic j \<Rightarrow> False
    | Ret u j \<Rightarrow> \<exists>k. J k \<and> j = recoverManage room k"
  using manage_kept [OF assms] by (cases "manage i") (auto simp: goroutine_def)

end

section \<open>The trace\<close>

text \<open>The trace only grows.\<close>

interpretation grows: script_invariant "\<lambda>i. prefix t (trace i)" for t
  by unfold_locales
     (auto simp: act_def setStatus_def closeConns_def nextEndpoint_def removeState_def)

section \<open>Identity\<close>

text \<open>The cells the pool relies on: identity never changes, and the instance is not stopped
  and sends no \<open>evStopped\<close> before its goroutine cleans up.\<close>

definition running :: "handle \<Rightarrow> inst \<Rightarrow> bool" where
  "running h i \<longleftrightarrow> handle_ext h (handle.truncate i) \<and> \<not> inStopped i \<and>
     (\<forall>a \<in> set (trace i). a \<noteq> EmitAbandoned evStopped \<and> (\<forall>eg. a \<noteq> Emit evStopped eg))"

interpretation runs: script_invariant "running h" for h
proof
  show "running h (act a i)" if "quiet a" "running h i" for a i
    using that by (cases a) (auto simp: running_def handle_ext_def handle.truncate_def act_def)
qed (auto simp: running_def handle_ext_def handle.truncate_def act_def setStatus_def closeConns_def
    nextEndpoint_def removeState_def)

section \<open>Endpoints\<close>

definition endpoint_at :: "string list \<Rightarrow> nat \<Rightarrow> string" where
  "endpoint_at eps n = (if eps = [] then '''' else eps ! (n mod length eps))"

text \<open>Every client of a trace is built for the endpoint at the start index plus the number of
  identities dropped before it.\<close>

fun endpoints_ok :: "string list \<Rightarrow> nat \<Rightarrow> action list \<Rightarrow> bool" where
  "endpoints_ok eps n [] \<longleftrightarrow> True"
| "endpoints_ok eps n (NewClient ep f # as) \<longleftrightarrow> ep = endpoint_at eps n \<and> endpoints_ok eps n as"
| "endpoints_ok eps n (RemoveState # as) \<longleftrightarrow> endpoints_ok eps (Suc n) as"
| "endpoints_ok eps n (_ # as) \<longleftrightarrow> endpoints_ok eps n as"

definition drops :: "action list \<Rightarrow> nat" where
  "drops as = length (filter (\<lambda>a. a = RemoveState) as)"

lemma drops_append [simp]: "drops (as @ bs) = drops as + drops bs"
  by (simp add: drops_def)

lemma endpoints_ok_append:
  "endpoints_ok eps n (as @ bs) \<longleftrightarrow> endpoints_ok eps n as \<and> endpoints_ok eps (n + drops as) bs"
  by (induction eps n as rule: endpoints_ok.induct) (auto simp: drops_def)

definition rotates :: "string list \<Rightarrow> nat \<Rightarrow> inst \<Rightarrow> bool" where
  "rotates eps n i \<longleftrightarrow> iEndpoints i = eps \<and> iEpIdx i = n + drops (trace i) \<and>
     endpoints_ok eps n (trace i)"

interpretation endpoints: script_invariant "rotates eps n" for eps n
proof
  show "rotates eps n (act a i)" if "quiet a" "rotates eps n i" for a i
    using that by (cases a) (auto simp: rotates_def endpoints_ok_append drops_def act_def)
  show "rotates eps n (act (NewClient (currentEndpoint i) (iStateFile i)) i)" if "rotates eps n i" for i
    using that by (auto simp: rotates_def endpoints_ok_append drops_def act_def currentEndpoint_def
        endpoint_at_def)
qed (auto simp: rotates_def endpoints_ok_append drops_def act_def setStatus_def closeConns_def
    nextEndpoint_def removeState_def)

section \<open>Configuration\<close>

text \<open>Whether the file system lets the state file go is not the goroutine's choice.\<close>

abbreviation removes :: "bool \<Rightarrow> inst \<Rightarrow> bool" where
  "removes rm i \<equiv> iRemoveOk i = rm"

interpretation removal: script_invariant "removes rm" for rm
  by unfold_locales
     (auto simp: act_def setStatus_def closeConns_def nextEndpoint_def removeState_def)

end
