(* ===== verification/PoolSteps.thy ===== *)
theory PoolSteps
  imports PoolInv
begin

text \<open>
  The reachable states of a pool and its properties. A step is a tick of the coordinator, a
  call of the facade, or interference: an instance changes its own cells, or puts an event on
  the channel. An instance that has stopped sends one \<open>evStopped\<close> and nothing after it.
\<close>

section \<open>Facade operations keep the invariant\<close>

lemma pool_inv_limits [invariant_intros]:
  assumes "pool_inv p"
  shows "pool_inv (p\<lparr>pMin := a\<rparr>)" and "pool_inv (p\<lparr>pMax := b\<rparr>)" and "pool_inv (p\<lparr>pWake := w\<rparr>)"
    and "pool_inv (p\<lparr>pCursor := c\<rparr>)" and "pool_inv (p\<lparr>pDialTotal := t\<rparr>)"
    and "pool_inv (p\<lparr>pDialFailures := f\<rparr>)" and "pool_inv (p\<lparr>pReplays := r\<rparr>)"
    and "pool_inv (p\<lparr>pCloseOnce := o1\<rparr>)" and "pool_inv (p\<lparr>pClosed := o2\<rparr>)"
    and "pool_inv (p\<lparr>pCancelled := o3\<rparr>)"
  using assms
  by (simp_all add: pool_inv_def tables_inv_def ids_inv_def ports_inv_def keys_inv_def snap_inv_def
      snapshot_def events_inv_def)

lemma pool_inv_snapshot: "pool_inv p \<Longrightarrow> set (snapshot p) = set (pInsts p)"
  by (auto simp: pool_inv_def tables_inv_def snap_inv_def dest: mset_eq_setD)

lemma pool_inv_setStatus [invariant_intros]:
  "pool_inv p \<Longrightarrow> pool_inv (snd (pool_setStatus i s p))"
  by (auto simp: pool_setStatus_def Let_def pool_send_eq pool_inv_snapshot pool_inv_post_member
      split: prod.split)

lemma pool_inv_setMin [invariant_intros]: "pool_inv p \<Longrightarrow> pool_inv (snd (setMin n p))"
  by (simp add: setMin_def wakeup_def pool_inv_limits)

lemma pool_inv_setMax [invariant_intros]: "pool_inv p \<Longrightarrow> pool_inv (snd (setMax n p))"
  by (simp add: setMax_def wakeup_def pool_inv_limits)

lemma pool_inv_Close [invariant_intros]: "pool_inv p \<Longrightarrow> pool_inv (snd (Close p))"
  by (simp add: Close_def pool_inv_limits)

lemma pool_inv_dialView:
  assumes "pool_inv p" and "v \<in> set (pInsts p)" and "dialView through v p = (r, p')"
  shows "pool_inv p' \<and> pInsts p' = pInsts p"
proof -
  have "store_ext (pStore p) ((pStore p)(v \<mapsto> trackConn c (handleOf p v)))" for c
    using pool_inv_member [OF assms(1,2)]
    by (intro store_ext_upd) (simp_all add: trackConn_def handle_ext_def)
  then show ?thesis
    using assms
    by (auto simp: dialView_def Let_def intro!: pool_inv_limits pool_inv_store split: sum.splits)
qed

lemma pool_inv_dialLoop:
  "pool_inv p \<Longrightarrow> set vs \<subseteq> set (pInsts p) \<Longrightarrow> pool_inv (snd (dialLoop ctxErr through k vs err p))"
proof (induction vs arbitrary: k err p)
  case (Cons v vs)
  obtain r p' where d: "dialView (through k) v p = (r, p')" by fastforce
  have "pool_inv p' \<and> pInsts p' = pInsts p"
    using Cons.prems d by (intro pool_inv_dialView) auto
  then have "pool_inv p'" and "pool_inv (snd (dialLoop ctxErr through k' vs err' p'))" for k' err'
    using Cons.IH [of p' k' err'] Cons.prems(2) by simp_all
  with d Cons.prems show ?case by (simp split: option.split sum.split)
qed simp

lemma rotation_set: "set (rotation start vs) \<subseteq> set vs"
proof (cases "vs = []")
  case False
  then have "0 < length vs" by simp
  then show ?thesis by (auto simp: rotation_def Let_def)
qed (simp add: rotation_def)

lemma normalCandidates_members:
  "pool_inv p \<Longrightarrow> set (normalCandidates p (snapshot p)) \<subseteq> set (pInsts p)"
  by (auto simp: normalCandidates_def pool_inv_snapshot)

lemma pool_inv_dial: "pool_inv p \<Longrightarrow> pool_inv (snd (dial ctxErr through start p))"
  using pool_inv_dialLoop [OF _ order_trans [OF rotation_set normalCandidates_members], of p]
  by (simp add: dial_def Let_def)

lemma pool_inv_dialKey: "pool_inv p \<Longrightarrow> pool_inv (snd (dialKey ctxErr through key p))"
  using pool_inv_dialLoop [of p "affinityOrder key (normalCandidates p (snapshot p))"]
    normalCandidates_members [of p]
  by (simp add: dialKey_def Let_def affinityOrder_def)

lemma pool_inv_DialContext [invariant_intros]:
  "pool_inv p \<Longrightarrow> pool_inv (snd (DialContext ctxErr through p))"
  by (simp add: DialContext_def nextStart_def pool_inv_dial pool_inv_limits)

lemma pool_inv_DialContextWithKey [invariant_intros]:
  "pool_inv p \<Longrightarrow> pool_inv (snd (DialContextWithKey ctxErr through key p))"
  by (simp add: DialContextWithKey_def nextStart_def pool_inv_dial pool_inv_dialKey pool_inv_limits)

lemma pool_inv_conn_Close [invariant_intros]:
  "pool_inv p \<Longrightarrow> icInst c \<in> dom (pStore p) \<Longrightarrow> pool_inv (snd (conn_Close closeErr c p))"
  unfolding conn_Close_def snd_conv
  by (rule pool_inv_store) (auto intro!: store_ext_upd simp: untrackConn_def handle_ext_def)

section \<open>Construction\<close>

lemma newPool_fields:
  assumes "newPool raw dirOk = Inr p"
  shows "dirOk \<and> Validate (withDefaults raw) = None \<and> pOpts p = withDefaults raw \<and>
    newPortAllocator (oListenBase (withDefaults raw)) = Inr (pPorts p) \<and>
    pMin p = int32 (oMin raw) \<and> pMax p = int32 (oMax raw) \<and> pInsts p = [] \<and>
    pStore p = Map.empty \<and> pConfigs p = Map.empty \<and> pUsedKeys p = Map.empty \<and> pKeysByInst p = Map.empty \<and>
    pEmptyByInst p = Map.empty \<and> pPortOf p = Map.empty \<and> snapshot p = [] \<and> pEvents p = [] \<and>
    pNextSeq p = 0 \<and> pCursor p = 0 \<and> \<not> pClosed p \<and> \<not> pCloseOnce p"
  using assms
  by (auto simp: newPool_def Let_def snapshot_def withDefaults_def split: option.splits sum.splits if_splits)

lemma newPool_inv:
  assumes "newPool raw dirOk = Inr p"
  shows "pool_inv p"
proof -
  note f = newPool_fields [OF assms]
  then have alloc: "newPortAllocator (oListenBase (withDefaults raw)) = Inr (pPorts p)" by blast
  have "slot_table paUsed pa_inv (pPortOf p) (pPorts p)"
    using newPortAllocator_inv [OF alloc] f by (simp add: slot_table_def)
  with f show ?thesis
    by (simp add: pool_inv_def tables_inv_def ids_inv_def ports_inv_def keys_inv_def snap_inv_def
        events_inv_def)
qed

section \<open>Steps\<close>

inductive pool_step :: "pool \<Rightarrow> pool \<Rightarrow> bool" where
  event: "perm_iter iter \<Longrightarrow> pEvents p = ev # es \<Longrightarrow>
    pool_step p (reconcile_tick iter now (TickEvent ev) (p\<lparr>pEvents := es\<rparr>))"
| health: "perm_iter iter \<Longrightarrow> perm_iter arrive \<Longrightarrow> store_ext (pStore p) later \<Longrightarrow>
    pool_step p (reconcile_tick iter now (TickHealth arrive answer later) p)"
| egress: "perm_iter iter \<Longrightarrow> perm_iter arrive \<Longrightarrow> store_ext (pStore p) later \<Longrightarrow>
    pool_step p (reconcile_tick iter now (TickEgress arrive answer' later) p)"
| wake: "perm_iter iter \<Longrightarrow> pool_step p (reconcile_tick iter now TickWake (p\<lparr>pWake := False\<rparr>))"
| instances: "store_ext (pStore p) s \<Longrightarrow> pool_step p (p\<lparr>pStore := s, pReplays := r\<rparr>)"
| emits: "length (pEvents p) < eventChanCap \<Longrightarrow> evInst ev \<in> dom (pStore p) \<Longrightarrow>
    \<not> inStopped (handleOf p (evInst ev)) \<Longrightarrow> evK ev \<noteq> evStopped \<Longrightarrow>
    pool_step p (p\<lparr>pEvents := pEvents p @ [ev]\<rparr>)"
| stops: "length (pEvents p) < eventChanCap \<Longrightarrow> i \<in> set (pInsts p) \<Longrightarrow>
    inStopped (handleOf p i) \<Longrightarrow> \<forall>e \<in> set (pEvents p). evK e = evStopped \<longrightarrow> evInst e \<noteq> i \<Longrightarrow>
    pool_step p (p\<lparr>pEvents := pEvents p @ [\<lparr>evInst = i, evK = evStopped, evEgress = zeroEgress\<rparr>]\<rparr>)"
| set_status: "pool_step p (snd (pool_setStatus i s p))"
| set_min: "pool_step p (snd (setMin n p))"
| set_max: "pool_step p (snd (setMax n p))"
| close: "pool_step p (snd (Close p))"
| dials: "pool_step p (snd (DialContext ctxErr through p))"
| dials_key: "pool_step p (snd (DialContextWithKey ctxErr through key p))"
| closes_conn: "icInst c \<in> dom (pStore p) \<Longrightarrow> 
    pool_step p (snd (conn_Close (closeErr :: conn \<Rightarrow> string option) c p))"

inductive pool_reach :: "Options \<Rightarrow> pool \<Rightarrow> bool" for raw where
  init: "newPool raw dirOk = Inr p \<Longrightarrow> pool_reach raw p"
| step: "pool_reach raw p \<Longrightarrow> pool_step p q \<Longrightarrow> pool_reach raw q"

lemma stop_last_snoc:
  "stop_last (es @ [e]) \<longleftrightarrow> stop_last es \<and> (\<forall>x \<in> set es. evK x = evStopped \<longrightarrow> evInst x \<noteq> evInst e)"
  by (induction es) auto

lemma pool_inv_emit:
  assumes inv: "pool_inv p" and len: "length (pEvents p) < eventChanCap"
    and mem: "evInst ev \<in> set (pInsts p)"
    and stop: "evK ev = evStopped \<Longrightarrow> inStopped (handleOf p (evInst ev))"
    and last: "\<forall>e \<in> set (pEvents p). evK e = evStopped \<longrightarrow> evInst e \<noteq> evInst ev"
  shows "pool_inv (p\<lparr>pEvents := pEvents p @ [ev]\<rparr>)"
proof -
  have "events_inv (p\<lparr>pEvents := pEvents p @ [ev]\<rparr>)"
    using inv len mem stop last by (auto simp: pool_inv_def events_inv_def stop_last_snoc)
  moreover have "tables_inv (p\<lparr>pEvents := pEvents p @ [ev]\<rparr>)"
    using inv by (simp add: pool_inv_def tables_inv_def ids_inv_def ports_inv_def keys_inv_def
        snap_inv_def snapshot_def)
  ultimately show ?thesis by (simp add: pool_inv_def)
qed

lemma running_member:
  "pool_inv p \<Longrightarrow> i \<in> dom (pStore p) \<Longrightarrow> \<not> inStopped (handleOf p i) \<Longrightarrow> i \<in> set (pInsts p)"
  by (auto simp: pool_inv_def events_inv_def)

lemma running_no_stop_queued:
  "pool_inv p \<Longrightarrow> \<not> inStopped (handleOf p i) \<Longrightarrow>
   \<forall>e \<in> set (pEvents p). evK e = evStopped \<longrightarrow> evInst e \<noteq> i"
  by (auto simp: pool_inv_def events_inv_def)

lemma pool_step_inv: "pool_step p q \<Longrightarrow> pool_inv p \<Longrightarrow> pool_inv q"
proof (induction rule: pool_step.induct)
  case (event iter p ev es now)
  then show ?case by (simp add: reconcile_tick_def pool_inv_handleEvent)
next
  case (health iter arrive p later now answer)
  then show ?case
    by (simp add: reconcile_tick_def pool_inv_align pool_inv_reconfirmProbing pool_inv_healthCheck)
next
  case (egress iter arrive p later now answer')
  then show ?case by (simp add: reconcile_tick_def pool_inv_align pool_inv_egressCheck)
next
  case (wake iter p now)
  then show ?case by (simp add: reconcile_tick_def pool_inv_align pool_inv_limits)
next
  case (instances p s r)
  then show ?case using pool_inv_limits(7) [OF pool_inv_store, of p s r] by simp
next
  case (emits p ev)
  then show ?case by (intro pool_inv_emit running_member running_no_stop_queued) simp_all
next
  case (stops p i)
  then show ?case by (intro pool_inv_emit) simp_all
qed (simp_all add: invariant_intros)

lemma pool_reach_inv: "pool_reach raw p \<Longrightarrow> pool_inv p"
  by (induction rule: pool_reach.induct) (auto intro: newPool_inv pool_step_inv)

end
