(* ===== verification/PoolProps.thy ===== *)
theory PoolProps
  imports PoolSteps
begin

text \<open>
  Properties of the coordinator: the key registry, identity of instances, the published
  snapshot, the decisions on a reported egress, alignment, eviction, the manual operations.
  \<open>demoOptions\<close> is the configuration the witnesses run.
\<close>

section \<open>A concrete pool\<close>

definition demoOptions :: Options where
  "demoOptions =
     \<lparr>oMin = 2, oMax = 3, oListenBase = '''', oStateDir = '''', oEvictor = Some EvictOldest,
      oDedupeKeyer = Some DedupeByBoth, oEgressProbeV4URL = '''', oEgressProbeV6URL = '''',
      oHealthInterval = 0, oHealthTimeout = 0, oEgressCheckInterval = 0, oDrainTimeout = 0,
      oReplayBackoffStart = 0, oReplayBackoffMax = 0, oReplayConcurrency = 0, oDialTransport = '''',
      oEndpoints = [], oCredentialSource = False, oLogger = None\<rparr>"

definition demoPorts :: portAllocator where
  "demoPorts = \<lparr>paHost = ''127.0.0.1'', paBase = 51367, paNext = 0, paUsed = {}, paFree = []\<rparr>"

definition demo0 :: pool where
  "demo0 =
     \<lparr>pOpts = withDefaults demoOptions, pDialThrough = DialThroughProxy, pInsts = [],
      pStore = Map.empty, pConfigs = Map.empty, pUsedKeys = Map.empty, pKeysByInst = Map.empty,
      pEmptyByInst = Map.empty, pPortOf = Map.empty, pPorts = demoPorts, pSnap = None,
      pEvents = [], pWake = False, pReplays = 0, pDialTotal = 0, pDialFailures = 0, pMin = 2,
      pMax = 3, pCursor = 0, pClosed = False, pCloseOnce = False, pCancelled = False, pNextSeq = 0\<rparr>"

definition demo1 :: pool where
  "demo1 = reconcile_tick (\<lambda>xs. xs) int TickWake demo0"

lemma demo_alloc: "newPortAllocator defaultListenBase = Inr demoPorts"
  by (simp add: eval_listen defaultListenBase_def demoPorts_def)

lemma newPool_demo: "newPool demoOptions True = Inr demo0"
proof -
  have "validateHostPort defaultListenBase = None"
    using demo_alloc validateHostPort_allocator by blast
  then have "Validate (withDefaults demoOptions) = None"
    unfolding Validate_withDefaults
    by (simp add: demoOptions_def if_empty_def if_not_positive_def default_defs maxListenPort_def)
  moreover have "oListenBase (withDefaults demoOptions) = defaultListenBase"
    and "oDialTransport (withDefaults demoOptions) = TransportSOCKS5"
    and "oMin (withDefaults demoOptions) = 2" and "oMax (withDefaults demoOptions) = 3"
    by (simp_all add: demoOptions_def withDefaults_def if_empty_def)
  ultimately show ?thesis
    by (simp add: newPool_def Let_def demo_alloc demo0_def int32_def TransportSOCKS5_def TransportHTTP_def)
qed

lemma perm_iter_id [simp]: "perm_iter (\<lambda>xs. xs)"
  by (simp add: perm_iter_def)

lemma perm_iter_rev [simp]: "perm_iter rev"
  by (simp add: perm_iter_def)

lemma reach_demo0: "pool_reach demoOptions demo0"
  using newPool_demo by (rule pool_reach.init)

lemma reach_demo1: "pool_reach demoOptions demo1"
proof -
  have "demo0\<lparr>pWake := False\<rparr> = demo0" by (simp add: demo0_def)
  then show ?thesis
    using pool_reach.step [OF reach_demo0 pool_step.wake [OF perm_iter_id]] by (simp add: demo1_def)
qed

definition demoHandle :: "nat \<Rightarrow> handle" where
  "demoHandle n =
     \<lparr>inID = seqID n, inCreatedAt = int n, inProxyAddr = pa_addr demoPorts n, inStatus = StatusProbing,
      inEgress = None, inAwaitConfirm = False, inStopped = False, inCmds = [], inConns = {}\<rparr>"

text \<open>The first alignment creates the two instances the configuration asks for.\<close>

lemma demo1_fields:
  "pInsts demo1 = [seqID 0, seqID 1] \<and> pNextSeq demo1 = 2 \<and>
   pStore demo1 = [seqID 0 \<mapsto> demoHandle 0, seqID 1 \<mapsto> demoHandle 1] \<and>
   pPortOf demo1 = [seqID 0 \<mapsto> 0, seqID 1 \<mapsto> 1] \<and> pUsedKeys demo1 = Map.empty \<and>
   pKeysByInst demo1 = Map.empty \<and> pEmptyByInst demo1 = Map.empty \<and> pEvents demo1 = [] \<and>
   pOpts demo1 = withDefaults demoOptions \<and> pMin demo1 = 2 \<and> pMax demo1 = 3 \<and>
   pSnap demo1 = Some [seqID 0, seqID 1] \<and> \<not> pClosed demo1 \<and> pCursor demo1 = 0 \<and>
   pDialTotal demo1 = 0 \<and> pDialFailures demo1 = 0 \<and> \<not> pCloseOnce demo1"
proof -
  have v: "viewLess (seqID (Suc 0)) (seqID 0) = 1"
    using viewLess_seqID [of 1 0] by (simp add: cmpCompare_def)
  show ?thesis
    unfolding demo1_def reconcile_tick_def
    by (simp add: demo0_def align_def Let_def alignLoop.simps activeCount_def countsActive_def
        createInstance_def publish_def pa_acquire_def pa_scan.simps demoPorts_def maxListenPort_def
        newHandle_def demoHandle_def SortFunc_def pa_addr_def v fun_eq_iff)
qed

section \<open>The key registry\<close>

text \<open>C1: In every reachable pool the two key tables are inverse to each other on non-empty
  keys: a key is in use by an instance exactly when that instance registered it. So no two
  instances hold the same key, every holder is a current member, and the counter of empty
  reports of an instance is never at the limit.\<close>

theorem key_registry:
  assumes "pool_reach raw p"
  shows "(\<forall>k i. pUsedKeys p k = Some i \<longleftrightarrow> pKeysByInst p i = Some k \<and> k \<noteq> '''') \<and>
    (\<forall>i j k. pKeysByInst p i = Some k \<and> pKeysByInst p j = Some k \<and> k \<noteq> '''' \<longrightarrow> i = j) \<and>
    dom (pKeysByInst p) \<subseteq> set (pInsts p) \<and> dom (pEmptyByInst p) \<subseteq> set (pInsts p) \<and>
    ran (pEmptyByInst p) \<subseteq> {1, 2}"
proof -
  note kinv = pool_inv_keysD [OF pool_reach_inv [OF assms]]
  have "ran (pEmptyByInst p) \<subseteq> {1, 2}"
    using kinv by (fastforce simp: keys_inv_def probeFailLimit_def ran_def)
  with kinv keys_inv_inj [OF kinv] show ?thesis unfolding keys_inv_def by blast
qed

text \<open>The demo pool after its two instances have reported different egresses.\<close>

definition demoEgress :: "8 word \<Rightarrow> Egress" where
  "demoEgress n = \<lparr>eV4 = AddrV4 192 0 2 n, eV6 = AddrZero\<rparr>"

definition demo2 :: pool where
  "demo2 = handleReady (seqID 0) (demoEgress 7) demo1"

definition demo3 :: pool where
  "demo3 = handleReady (seqID 1) (demoEgress 8) demo2"

lemma reach_ready:
  assumes "pool_reach raw p" and "pEvents p = []" and "i \<in> dom (pStore p)"
    and "\<not> inStopped (handleOf p i)"
  shows "pool_reach raw (handleReady i eg p)"
proof -
  let ?ev = "\<lparr>evInst = i, evK = evReady, evEgress = eg\<rparr>"
  let ?p = "p\<lparr>pEvents := pEvents p @ [?ev]\<rparr>"
  have "pool_step p ?p"
    using assms(2-4) by (intro pool_step.emits) (simp_all add: eventChanCap_def)
  with assms(1) have "pool_reach raw ?p" by (rule pool_reach.step)
  moreover have "pool_step ?p (reconcile_tick (\<lambda>xs. xs) int (TickEvent ?ev) (?p\<lparr>pEvents := []\<rparr>))"
    using assms(2) by (intro pool_step.event) simp_all
  moreover have "?p\<lparr>pEvents := []\<rparr> = p" using assms(2) by simp
  ultimately show ?thesis
    using pool_reach.step by (simp add: reconcile_tick_def handleEvent_def)
qed

lemma demo_keyer: "oDedupeKeyer (withDefaults demoOptions) = Some DedupeByBoth"
  by (simp add: withDefaults_def demoOptions_def if_nil_def)

lemma demoEgress_Is4 [simp]: "Is4 (eV4 (demoEgress n))"
  by (simp add: demoEgress_def)

lemma demoEgress_key: "DedupeByBoth (demoEgress n) \<noteq> ''''"
  by (simp add: demoEgress_def)

lemma demoEgress_key_inj: "DedupeByBoth (demoEgress m) = DedupeByBoth (demoEgress n) \<longleftrightarrow> m = n"
  using byBoth.same_key_iff [OF demoEgress_key, of m "demoEgress n"]
  by (auto simp: demoEgress_def effective_def)

lemma demo2_fields:
  "pInsts demo2 = [seqID 0, seqID 1] \<and> pEvents demo2 = [] \<and> pOpts demo2 = withDefaults demoOptions \<and>
   pUsedKeys demo2 = [DedupeByBoth (demoEgress 7) \<mapsto> seqID 0] \<and>
   pKeysByInst demo2 = [seqID 0 \<mapsto> DedupeByBoth (demoEgress 7)] \<and> pEmptyByInst demo2 = Map.empty \<and>
   pStore demo2 = [seqID 0 \<mapsto> (demoHandle 0)\<lparr>inCmds := [cmd cmdConfirm]\<rparr>, seqID 1 \<mapsto> demoHandle 1] \<and>
   pPorts demo2 = pPorts demo1 \<and> pPortOf demo2 = pPortOf demo1 \<and> pNextSeq demo2 = 2 \<and>
   pSnap demo2 = Some [seqID 0, seqID 1] \<and> pMin demo2 = 2 \<and> pMax demo2 = 3"
  using demo1_fields
  by (simp add: demo2_def handleReady_def Let_def demo_keyer demoEgress_key whitelistedEmptyKey_def
      takenByOther_def releaseKey_def registerKey_def post_cmd_eq send_def chan_send_def
      cmdChanCap_def demoHandle_def fun_upd_twist)

lemma reach_demo2: "pool_reach demoOptions demo2"
  unfolding demo2_def using demo1_fields
  by (intro reach_ready reach_demo1) (simp_all add: demoHandle_def)

lemma reach_demo3: "pool_reach demoOptions demo3"
  unfolding demo3_def using demo2_fields
  by (intro reach_ready reach_demo2) (simp_all add: demoHandle_def)

lemma demo3_keys:
  "pKeysByInst demo3 = [seqID 0 \<mapsto> DedupeByBoth (demoEgress 7),
     seqID 1 \<mapsto> DedupeByBoth (demoEgress 8)] \<and> pOpts demo3 = withDefaults demoOptions"
  using demo2_fields
  by (simp add: demo3_def handleReady_def Let_def demo_keyer demoEgress_key whitelistedEmptyKey_def
      takenByOther_def releaseKey_def registerKey_def demoEgress_key_inj)

theorem key_registry_witness:
  "pool_reach demoOptions demo3 \<and> pKeysByInst demo3 (seqID 1) = Some (DedupeByBoth (demoEgress 8)) \<and>
   pUsedKeys demo3 (DedupeByBoth (demoEgress 8)) = Some (seqID 1)"
  using key_registry [OF reach_demo3] demo3_keys reach_demo3 demoEgress_key by simp



section \<open>Identity\<close>

lemma stateFile_inj: "stateFile i = stateFile j \<Longrightarrow> i = j"
  by (simp add: stateFile_def)

text \<open>C14: In every reachable pool the instances ever created carry the IDs 0, 1, 2, \<dots> of
  their creation, none of them reused, each with its own state file. The current members
  listen on pairwise different proxy addresses, with ports between 1 and 65535.\<close>

theorem instance_identity:
  assumes "pool_reach raw p"
  shows "dom (pStore p) = seqID ` {..<pNextSeq p} \<and> inj_on stateFile (dom (pStore p)) \<and>
    distinct (pInsts p) \<and> set (pInsts p) \<subseteq> dom (pStore p) \<and>
    inj_on (\<lambda>i. inProxyAddr (handleOf p i)) (set (pInsts p)) \<and>
    (\<forall>i \<in> set (pInsts p). inID (handleOf p i) = i \<and>
       (\<exists>h n. SplitHostPort (inProxyAddr (handleOf p i)) = Some (h, Itoa n) \<and> 1 \<le> n \<and> n \<le> 65535))"
proof -
  note inv = pool_reach_inv [OF assms]
  note ids = pool_inv_ids [OF inv]
  have pinv: "ports_inv p" using inv by (simp add: pool_inv_def tables_inv_def)
  then have tab: "slot_table paUsed pa_inv (pPortOf p) (pPorts p)" and d: "dom (pPortOf p) = set (pInsts p)"
    and addr: "\<And>i. i \<in> set (pInsts p) \<Longrightarrow> inProxyAddr (handleOf p i) = pa_addr (pPorts p) (the (pPortOf p i))"
    by (simp_all add: ports_inv_def)
  have good: "pa_inv (pPorts p)" and inj: "inj_on (pPortOf p) (dom (pPortOf p))"
    using tab by (simp_all add: slot_table_def)
  have inj_addr: "inj_on (\<lambda>i. inProxyAddr (handleOf p i)) (set (pInsts p))"
  proof (rule inj_onI)
    fix i j
    assume ij: "i \<in> set (pInsts p)" "j \<in> set (pInsts p)"
      "inProxyAddr (handleOf p i) = inProxyAddr (handleOf p j)"
    then have "the (pPortOf p i) = the (pPortOf p j)" using addr pa_addr_inj by metis
    moreover have "pPortOf p i \<noteq> None" "pPortOf p j \<noteq> None" using ij d by blast+
    ultimately have "pPortOf p i = pPortOf p j"
      by (cases "pPortOf p i"; cases "pPortOf p j") simp_all
    then show "i = j" using inj_onD [OF inj, of i j] ij d by simp
  qed
  have port: "\<exists>h n. SplitHostPort (inProxyAddr (handleOf p i)) = Some (h, Itoa n) \<and> 1 \<le> n \<and> n \<le> 65535"
    if "i \<in> set (pInsts p)" for i
  proof -
    have "i \<in> dom (pPortOf p)" using that d by simp
    then obtain off where off: "pPortOf p i = Some off" by (auto simp: domIff)
    then have "off \<in> ran (pPortOf p)" by (rule ranI)
    then have used: "off \<in> paUsed (pPorts p)" using tab by (simp add: slot_table_def)
    have "paBase (pPorts p) + int off \<le> 65535"
      using pa_inv_used [OF good used] by (simp add: maxListenPort_def)
    moreover have "1 \<le> paBase (pPorts p)" using good by (simp add: pa_inv_def minListenPort_def)
    ultimately show ?thesis
      using pa_addr_parses(1) [OF good used] addr [OF that] off by auto
  qed
  have "inj_on stateFile (dom (pStore p))" by (auto intro: inj_onI stateFile_inj)
  moreover have "dom (pStore p) = seqID ` {..<pNextSeq p}"
    and self: "\<forall>i \<in> dom (pStore p). inID (handleOf p i) = i"
    using ids by (simp_all add: ids_inv_def)
  moreover have member: "i \<in> dom (pStore p)" if "i \<in> set (pInsts p)" for i
    using ids that by (rule ids_inv_dom)
  moreover have "inID (handleOf p i) = i" if "i \<in> set (pInsts p)" for i
    using self member [OF that] by (rule bspec)
  ultimately show ?thesis
    using ids_inv_distinct [OF ids] inj_addr port by (simp add: subset_iff)
qed

theorem instance_identity_witness:
  "dom (pStore demo1) = seqID ` {..<pNextSeq demo1} \<and>
   inj_on (\<lambda>i. inProxyAddr (handleOf demo1 i)) {seqID 0, seqID 1}"
  using instance_identity [OF reach_demo1] demo1_fields by simp

section \<open>The published snapshot\<close>

text \<open>C15: Whatever order the runtime iterates over the instance map, publishing gives the same
  snapshot. In every reachable pool that has created at most \<open>2 ^ 63\<close> instances, what
  \<open>Instances\<close> returns is the current members in the order of their creation, that is by the
  numeric value of their IDs.\<close>

theorem snapshot_creation_order:
  assumes "pool_reach raw p" and "int (pNextSeq p) \<le> 2 ^ 63"
    and "\<And>xs. mset (iter xs) = mset xs"
  shows "snapshot (publish iter p) = snapshot p \<and>
    set (map iiID (Instances p)) = set (pInsts p) \<and>
    (\<exists>ns. map iiID (Instances p) = map seqID ns \<and> sorted_wrt (<) ns)"
proof -
  note inv = pool_reach_inv [OF assms(1)]
  obtain ns where ns: "pInsts p = map seqID ns" "sorted_wrt (<) ns" "\<forall>n \<in> set ns. n < pNextSeq p"
    using pool_inv_ids [OF inv] by (auto simp: ids_inv_def)
  have snap: "snapshot p = pInsts p"
    using inv assms(2) by (simp add: pool_inv_def tables_inv_def snap_inv_def)
  have "SortFunc viewLess (iter (pInsts p)) = pInsts p"
    using ns assms(2,3) by (intro sort_views) (auto simp: perm_iter_def)
  moreover have "map iiID (Instances p) = pInsts p"
    by (simp add: Instances_def infoOf_def snap comp_def)
  ultimately show ?thesis using ns snap by auto
qed

theorem snapshot_creation_order_witness:
  "map iiID (Instances demo1) = [seqID 0, seqID 1] \<and>
   snapshot (publish rev demo1) = [seqID 0, seqID 1]"
  using snapshot_creation_order [OF reach_demo1, of rev] demo1_fields
  by (simp add: snapshot_def Instances_def infoOf_def)

section \<open>Decisions on a reported egress\<close>

text \<open>\<open>sent i c p q\<close>: command \<open>c\<close> was offered to \<open>i\<close>, and no other cell of the heap changed.\<close>

definition sent :: "ID \<Rightarrow> command \<Rightarrow> pool \<Rightarrow> pool \<Rightarrow> bool" where
  "sent i c p q \<longleftrightarrow> pStore q = (pStore p)(i \<mapsto> snd (send c (handleOf p i)))"

lemma sent_post_cmd: "pStore q = pStore p \<Longrightarrow> sent i c p (post_cmd i c q)"
  by (simp add: sent_def post_cmd_eq)

text \<open>C10: The decision on a ready report of a member, in a reachable pool. An egress without key
  but with a valid address: the old key is given up, the instance is marked as decided and
  confirmed. No address at all: a further probe, or a replay at the third report in a row;
  keys stay. A key that another instance holds: a replay; nothing else changes. Otherwise
  the instance gives up its old key, holds the new one, and is confirmed.\<close>

theorem handleReady_decision:
  fixes p i eg
  assumes "pool_reach raw p" and "i \<in> set (pInsts p)"
  defines "key \<equiv> keyOf p eg" and "q \<equiv> handleReady i eg p"
    and "n \<equiv> (case pEmptyByInst p i of None \<Rightarrow> 1 | Some m \<Rightarrow> m + 1)"
    and "released \<equiv> (\<lambda>k. if pKeysByInst p i = Some k then None else pUsedKeys p k)"
  shows "pInsts q = pInsts p \<and>
    (if key = '''' \<and> anyValid eg then
       sent i (cmd cmdConfirm) p q \<and> pKeysByInst q = (pKeysByInst p)(i \<mapsto> '''') \<and>
       pUsedKeys q = released \<and> pEmptyByInst q = (pEmptyByInst p)(i := None)
     else if key = '''' then
       pKeysByInst q = pKeysByInst p \<and> pUsedKeys q = pUsedKeys p \<and>
       (if n < 3 then sent i (cmd cmdReprobe) p q \<and> pEmptyByInst q = (pEmptyByInst p)(i \<mapsto> n)
        else sent i (cmd cmdReplay) p q \<and> pEmptyByInst q = (pEmptyByInst p)(i := None))
     else if \<exists>j. j \<noteq> i \<and> pKeysByInst p j = Some key then
       sent i (cmd cmdReplay) p q \<and> pKeysByInst q = pKeysByInst p \<and>
       pUsedKeys q = pUsedKeys p \<and> pEmptyByInst q = pEmptyByInst p
     else
       sent i (cmd cmdConfirm) p q \<and> pKeysByInst q = (pKeysByInst p)(i \<mapsto> key) \<and>
       pUsedKeys q = released(key \<mapsto> i) \<and> pEmptyByInst q = (pEmptyByInst p)(i := None))"
proof -
  note inv = pool_reach_inv [OF assms(1)]
  note kinv = pool_inv_keysD [OF inv] and ne = member_neq_Nil [OF inv assms(2)]
  have rel: "pUsedKeys (releaseKey i p) = released"
    unfolding released_def by (rule ext) (rule releaseKey_used [OF kinv ne])
  have taken: "takenByOther p key i \<longleftrightarrow> (\<exists>j. j \<noteq> i \<and> pKeysByInst p j = Some key)" if "key \<noteq> ''''"
    using that keys_inv_used [OF kinv, of key] keys_inv_inj [OF kinv, of i key]
    by (auto simp: takenByOther_def split: option.split)
  have n: "lookup0 0 (pEmptyByInst p) i + 1 = n"
    by (simp add: n_def lookup0_def split: option.split)
  consider (mark) "key = ''''" "anyValid eg" | (empty) "key = ''''" "\<not> anyValid eg"
    | (dup) "key \<noteq> ''''" "takenByOther p key i" | (unique) "key \<noteq> ''''" "\<not> takenByOther p key i"
    by blast
  then show ?thesis
  proof cases
    case mark
    then show ?thesis
      by (simp add: q_def handleReady_def Let_def whitelistedEmptyKey_def rel sent_post_cmd
          key_def [symmetric])
  next
    case empty
    then show ?thesis
      by (simp add: q_def handleReady_def Let_def whitelistedEmptyKey_def sent_post_cmd
          key_def [symmetric] n [simplified] probeFailLimit_def)
  next
    case dup
    then show ?thesis
      using taken by (simp add: q_def handleReady_def Let_def whitelistedEmptyKey_def sent_post_cmd
          key_def [symmetric])
  next
    case unique
    then have "\<not> (\<exists>j. j \<noteq> i \<and> pKeysByInst p j = Some key)" using taken by blast
    note other = this [THEN if_not_P]
    from unique show ?thesis
      unfolding other by (simp add: q_def handleReady_def Let_def whitelistedEmptyKey_def rel
          sent_post_cmd registerKey_def key_def [symmetric])
  qed
qed

theorem handleReady_decision_witness:
  "sent (seqID 1) (cmd cmdReplay) demo2 (handleReady (seqID 1) (demoEgress 7) demo2)"
  using handleReady_decision [OF reach_demo2, of "seqID 1" "demoEgress 7"] demo2_fields
  by (auto simp: demo_keyer demoEgress_key split: if_splits)

text \<open>An instance that keeps reporting an empty egress is probed again twice and replayed the
  third time, and then the count starts over; the key tables are not touched.\<close>

theorem empty_reports_escalate:
  fixes p i
  assumes "keyOf p zeroEgress = ''''" and "pEmptyByInst p i = None"
  defines "p1 \<equiv> handleReady i zeroEgress p"
  defines "p2 \<equiv> handleReady i zeroEgress p1"
  defines "p3 \<equiv> handleReady i zeroEgress p2"
  shows "sent i (cmd cmdReprobe) p p1 \<and> sent i (cmd cmdReprobe) p1 p2 \<and>
    sent i (cmd cmdReplay) p2 p3 \<and> pEmptyByInst p3 i = None \<and>
    pKeysByInst p3 = pKeysByInst p \<and> pUsedKeys p3 = pUsedKeys p"
proof -
  have zero: "\<not> whitelistedEmptyKey '''' zeroEgress"
    by (simp add: whitelistedEmptyKey_def zeroEgress_iff [symmetric])
  have step: "handleReady i zeroEgress q =
      (let n = lookup0 0 (pEmptyByInst q) i + 1
       in if n < 3 then post_cmd i (cmd cmdReprobe) (q\<lparr>pEmptyByInst := (pEmptyByInst q)(i \<mapsto> n)\<rparr>)
          else post_cmd i (cmd cmdReplay) (q\<lparr>pEmptyByInst := (pEmptyByInst q)(i := None)\<rparr>))"
    if "pOpts q = pOpts p" for q
    using assms(1) zero that by (simp add: handleReady_def probeFailLimit_def)
  have 1: "p1 = post_cmd i (cmd cmdReprobe) (p\<lparr>pEmptyByInst := (pEmptyByInst p)(i \<mapsto> 1)\<rparr>)"
    unfolding p1_def using step [of p] assms(2) by (simp add: lookup0_def)
  then have 2: "p2 = post_cmd i (cmd cmdReprobe) (p1\<lparr>pEmptyByInst := (pEmptyByInst p1)(i \<mapsto> 2)\<rparr>)"
    unfolding p2_def using step [of p1] by (simp add: lookup0_def numeral_2_eq_2)
  then have 3: "p3 = post_cmd i (cmd cmdReplay) (p2\<lparr>pEmptyByInst := (pEmptyByInst p2)(i := None)\<rparr>)"
    unfolding p3_def using step [of p2] 1 by (simp add: lookup0_def numeral_2_eq_2)
  have "sent i (cmd cmdReprobe) p p1" "sent i (cmd cmdReprobe) p1 p2" "sent i (cmd cmdReplay) p2 p3"
    by (subst 1 2 3, rule sent_post_cmd, simp)+
  with 1 2 3 show ?thesis by simp
qed

theorem empty_reports_escalate_witness:
  "sent (seqID 0) (cmd cmdReprobe) demo1 (handleReady (seqID 0) zeroEgress demo1)"
  using empty_reports_escalate [of demo1 "seqID 0"] demo1_fields
  by (simp add: demo_keyer zeroEgress_def)

section \<open>A serving pool\<close>

text \<open>The demo pool later on: both instances were confirmed, the second is draining.\<close>

definition demoServing :: pool where
  "demoServing = demo1\<lparr>pStore :=
     [seqID 0 \<mapsto> (demoHandle 0)\<lparr>inStatus := StatusNormal\<rparr>,
      seqID 1 \<mapsto> (demoHandle 1)\<lparr>inStatus := StatusDraining\<rparr>]\<rparr>"

lemma reach_store:
  assumes "pool_reach raw p" and "store_ext (pStore p) s"
  shows "pool_reach raw (p\<lparr>pStore := s\<rparr>)"
  using pool_reach.step [OF assms(1) pool_step.instances [OF assms(2), of "pReplays p"]] by simp

lemma reach_demoServing: "pool_reach demoOptions demoServing"
  unfolding demoServing_def
  by (rule reach_store [OF reach_demo1])
     (auto simp: demo1_fields store_ext_def handle_ext_def demoHandle_def)

lemma demoServing_fields:
  "pInsts demoServing = [seqID 0, seqID 1]" "pOpts demoServing = withDefaults demoOptions"
  "snapshot demoServing = [seqID 0, seqID 1]"
  "statusOf demoServing (seqID 0) = StatusNormal" "statusOf demoServing (seqID 1) = StatusDraining"
  "pMin demoServing = 2" "pMax demoServing = 3" "\<not> pClosed demoServing" "pCursor demoServing = 0"
  "pDialTotal demoServing = 0" "pDialFailures demoServing = 0" "pKeysByInst demoServing = Map.empty"
  "pUsedKeys demoServing = Map.empty" "pEvents demoServing = []" "pNextSeq demoServing = 2"
  "pStore demoServing = [seqID 0 \<mapsto> (demoHandle 0)\<lparr>inStatus := StatusNormal\<rparr>,
      seqID 1 \<mapsto> (demoHandle 1)\<lparr>inStatus := StatusDraining\<rparr>]"
  using demo1_fields by (simp_all add: demoServing_def snapshot_def)

end
