(* ===== verification/InstanceProps.thy ===== *)
theory InstanceProps
  imports ScriptInv PoolProps
begin

text \<open>
  Properties of an instance: the protocol of its goroutine under any script of the
  environment, what the pool may rely on, endpoint rotation, the back-off, recovery after
  failures, the command queue, and two corners in which a command is lost.
\<close>

section \<open>Every run\<close>

lemma recoverManage_frame:
  "iRemoveOk (recoverManage room i) = iRemoveOk i" "iEpIdx (recoverManage room i) = iEpIdx i"
  "iEndpoints (recoverManage room i) = iEndpoints i"
  by (simp_all add: recoverManage_def finalize_def removeState_def closeConns_def
      closeClient_def Let_def split: option.split)

definition demoConfig :: instConfig where
  "demoConfig = \<lparr>icID = ''0'', icProxyAddr = ''127.0.0.1:51367'', icEndpoints = [''a:1'', ''b:2''],
     icEndpointIdx = 0, icCredSource = False, icBackoffStart = second, icBackoffMax = 60 * second,
     icDrainTimeout = 10 * second\<rparr>"

text \<open>A run that comes up at the second attempt and is confirmed.\<close>

definition demoScript :: "input list" where
  "demoScript = [InSem, InClient NewClientErr, InTimer, InSem, InClient (Started (Some ''state'')),
     InProbe (ProbeReturns \<lparr>eV4 = AddrV4 192 0 2 7, eV6 = AddrZero\<rparr>), InSent, InCmd (cmd cmdConfirm)]"

text \<open>C3: Whatever the environment does, the management goroutine never leaves a panic unhandled.
  Wherever it waits, the trace of its visible actions is accepted by the protocol monitor
  (state changes follow the documented graph, at most one client is open, a ready report is
  sent only while probing with a client running and after the old key was given up, a
  release report only in its state) and agrees with its fields; a disabled instance has no
  client, a normal or draining one has one; and the global semaphore is held only between
  asking for a client and its answer. When it ends everything has been released.\<close>

theorem goroutine_protocol:
  "case goroutine room (newInstance cfg now f rm script) of
     Panic j \<Rightarrow> False
   | Ret u j \<Rightarrow> inStopped j \<and> iClient j = None \<and> inConns j = {} \<and> \<not> iSemHeld j \<and>
       (rm \<longrightarrow> iStateFile j = None)
   | Parked j \<Rightarrow>
       (\<exists>m. run_mon mon0 (trace j) = Some m \<and> mStatus m = inStatus j \<and> mOpen m = iClient j) \<and>
       (inStatus j = StatusDisabled \<longrightarrow> iClient j = None) \<and>
       (inStatus j \<in> {StatusNormal, StatusDraining} \<longrightarrow> iClient j \<noteq> None) \<and>
       (iSemHeld j \<longrightarrow> (\<exists>ep file. last (trace j) = NewClient ep file))"
proof (cases "goroutine room (newInstance cfg now f rm script)")
  case (Ret u j)
  have "removes rm (newInstance cfg now f rm script)"
    by (simp add: newInstance_def handle.extend_def)
  from removal.goroutine_kept [OF this, of room] Ret have "iRemoveOk j = rm"
    by (auto simp: recoverManage_frame)
  with goroutine_ok [of room cfg now f rm script] Ret show ?thesis by (auto simp: finished_def)
next
  case (Parked j)
  with goroutine_ok [of room cfg now f rm script] show ?thesis
    by (auto simp: wait_ok_def rest_ok_def linked_def)
next
  case (Panic j)
  then show ?thesis using goroutine_no_panic by blast
qed

text \<open>Evaluation of a run over a concrete script.\<close>

lemmas run_simps = goroutine_def manage_def ensureClient.simps waitBackoff.simps manageLoop.simps
  waitIfPositive_def provisionCredential_def startUnderSem_def acquireSem_def releaseSem_def
  probeAndReport_def emit_def handle_cmd_def closeClient_def dropIdentity_def nextEndpoint_def
  removeState_def backoffDelay_def backoff_value_def wrap64_def backoffShiftLimit_def watchRun_def
  setStatus_def currentEndpoint_def newInstance_def newHandle_def handle.extend_def cmd_def
  act_def Let_def

lemma demo_run:
  "\<exists>j. goroutine True (newInstance demoConfig 0 None True demoScript) = Parked j \<and>
     inStatus j = StatusNormal \<and> iEpIdx j = 1 \<and>
     trace j = [NewClient ''a:1'' None, RemoveState, Wait second, NewClient ''b:2'' None, ClientUp 0,
       Emit evReady \<lparr>eV4 = AddrV4 192 0 2 7, eV6 = AddrZero\<rparr>, SetStatus StatusNormal]"
  by (simp add: run_simps demoConfig_def demoScript_def zeroEgress_def)

lemma goroutine_protocol_witness:
  "\<exists>j. goroutine True (newInstance demoConfig 0 None True demoScript) = Parked j \<and>
     inStatus j = StatusNormal \<and> iClient j \<noteq> None \<and>
     (\<exists>m. run_mon mon0 (trace j) = Some m \<and> mStatus m = StatusNormal)"
proof -
  obtain j where j: "goroutine True (newInstance demoConfig 0 None True demoScript) = Parked j"
      "inStatus j = StatusNormal"
    using demo_run by blast
  show ?thesis
    using goroutine_protocol [where room = True and cfg = demoConfig and now = 0 and f = None
        and rm = True and script = demoScript]
    by (intro exI [of _ j]) (auto simp: j)
qed

section \<open>What the coordinator relies on\<close>

fun stop_report :: "action \<Rightarrow> bool" where
  "stop_report (Emit k eg) = (k = evStopped)"
| "stop_report (EmitAbandoned k) = (k = evStopped)"
| "stop_report _ = False"

lemma running_no_report: "running h i \<Longrightarrow> filter stop_report (trace i) = []"
proof -
  assume r: "running h i"
  have "\<not> stop_report a" if "a \<in> set (trace i)" for a
    using r that by (cases a) (auto simp: running_def)
  then show ?thesis by (simp add: filter_empty_conv)
qed

lemma recoverManage_trace:
  "\<exists>as. filter stop_report as = [] \<and>
     trace (recoverManage room k) =
       trace k @ as @ [if room then Emit evStopped zeroEgress else EmitAbandoned evStopped]"
  by (cases "iClient k")
     (auto simp: recoverManage_def finalize_def removeState_def closeConns_def closeClient_def Let_def
       act_def)

lemma recoverManage_handle:
  "inID (recoverManage room k) = inID k" "inCreatedAt (recoverManage room k) = inCreatedAt k"
  "inProxyAddr (recoverManage room k) = inProxyAddr k" "inStopped (recoverManage room k)"
  by (auto simp: recoverManage_def finalize_def removeState_def closeConns_def closeClient_def Let_def
       act_def split: option.split)

text \<open>C12: What the coordinator's model assumes of the members between its own steps holds of the
  instances: identity, creation time and proxy address never change, an instance that still
  runs is not marked as stopped and has reported no stop, and one that ended is marked and has
  made exactly one attempt to report it, as its last action; that attempt is dropped exactly
  when the event channel has no room.\<close>

theorem goroutine_interface:
  "case goroutine room (newInstance cfg now f rm script) of
     Panic j \<Rightarrow> False
   | Ret u j \<Rightarrow> handle_ext (newHandle cfg now) (handle.truncate j) \<and> inStopped j \<and>
       filter stop_report (trace j) = [last (trace j)] \<and>
       last (trace j) = (if room then Emit evStopped zeroEgress else EmitAbandoned evStopped)
   | Parked j \<Rightarrow> handle_ext (newHandle cfg now) (handle.truncate j) \<and> \<not> inStopped j \<and>
       filter stop_report (trace j) = []"
proof -
  have start: "running (newHandle cfg now) (newInstance cfg now f rm script)"
    by (simp add: running_def newInstance_def handle.extend_def newHandle_def handle_ext_def
        handle.truncate_def)
  show ?thesis
  proof (cases "goroutine room (newInstance cfg now f rm script)")
    case (Ret u j)
    with runs.goroutine_kept [OF start, of room] obtain k
      where k: "running (newHandle cfg now) k" "j = recoverManage room k" by auto
    obtain as where "filter stop_report as = []" "trace j =
        trace k @ as @ [if room then Emit evStopped zeroEgress else EmitAbandoned evStopped]"
      using recoverManage_trace [of room k] k(2) by blast
    with k Ret running_no_report [OF k(1)] show ?thesis
      by (auto simp: running_def handle_ext_def handle.truncate_def recoverManage_handle)
  next
    case (Parked j)
    with runs.goroutine_kept [OF start, of room] running_no_report show ?thesis
      by (auto simp: running_def)
  next
    case (Panic j)
    then show ?thesis using goroutine_no_panic by blast
  qed
qed

section \<open>Endpoints\<close>

text \<open>C30: Every client is built for the endpoint that the start index and the number of
  identities dropped so far select from the rotation pool (none when the pool is empty), and
  only dropping the identity advances the index; the deletion at the very end does not.\<close>

theorem endpoint_rotation:
  "case goroutine room (newInstance cfg now f rm script) of
     Panic j \<Rightarrow> False
   | Ret u j \<Rightarrow> endpoints_ok (icEndpoints cfg) (icEndpointIdx cfg) (trace j) \<and>
       iEpIdx j + 1 = icEndpointIdx cfg + drops (trace j)
   | Parked j \<Rightarrow> endpoints_ok (icEndpoints cfg) (icEndpointIdx cfg) (trace j) \<and>
       iEpIdx j = icEndpointIdx cfg + drops (trace j)"
proof -
  have start: "rotates (icEndpoints cfg) (icEndpointIdx cfg) (newInstance cfg now f rm script)"
    by (simp add: rotates_def newInstance_def handle.extend_def newHandle_def drops_def)
  show ?thesis
  proof (cases "goroutine room (newInstance cfg now f rm script)")
    case (Ret u j)
    with endpoints.goroutine_kept [OF start, of room] obtain k
      where k: "rotates (icEndpoints cfg) (icEndpointIdx cfg) k" "j = recoverManage room k" by auto
    have "\<exists>as. trace j = trace k @ as \<and> endpoints_ok eps n as \<and> drops as = 1" for eps n
      unfolding k(2)
      by (cases "iClient k"; cases room)
         (auto simp: recoverManage_def finalize_def removeState_def closeConns_def closeClient_def
           Let_def act_def drops_def)
    then obtain as where as: "trace j = trace k @ as" "drops as = 1"
        "endpoints_ok (icEndpoints cfg) (icEndpointIdx cfg + drops (trace k)) as"
      by blast
    show ?thesis
      using k(1) unfolding Ret by (simp add: as k(2) [symmetric] rotates_def endpoints_ok_append)
        (simp add: k(2) recoverManage_frame)
  next
    case (Parked j)
    with endpoints.goroutine_kept [OF start, of room] show ?thesis by (simp add: rotates_def)
  next
    case (Panic j)
    then show ?thesis using goroutine_no_panic by blast
  qed
qed

section \<open>Back-off\<close>

lemma wrap64_id: "0 \<le> x \<Longrightarrow> x < 2 ^ 63 \<Longrightarrow> wrap64 x = x"
  by (simp add: wrap64_def)

lemma scaled_le:
  assumes "0 < (s::int)" "m \<le> n"
  shows "s * 2 ^ m \<le> s * 2 ^ n"
  using assms by (simp add: power_increasing)

text \<open>C31: The back-off is the start value doubled per failure up to thirty times and capped at
  the maximum, as long as the start value is below 2 to the 33 nanoseconds (8.6 seconds): then
  it is positive, never above the maximum and never decreasing in the number of failures.\<close>

theorem backoff_closed_form:
  assumes "0 < start" and "start \<le> mx" and "start < 2 ^ 33"
  shows "backoff_value start mx n = min mx (start * 2 ^ min n 30) \<and>
    backoff_value start mx n \<le> backoff_value start mx (Suc n)"
proof -
  have closed: "backoff_value start mx k = min mx (start * 2 ^ min k 30)" for k
  proof -
    have "start * 2 ^ min k 30 \<le> start * 2 ^ 30"
      using assms(1) by (intro scaled_le) simp_all
    also have "\<dots> < 2 ^ 63" using assms(3) by simp
    finally have "wrap64 (start * 2 ^ min k 30) = start * 2 ^ min k 30"
      using assms(1) by (intro wrap64_id) simp_all
    moreover have "0 < start * 2 ^ min k 30" using assms(1) by simp
    ultimately show ?thesis
      by (simp add: backoff_value_def backoffShiftLimit_def Let_def min_def [of mx])
  qed
  have "start * 2 ^ min n 30 \<le> start * 2 ^ min (Suc n) 30"
    by (rule scaled_le [OF assms(1)]) simp
  then show ?thesis
    unfolding closed by (intro conjI refl min.mono order_refl)
qed

lemma backoff_closed_form_witness:
  "backoff_value second (60 * second) 5 = 32 * second \<and>
   backoff_value second (60 * second) 6 = 60 * second"
  using backoff_closed_form [of second "60 * second" 5] backoff_closed_form [of second "60 * second" 6]
  by simp

definition slowOptions :: Options where
  "slowOptions =
     demoOptions\<lparr>oReplayBackoffStart := 2 ^ 34 + 1, oReplayBackoffMax := 86400 * second\<rparr>"

lemma slowOptions_valid: "Validate (withDefaults slowOptions) = None"
proof -
  have "validateHostPort defaultListenBase = None"
    using demo_alloc validateHostPort_allocator by blast
  then show ?thesis
    unfolding Validate_withDefaults
    by (simp add: slowOptions_def demoOptions_def if_empty_def if_not_positive_def default_defs
        maxListenPort_def)
qed

lemma slowOptions_backoff:
  "oReplayBackoffStart (withDefaults slowOptions) = 2 ^ 34 + 1"
  "oReplayBackoffMax (withDefaults slowOptions) = 86400 * second"
  by (simp_all add: slowOptions_def demoOptions_def withDefaults_def if_not_positive_def)


end
