(* ===== verification/Shutdown.thy ===== *)
theory Shutdown
  imports InstanceProps
begin

text \<open>
  Every instance ends once its context is cancelled. The environment of a shutdown offers
  nothing but the cancelled context and the answer of the call the goroutine is in: no
  timer, no command, no slot of the semaphore, and nobody who receives events. The proof
  follows the code: \<open>resumes C f i\<close> says that a step \<open>f\<close>, started in \<open>i\<close>, treats further
  input as the continuation of its script and, where it waits at the end of the script, can
  be brought to its end by answers of the kind \<open>C\<close>; the relation is closed under sequencing.
\<close>

section \<open>Continuing a script\<close>

definition feed :: "input list \<Rightarrow> inst \<Rightarrow> inst" where
  "feed u i = i\<lparr>inputs := inputs i @ u\<rparr>"

lemma feed_simps [simp]:
  "inputs (feed u i) = inputs i @ u" "iPending (feed u i) = iPending i"
  "inStatus (feed u i) = inStatus i" "iCredSource (feed u i) = iCredSource i"
  "iStateFile (feed u i) = iStateFile i" "iWatched (feed u i) = iWatched i"
  "iGen (feed u i) = iGen i" "iClient (feed u i) = iClient i"
  "feed [] i = i" "feed u (feed v i) = feed (v @ u) i"
  by (simp_all add: feed_def)

text \<open>Every operation that does not look at the script commutes with a continuation.\<close>

lemma feed_ops [simp]:
  "act a (feed u i) = feed u (act a i)" "setStatus st (feed u i) = feed u (setStatus st i)"
  "closeConns (feed u i) = feed u (closeConns i)" "closeClient (feed u i) = feed u (closeClient i)"
  "dropIdentity k (feed u i) = feed u (dropIdentity k i)" "watchRun (feed u i) = feed u (watchRun i)"
  "releaseSem (feed u i) = feed u (releaseSem i)" "countReplay (feed u i) = feed u (countReplay i)"
  "fst (backoffDelay (feed u i)) = fst (backoffDelay i)"
  "snd (backoffDelay (feed u i)) = feed u (snd (backoffDelay i))"
  "currentEndpoint (feed u i) = currentEndpoint i" "drainTimeoutOf d (feed u i) = drainTimeoutOf d i"
  "(feed u i)\<lparr>iClient := x\<rparr> = feed u (i\<lparr>iClient := x\<rparr>)"
  "(feed u i)\<lparr>iPending := y\<rparr> = feed u (i\<lparr>iPending := y\<rparr>)"
  "(feed u i)\<lparr>inAwaitConfirm := b\<rparr> = feed u (i\<lparr>inAwaitConfirm := b\<rparr>)"
  "(feed u i)\<lparr>iBackoffN := n\<rparr> = feed u (i\<lparr>iBackoffN := n\<rparr>)"
  "(feed u i)\<lparr>iWatched := w\<rparr> = feed u (i\<lparr>iWatched := w\<rparr>)"
  "(feed u i)\<lparr>inputs := is\<rparr> = i\<lparr>inputs := is\<rparr>"
  by (cases i; simp add: feed_def act_def setStatus_def closeConns_def closeClient_def dropIdentity_def
      nextEndpoint_def removeState_def watchRun_def releaseSem_def countReplay_def backoffDelay_def
      currentEndpoint_def drainTimeoutOf_def Let_def split: option.split)+

definition resumes :: "(input \<Rightarrow> bool) \<Rightarrow> (inst \<Rightarrow> 'a outcome) \<Rightarrow> inst \<Rightarrow> bool" where
  "resumes C f i \<longleftrightarrow>
     (case f i of
        Ret a j \<Rightarrow> load j \<le> load i \<and> length (inputs j) \<le> length (inputs i) \<and>
          (\<forall>u. f (feed u i) = Ret a (feed u j))
      | Panic j \<Rightarrow> \<forall>u. \<exists>k. f (feed u i) = Panic k
      | Parked j \<Rightarrow> length (inputs j) \<le> length (inputs i) \<and>
          (inputs j = [] \<longrightarrow> (\<exists>t. list_all C t \<and>
             ((\<exists>a k. inputs k = [] \<and> load k \<le> load i \<and> (\<forall>u. f (feed (t @ u) i) = Ret a (feed u k))) \<or>
              (\<forall>u. \<exists>k. f (feed (t @ u) i) = Panic k)))))"

lemma resumes_Ret:
  "resumes C f i \<Longrightarrow> f i = Ret a j \<Longrightarrow>
   load j \<le> load i \<and> length (inputs j) \<le> length (inputs i) \<and> (\<forall>u. f (feed u i) = Ret a (feed u j))"
  by (simp add: resumes_def)

text \<open>A step that first moves to another state without reading the script.\<close>

lemma resumes_via:
  assumes "resumes C f h" and "\<And>u. F (feed u i) = f (feed u h)"
    and "load h \<le> load i" and "length (inputs h) \<le> length (inputs i)"
  shows "resumes C F i"
proof -
  have F: "F i = f h" using assms(2) [of "[]"] by simp
  show ?thesis
    using assms(1,3,4) unfolding resumes_def F assms(2)
    by (auto split: outcome.splits intro: order_trans)
     (metis order_trans)+
qed

lemma resumes_value:
  assumes "\<And>u. F (feed u i) = Ret a (feed u h)"
    and "load h \<le> load i" and "length (inputs h) \<le> length (inputs i)"
  shows "resumes C F i"
  using assms(1) [of "[]"] assms by (simp add: resumes_def)

text \<open>Sequencing.\<close>

lemma resumes_bind:
  assumes f: "resumes C f i"
    and g: "\<And>a j. f i = Ret a j \<Longrightarrow> resumes C (g a) j"
    and rest: "\<And>a k. inputs k = [] \<Longrightarrow> load k \<le> load i \<Longrightarrow> resumes C (g a) k"
  shows "resumes C (\<lambda>i. bindO (f i) g) i"
proof (cases "f i")
  case (Ret a j)
  note fj = resumes_Ret [OF f Ret]
  from g [OF Ret] show ?thesis
  proof (rule resumes_via)
    show "bindO (f (feed u i)) g = g a (feed u j)" for u using fj by simp
  qed (use fj in simp_all)
next
  case (Panic j)
  then have "\<forall>u. \<exists>k. f (feed u i) = Panic k" using f by (simp add: resumes_def)
  then have "\<forall>u. \<exists>k. bindO (f (feed u i)) g = Panic k" by (metis bindO.simps(3))
  with Panic show ?thesis by (simp add: resumes_def)
next
  case (Parked j)
  show ?thesis
  proof (cases "inputs j = []")
    case False
    with f Parked show ?thesis by (simp add: resumes_def)
  next
    case True
    with f Parked obtain t where t: "list_all C t" and
      r: "(\<exists>a k. inputs k = [] \<and> load k \<le> load i \<and> (\<forall>u. f (feed (t @ u) i) = Ret a (feed u k))) \<or>
          (\<forall>u. \<exists>k. f (feed (t @ u) i) = Panic k)" by (auto simp: resumes_def)
    from r show ?thesis
    proof (elim disjE exE conjE)
      assume p: "\<forall>u. \<exists>k. f (feed (t @ u) i) = Panic k"
      then have "\<forall>u. \<exists>k. bindO (f (feed (t @ u) i)) g = Panic k" by (metis bindO.simps(3))
      with t True Parked show ?thesis by (auto simp: resumes_def)
    next
      fix a k
      assume k: "inputs k = []" "load k \<le> load i" and fk: "\<forall>u. f (feed (t @ u) i) = Ret a (feed u k)"
      note gk = rest [OF k, of a]
      show ?thesis
      proof (cases "g a k")
        case (Ret b l)
        with resumes_Ret [OF gk Ret] k fk t True Parked show ?thesis
          by (auto simp: resumes_def intro!: exI [of _ t] disjI1 exI [of _ l])
      next
        case (Panic l)
        with gk k fk t True Parked show ?thesis
          by (auto simp: resumes_def intro!: exI [of _ t])
      next
        case g': (Parked l)
        with gk k have "inputs l = []" by (simp add: resumes_def)
        with gk g' obtain t' where t': "list_all C t'" and
          r': "(\<exists>a' k'. inputs k' = [] \<and> load k' \<le> load k \<and> (\<forall>u. g a (feed (t' @ u) k) = Ret a' (feed u k'))) \<or>
            (\<forall>u. \<exists>k'. g a (feed (t' @ u) k) = Panic k')" by (auto simp: resumes_def)
        have b: "bindO (f (feed ((t @ t') @ u) i)) g = g a (feed (t' @ u) k)" for u
          using fk by simp
        have tt: "list_all C (t @ t')" using t t' by simp
        from r' have "(\<exists>a' k'. inputs k' = [] \<and> load k' \<le> load i \<and>
            (\<forall>u. bindO (f (feed ((t @ t') @ u) i)) g = Ret a' (feed u k'))) \<or>
            (\<forall>u. \<exists>k'. bindO (f (feed ((t @ t') @ u) i)) g = Panic k')"
          unfolding b using k(2) by (meson order_trans)
        with tt have e: "\<exists>t. list_all C t \<and> ((\<exists>a' k'. inputs k' = [] \<and> load k' \<le> load i \<and>
            (\<forall>u. bindO (f (feed (t @ u) i)) g = Ret a' (feed u k'))) \<or>
            (\<forall>u. \<exists>k'. bindO (f (feed (t @ u) i)) g = Panic k'))" by (intro exI [of _ "t @ t'"] conjI)
        show ?thesis unfolding resumes_def using e by (simp add: True Parked)
      qed
    qed
  qed
qed

section \<open>The steps of the goroutine\<close>

text \<open>What a shutdown offers: the cancelled context, and whatever the call answers that the
  goroutine is in (a credential source that has no identity to give).\<close>

fun closing :: "client_answer \<Rightarrow> probe_answer \<Rightarrow> input \<Rightarrow> bool" where
  "closing c p InDone = True"
| "closing c p (InAcquire a) = (a = AcquireNil)"
| "closing c p (InClient a) = (a = c)"
| "closing c p (InProbe a) = (a = p)"
| "closing c p _ = False"

text \<open>A step that waits at the end of its script and ends with the answers \<open>t\<close>.\<close>

lemma resumes_waits:
  assumes "f i = Parked j" and "length (inputs j) \<le> length (inputs i)" and "list_all C t"
    and "\<And>u. f (feed (t @ u) i) = Ret a (feed u k)" and "inputs k = []" and "load k \<le> load i"
  shows "resumes C f i"
  using assms unfolding resumes_def by (auto intro!: exI [of _ t] disjI1)

lemma resumes_panics:
  assumes "f i = Parked j" and "inputs j = []" and "list_all C t"
    and "\<And>u. \<exists>k. f (feed (t @ u) i) = Panic k"
  shows "resumes C f i"
  using assms unfolding resumes_def by (auto intro!: exI [of _ t] disjI2)

lemma resumes_stuck:
  "f i = Parked j \<Longrightarrow> inputs j \<noteq> [] \<Longrightarrow> length (inputs j) \<le> length (inputs i) \<Longrightarrow> resumes C f i"
  by (simp add: resumes_def)

lemma feed_nil: "inputs i = [] \<Longrightarrow> feed u i = i\<lparr>inputs := u\<rparr>"
  by (simp add: feed_def)

lemma load_inputs: "load (i\<lparr>inputs := is\<rparr>) = length is + length (iPending i)"
  by (simp add: load_def)

lemma feed_inputs: "feed u (i\<lparr>inputs := is\<rparr>) = i\<lparr>inputs := is @ u\<rparr>"
  by (simp add: feed_def)

text \<open>Normal form: the script is written first.\<close>

lemma script_first:
  "(act a i)\<lparr>inputs := is\<rparr> = act a (i\<lparr>inputs := is\<rparr>)"
  "(releaseSem i)\<lparr>inputs := is\<rparr> = releaseSem (i\<lparr>inputs := is\<rparr>)"
  "i\<lparr>inEgress := e, inputs := is\<rparr> = i\<lparr>inputs := is, inEgress := e\<rparr>"
  "i\<lparr>inAwaitConfirm := b, inputs := is\<rparr> = i\<lparr>inputs := is, inAwaitConfirm := b\<rparr>"
  "i\<lparr>iSemHeld := b, inputs := is\<rparr> = i\<lparr>inputs := is, iSemHeld := b\<rparr>"
  "i\<lparr>iStateFile := sf, inputs := is\<rparr> = i\<lparr>inputs := is, iStateFile := sf\<rparr>"
  "i\<lparr>iClients := n, inputs := is\<rparr> = i\<lparr>inputs := is, iClients := n\<rparr>"
  "i\<lparr>iPending := cs, inputs := is\<rparr> = i\<lparr>inputs := is, iPending := cs\<rparr>"
  "i\<lparr>iWatched := w, inputs := is\<rparr> = i\<lparr>inputs := is, iWatched := w\<rparr>"
  by (simp_all add: act_def releaseSem_def)

lemma emit_resumes: "resumes (closing c p) (emit k eg) i"
proof (cases "inputs i")
  case Nil
  then show ?thesis
    by (intro resumes_waits [where t = "[InDone]" and a = "()" and k = "act (EmitAbandoned k) i" and j = i])
       (simp_all add: emit_def feed_def load_def script_first)
next
  case (Cons x xs)
  show ?thesis
  proof (cases "x = InSent \<or> x = InDone")
    case True
    then show ?thesis
      using Cons
      by (intro resumes_value [where a = "()" and h = "act (if x = InSent then Emit k eg else EmitAbandoned k)
            (i\<lparr>inputs := xs\<rparr>)"])
         (auto simp: emit_def load_def feed_def script_first)
  next
    case False
    with Cons show ?thesis
      by (intro resumes_stuck [where j = i]) (auto simp: emit_def split: input.split)
  qed
qed

lemma probeAndReport_resumes: "resumes (closing c p) probeAndReport i"
proof (cases "inputs i")
  case Nil
  show ?thesis
  proof (cases p)
    case ProbePanic
    with Nil show ?thesis
      by (auto simp: resumes_def probeAndReport_def feed_nil intro!: exI [of _ "[InProbe p]"])
  next
    case (ProbeReturns eg)
    define k where "k = act (EmitAbandoned evReady)
      ((if eg \<noteq> zeroEgress then i\<lparr>inEgress := Some eg\<rparr> else i)\<lparr>inAwaitConfirm := True\<rparr>)"
    with Nil ProbeReturns show ?thesis
      by (intro resumes_waits [where t = "[InProbe p, InDone]" and a = "()" and k = k and j = i])
         (auto simp: probeAndReport_def emit_def feed_def load_def Let_def script_first)
  qed
next
  case (Cons x xs)
  show ?thesis
  proof (cases x)
    case (InProbe q)
    show ?thesis
    proof (cases q)
      case ProbePanic
      with Cons InProbe show ?thesis by (simp add: resumes_def probeAndReport_def)
    next
      case (ProbeReturns eg)
      define h where "h = (if eg \<noteq> zeroEgress then i\<lparr>inputs := xs, inEgress := Some eg\<rparr>
        else i\<lparr>inputs := xs\<rparr>)\<lparr>inAwaitConfirm := True\<rparr>"
      show ?thesis
      proof (rule resumes_via [OF emit_resumes])
        show "probeAndReport (feed u i) = emit evReady eg (feed u h)" for u
          using Cons InProbe ProbeReturns by (auto simp: probeAndReport_def Let_def h_def feed_def script_first)
      qed (use Cons in \<open>auto simp: h_def load_def\<close>)
    qed
  qed (use Cons in \<open>auto intro!: resumes_stuck [where j = i] simp: probeAndReport_def\<close>)
qed

lemma waitBackoff_resumes: "resumes (closing c p) (waitBackoff d) i"
proof (induction d i rule: waitBackoff.induct)
  case (1 d i)
  note unfolds = waitBackoff.simps [of d i] waitBackoff.simps [of d "i\<lparr>inputs := is\<rparr>" for "is"]
    feed_def script_first
  show ?case
  proof (cases "inputs i")
    case Nil
    then show ?thesis
      by (intro resumes_waits [where t = "[InDone]" and a = False and k = "act (Wait d) i"
            and j = "act (Wait d) i"])
         (simp_all add: unfolds load_def)
  next
    case (Cons x xs)
    show ?thesis
    proof (cases x)
      case InTimer
      with Cons show ?thesis
        by (intro resumes_value [where a = True and h = "(act (Wait d) i)\<lparr>inputs := xs\<rparr>"])
           (simp_all add: unfolds load_def)
    next
      case InDone
      with Cons show ?thesis
        by (intro resumes_value [where a = False and h = "(act (Wait d) i)\<lparr>inputs := xs\<rparr>"])
           (simp_all add: unfolds load_def)
    next
      case (InCmd q)
      show ?thesis
      proof (cases "cKind q = cmdStop")
        case True
        with Cons InCmd show ?thesis
          by (intro resumes_value [where a = False and h = "(act (Wait d) i)\<lparr>inputs := xs\<rparr>"])
             (simp_all add: unfolds load_def)
      next
        case False
        note ih = "1.IH" [OF refl Cons InCmd False]
        show ?thesis
          by (rule resumes_via [OF ih]) (use Cons InCmd False in \<open>auto simp: unfolds load_def feed_def\<close>)
      qed
    qed (use Cons in \<open>auto intro!: resumes_stuck [where j = "act (Wait d) i"] simp: unfolds\<close>)
  qed
qed

lemma acquireSem_resumes: "resumes (closing c p) acquireSem i"
proof (cases "inputs i")
  case Nil
  then show ?thesis
    by (intro resumes_waits [where t = "[InDone]" and a = False and k = i and j = i])
       (simp_all add: acquireSem_def feed_nil)
next
  case (Cons x xs)
  show ?thesis
  proof (cases "x = InSem \<or> x = InDone")
    case True
    with Cons show ?thesis
      by (intro resumes_value [where a = "x = InSem"
            and h = "if x = InSem then i\<lparr>inputs := xs, iSemHeld := True\<rparr> else i\<lparr>inputs := xs\<rparr>"])
         (auto simp: acquireSem_def load_def feed_def)
  next
    case False
    with Cons show ?thesis
      by (intro resumes_stuck [where j = i]) (auto simp: acquireSem_def split: input.split)
  qed
qed

lemma provisionCredential_resumes: "resumes (closing c p) provisionCredential i"
proof (cases "iCredSource i \<and> iStateFile i = None")
  case False
  then show ?thesis
    by (intro resumes_value [where a = None and h = i]) (auto simp: provisionCredential_def)
next
  case asks: True
  show ?thesis
  proof (cases "inputs i")
    case Nil
    with asks show ?thesis
      by (intro resumes_waits [where t = "[InAcquire AcquireNil]" and a = None and k = i and j = i])
         (simp_all add: provisionCredential_def feed_def)
  next
    case (Cons x xs)
    show ?thesis
    proof (cases x)
      case (InAcquire ans)
      show ?thesis
      proof (cases ans)
        case AcquirePanic
        with Cons InAcquire asks show ?thesis by (simp add: resumes_def provisionCredential_def)
      next
        case (AcquireCred cr fs)
        obtain err sf where w: "writeCredentialState fs cr None = (err, sf)" by fastforce
        show ?thesis
          by (rule resumes_value [where a = "map_option WriteFailed err"
                and h = "i\<lparr>inputs := xs, iStateFile := sf\<rparr>"])
             (use Cons InAcquire AcquireCred asks w in
               \<open>auto simp: provisionCredential_def load_def feed_def script_first\<close>)
      qed (rule resumes_value [where h = "i\<lparr>inputs := xs\<rparr>"],
           use Cons InAcquire asks in \<open>auto simp: provisionCredential_def load_def feed_def\<close>)+
    qed (use Cons asks in \<open>auto intro!: resumes_stuck [where j = i] simp: provisionCredential_def\<close>)
  qed
qed

text \<open>\<open>startUnderSem\<close> once the semaphore is held.\<close>

definition underSem :: "inst \<Rightarrow> (nat option \<times> bool) outcome" where
  "underSem i1 =
     (let i2 = act (NewClient (currentEndpoint i1) (iStateFile i1)) i1;
          c = iClients i2
      in case inputs i1 of
           InClient ClientPanic # is \<Rightarrow> Panic (releaseSem (i2\<lparr>inputs := is\<rparr>))
         | InClient NewClientErr # is \<Rightarrow> Ret (None, True) (releaseSem (i2\<lparr>inputs := is\<rparr>))
         | InClient (StartErr file) # is \<Rightarrow>
             Ret (None, True) (releaseSem (act (CloseClient c)
               (i2\<lparr>inputs := is, iStateFile := file, iClients := c + 1\<rparr>)))
         | InClient (Started file) # is \<Rightarrow>
             Ret (Some c, True) (releaseSem (act (ClientUp c)
               (i2\<lparr>inputs := is, iStateFile := file, iClients := c + 1\<rparr>)))
         | _ \<Rightarrow> Parked i2)"

lemma startUnderSem_split:
  "startUnderSem i =
     bindO (acquireSem i) (\<lambda>got i1. if \<not> got then Ret (None, False) i1 else underSem i1)"
  unfolding startUnderSem_def underSem_def by (rule refl)

lemma underSem_answer:
  "a \<noteq> ClientPanic \<Longrightarrow>
   \<exists>r k. inputs k = is \<and> iPending k = iPending i \<and>
     (\<forall>u. underSem (i\<lparr>inputs := InClient a # is @ u\<rparr>) = Ret r (feed u k))"
proof (cases a)
  case NewClientErr
  then show ?thesis
    by (intro exI [of _ "(None, True)"] exI [of _ "releaseSem (act (NewClient (currentEndpoint i) (iStateFile i))
        (i\<lparr>inputs := is\<rparr>))"])
       (auto simp: underSem_def Let_def feed_def script_first releaseSem_def currentEndpoint_def)
next
  case (StartErr sf)
  then show ?thesis
    by (intro exI [of _ "(None, True)"] exI [of _ "releaseSem (act (CloseClient (iClients i))
        ((act (NewClient (currentEndpoint i) (iStateFile i)) i)
          \<lparr>inputs := is, iStateFile := sf, iClients := iClients i + 1\<rparr>))"])
       (auto simp: underSem_def Let_def feed_def script_first releaseSem_def currentEndpoint_def)
next
  case (Started sf)
  then show ?thesis
    by (intro exI [of _ "(Some (iClients i), True)"] exI [of _ "releaseSem (act (ClientUp (iClients i))
        ((act (NewClient (currentEndpoint i) (iStateFile i)) i)
          \<lparr>inputs := is, iStateFile := sf, iClients := iClients i + 1\<rparr>))"])
       (auto simp: underSem_def Let_def feed_def script_first releaseSem_def currentEndpoint_def)
qed simp

lemma underSem_resumes: "resumes (closing c p) underSem i"
proof (cases "inputs i")
  case Nil
  then have park: "\<exists>j. underSem i = Parked j \<and> inputs j = []"
    by (simp add: underSem_def Let_def)
  show ?thesis
  proof (cases "c = ClientPanic")
    case True
    have "\<exists>k. underSem (feed ([InClient c] @ u) i) = Panic k" for u
      using Nil True by (simp add: underSem_def Let_def feed_def)
    with park show ?thesis by (auto intro!: resumes_panics [where t = "[InClient c]"])
  next
    case False
    obtain r k where k: "inputs k = []" "iPending k = iPending i"
        "\<forall>u. underSem (i\<lparr>inputs := InClient c # [] @ u\<rparr>) = Ret r (feed u k)"
      using underSem_answer [OF False] by blast
    obtain j where "underSem i = Parked j" "inputs j = []" using park by blast
    then show ?thesis
      using k Nil
      by (intro resumes_waits [where t = "[InClient c]" and a = r and k = k and j = j])
         (auto simp: feed_def load_def)
  qed
next
  case (Cons x xs)
  show ?thesis
  proof (cases x)
    case (InClient a)
    show ?thesis
    proof (cases "a = ClientPanic")
      case True
      with Cons InClient show ?thesis by (simp add: resumes_def underSem_def Let_def)
    next
      case False
      obtain r k where k: "inputs k = xs" "iPending k = iPending i"
          "\<forall>u. underSem (i\<lparr>inputs := InClient a # xs @ u\<rparr>) = Ret r (feed u k)"
        using underSem_answer [OF False] by blast
      then show ?thesis
        by (intro resumes_value [where a = r and h = k]) (use Cons InClient in \<open>auto simp: feed_def load_def\<close>)
    qed
  qed (rule resumes_stuck [where j = "act (NewClient (currentEndpoint i) (iStateFile i)) i"],
       use Cons in \<open>auto simp: underSem_def Let_def\<close>)+
qed

lemma startUnderSem_resumes: "resumes (closing c p) startUnderSem i"
proof -
  have rest: "resumes (closing c p) (\<lambda>i1. if \<not> got then Ret (None, False) i1 else underSem i1) j" for got j
    by (cases got) (simp_all add: underSem_resumes resumes_value [where h = j])
  show ?thesis
    unfolding startUnderSem_split [abs_def] by (rule resumes_bind [OF acquireSem_resumes rest rest])
qed

lemma waitIfPositive_resumes: "resumes (closing c p) (waitIfPositive d) i"
  unfolding waitIfPositive_def
  by (cases "0 < d") (simp_all add: waitBackoff_resumes resumes_value [where h = i])

text \<open>A client round after its wait.\<close>

definition tryStart :: "inst \<Rightarrow> bool outcome" where
  "tryStart i1 =
     bindO (provisionCredential i1) (\<lambda>err i2.
       if err \<noteq> None
       then ensureClient False (fst (backoffDelay i2)) (snd (backoffDelay i2))
       else bindO (startUnderSem i2) (\<lambda>r i3.
         case r of
           (_, False) \<Rightarrow> Ret False i3
         | (Some c, True) \<Rightarrow> Ret True (watchRun (i3\<lparr>iClient := Some c\<rparr>))
         | (None, True) \<Rightarrow> ensureClient False (fst (backoffDelay i3)) (snd (backoffDelay i3))))"

lemma ensureClient_split:
  "ensureClient keepState d i =
     bindO (waitIfPositive d (dropIdentity keepState (closeClient i))) (\<lambda>ok i1.
       if \<not> ok then Ret False i1 else tryStart i1)"
  unfolding ensureClient.simps [of keepState d i] tryStart_def by (rule refl)

lemma tryStart_gives_up:
  assumes "inputs i = []"
  shows "resumes (closing c p) tryStart i"
proof (rule resumes_waits)
  let ?t = "if iCredSource i \<and> iStateFile i = None then [InAcquire AcquireNil, InDone] else [InDone]"
  show "tryStart i = Parked i"
    using assms by (simp add: tryStart_def provisionCredential_def startUnderSem_def acquireSem_def)
  show "list_all (closing c p) ?t" by simp
  show "tryStart (feed (?t @ u) i) = Ret False (feed u i)" for u
    using assms by (auto simp: tryStart_def provisionCredential_def startUnderSem_def acquireSem_def feed_def)
qed (use assms in simp_all)

lemma ensureClient_by_wait:
  assumes "\<And>j. length (inputs j) \<le> length (inputs i) \<Longrightarrow> resumes (closing c p) tryStart j"
  shows "resumes (closing c p) (ensureClient keepState d) i"
proof -
  let ?h = "dropIdentity keepState (closeClient i)"
  have rest: "resumes (closing c p) (\<lambda>i1. if \<not> ok then Ret False i1 else tryStart i1) j"
    if "length (inputs j) \<le> length (inputs i)" for ok j
    using assms [OF that] by (cases ok) (simp_all add: resumes_value [where h = j])
  have "resumes (closing c p)
      (\<lambda>i. bindO (waitIfPositive d i) (\<lambda>ok i1. if \<not> ok then Ret False i1 else tryStart i1)) ?h"
    by (rule resumes_bind [OF waitIfPositive_resumes])
       (auto intro!: rest dest: waitIfPositive_load)
  then show ?thesis
    by (rule resumes_via) (simp_all add: ensureClient_split)
qed

text \<open>At the end of the script a client round gives up.\<close>

lemma ensureClient_gives_up:
  "inputs i = [] \<Longrightarrow> resumes (closing c p) (ensureClient keepState d) i"
  by (rule ensureClient_by_wait) (simp add: tryStart_gives_up)

text \<open>The answer of a start, given that another round resumes.\<close>

abbreviation started :: "nat option \<times> bool \<Rightarrow> inst \<Rightarrow> bool outcome" where
  "started r i3 \<equiv> (case r of
     (_, False) \<Rightarrow> Ret False i3
   | (Some c, True) \<Rightarrow> Ret True (watchRun (i3\<lparr>iClient := Some c\<rparr>))
   | (None, True) \<Rightarrow> ensureClient False (fst (backoffDelay i3)) (snd (backoffDelay i3)))"

abbreviation again :: "inst \<Rightarrow> bool outcome" where
  "again j \<equiv> ensureClient False (fst (backoffDelay j)) (snd (backoffDelay j))"

lemma started_resumes:
  assumes "resumes C again j"
  shows "resumes C (started r) j"
proof -
  consider "snd r = False" | cl where "r = (Some cl, True)" | "r = (None, True)"
    by (cases r; cases "fst r") auto
  then show ?thesis
  proof cases
    case 1
    then show ?thesis
      by (intro resumes_value [where a = False and h = j]) (auto split: prod.split bool.split option.split)
  next
    case (2 cl)
    then show ?thesis
      by (intro resumes_value [where a = True and h = "watchRun (j\<lparr>iClient := Some cl\<rparr>)"])
         (simp_all add: load_def)
  next
    case 3
    with assms show ?thesis by (simp add: resumes_def)
  qed
qed

lemma tryStart_resumes:
  assumes "\<And>j. length (inputs j) < length (inputs i) \<or> inputs j = [] \<Longrightarrow>
    resumes (closing c p) again j"
  shows "resumes (closing c p) tryStart i"
proof -
  have start: "resumes (closing c p) (\<lambda>i2. bindO (startUnderSem i2) started) j"
    if "length (inputs j) \<le> length (inputs i)" for j
  proof (rule resumes_bind [OF startUnderSem_resumes])
    show "resumes (closing c p) (started r) k" if "startUnderSem j = Ret r k" for r k
      using startUnderSem_load [OF that] \<open>length (inputs j) \<le> length (inputs i)\<close>
      by (intro started_resumes assms) simp
    show "resumes (closing c p) (started r) k" if "inputs k = []" for r k
      using that by (intro started_resumes assms) simp
  qed
  have both: "resumes (closing c p) (\<lambda>i2. if err \<noteq> None then again i2 else bindO (startUnderSem i2) started) j"
    if "err \<noteq> None \<Longrightarrow> length (inputs j) < length (inputs i) \<or> inputs j = []"
      "length (inputs j) \<le> length (inputs i)" for err :: "provision_error option" and j
    using that start [OF that(2)] assms by (cases "err = None") simp_all
  show ?thesis
    unfolding tryStart_def [abs_def]
  proof (rule resumes_bind [OF provisionCredential_resumes])
    show "resumes (closing c p)
        (\<lambda>i2. if err \<noteq> None then again i2 else bindO (startUnderSem i2) started) j"
      if "provisionCredential i = Ret err j" for err j
      using provisionCredential_load [OF that] by (intro both) auto
  qed (rule both; simp)
qed

lemma ensureClient_resumes: "resumes (closing c p) (ensureClient keepState d) i"
proof (induction "length (inputs i)" arbitrary: keepState d i rule: less_induct)
  case less
  have "resumes (closing c p) again j"
    if "length (inputs j) < length (inputs i) \<or> inputs j = []" for j
  proof -
    have "resumes (closing c p) (ensureClient False (fst (backoffDelay j))) (snd (backoffDelay j))"
      using that by (elim disjE) (simp_all add: less ensureClient_gives_up)
    then show ?thesis by (rule resumes_via) simp_all
  qed
  then show ?case
    by (intro ensureClient_by_wait tryStart_resumes) auto
qed

section \<open>Commands\<close>

lemma resumes_frame:
  "resumes C f (h i) \<Longrightarrow> (\<And>u. h (feed u i) = feed u (h i)) \<Longrightarrow> load (h i) \<le> load i \<Longrightarrow>
   length (inputs (h i)) \<le> length (inputs i) \<Longrightarrow> resumes C (\<lambda>i. f (h i)) i"
  by (rule resumes_via) simp_all

lemma resumes_then:
  "resumes C f i \<Longrightarrow> (\<And>a j. resumes C (g a) j) \<Longrightarrow> resumes C (\<lambda>i. bindO (f i) g) i"
  by (rule resumes_bind)

lemma Ret_resumes: "resumes C (Ret a) i"
  by (rule resumes_value [where h = i]) simp_all

lemma again_resumes: "resumes (closing c p) again i"
  by (rule resumes_via [OF ensureClient_resumes [where keepState = False and d = "fst (backoffDelay i)"
          and i = "snd (backoffDelay i)"]]) simp_all

text \<open>The common end of every way to bring a client up: give up, or probe and go on.\<close>

lemma probe_after:
  "resumes (closing c p) (\<lambda>i. if \<not> ok then Ret True i
     else bindO (probeAndReport i) (\<lambda>_ i. Ret False i)) i"
  by (cases ok) (simp_all add: Ret_resumes resumes_then [OF probeAndReport_resumes])

lemma drainExpired_resumes: "resumes (closing c p) drainExpired i"
  unfolding drainExpired_def [abs_def]
  by (intro resumes_then probe_after again_resumes
        resumes_frame [where h = "\<lambda>i. setStatus StatusProbing (closeConns i)", OF emit_resumes]) simp_all

lemma drainLoop_resumes: "resumes (closing c p) drainLoop i"
proof (induction i rule: drainLoop.induct)
  case (1 i)
  note unfolds = drainLoop.simps [of i] drainLoop.simps [of "i\<lparr>inputs := is\<rparr>" for "is"] feed_def
  show ?case
  proof (cases "inputs i")
    case Nil
    then show ?thesis
      by (intro resumes_waits [where t = "[InDone]" and a = True and k = i and j = i])
         (simp_all add: unfolds load_def)
  next
    case (Cons x xs)
    show ?thesis
    proof (cases x)
      case InTimer
      show ?thesis
        by (rule resumes_via [OF drainExpired_resumes, where h = "i\<lparr>inputs := xs\<rparr>"])
           (use Cons InTimer in \<open>simp_all add: unfolds load_def\<close>)
    next
      case InDone
      with Cons show ?thesis
        by (intro resumes_value [where a = True and h = "i\<lparr>inputs := xs\<rparr>"])
           (simp_all add: unfolds load_def)
    next
      case (InCmd q)
      consider "cKind q = cmdStop" | "cKind q = cmdDisable" | "cKind q \<notin> {cmdStop, cmdDisable}" by blast
      then show ?thesis
      proof cases
        case 1
        with Cons InCmd show ?thesis
          by (intro resumes_value [where a = True and h = "i\<lparr>inputs := xs\<rparr>"])
             (simp_all add: unfolds load_def)
      next
        case 2
        let ?h = "closeClient (setStatus StatusDisabled (i\<lparr>inputs := xs\<rparr>))"
        have "feed u ?h = closeClient (setStatus StatusDisabled (i\<lparr>inputs := xs @ u\<rparr>))" for u
          by (simp add: feed_def [of u "i\<lparr>inputs := xs\<rparr>"] flip: feed_ops)
        with Cons InCmd 2 show ?thesis
          by (intro resumes_value [where a = False and h = ?h])
             (simp_all add: drainLoop.simps [of "feed u i" for u] load_def)
      next
        case 3
        let ?h = "i\<lparr>inputs := xs, iPending := iPending i @ [q]\<rparr>"
        have "resumes (closing c p) drainLoop ?h"
          using "1.IH" [OF Cons InCmd] 3 by (cases "cKind q") auto
        then show ?thesis
          by (rule resumes_via) (use Cons InCmd 3 in \<open>auto simp: unfolds script_first load_def split: cmdKind.split\<close>)
      qed
    qed (use Cons in \<open>auto intro!: resumes_stuck [where j = i] simp: unfolds\<close>)
  qed
qed

lemma reprobe_resumes:
  "resumes (closing c p) (\<lambda>i. bindO (waitBackoff d i) (\<lambda>ok i1.
     if ok then bindO (probeAndReport i1) (\<lambda>_ i2. Ret False i2) else Ret False i1)) i"
proof (rule resumes_then [OF waitBackoff_resumes])
  show "resumes (closing c p)
      (\<lambda>i1. if ok then bindO (probeAndReport i1) (\<lambda>_ i2. Ret False i2) else Ret False i1) j" for ok j
    by (cases ok) (simp_all add: Ret_resumes resumes_then [OF probeAndReport_resumes])
qed

lemma replay_resumes:
  "resumes (closing c p) (\<lambda>i. bindO (again i) (\<lambda>ok i2.
     if \<not> ok then Ret True i2
     else bindO (emit evReplayed zeroEgress i2) (\<lambda>_ i3.
       bindO (probeAndReport i3) (\<lambda>_ i4. Ret False i4)))) i"
proof (rule resumes_then [OF again_resumes])
  show "resumes (closing c p) (\<lambda>i2. if \<not> ok then Ret True i2
     else bindO (emit evReplayed zeroEgress i2) (\<lambda>_ i3.
       bindO (probeAndReport i3) (\<lambda>_ i4. Ret False i4))) j" for ok j
    by (cases ok)
       (simp_all add: Ret_resumes resumes_then [OF emit_resumes resumes_then [OF probeAndReport_resumes]])
qed

lemma inputs_countReplay: "inputs (countReplay i) = inputs i"
  by (simp add: countReplay_def)

lemma handle_cmd_resumes: "resumes (closing c p) (handle_cmd q) i"
proof (cases "cKind q")
  case cmdConfirm
  let ?i = "i\<lparr>inAwaitConfirm := False\<rparr>"
  show ?thesis
    by (rule resumes_value [where a = False
          and h = "if inStatus i = StatusProbing then (setStatus StatusNormal ?i)\<lparr>iBackoffN := 0\<rparr> else ?i"])
       (simp_all add: handle_cmd_def cmdConfirm Let_def)
next
  case cmdReprobe
  show ?thesis
  proof (cases "inStatus i = StatusProbing")
    case True
    show ?thesis
      by (rule resumes_via [OF reprobe_resumes [where d = "fst (backoffDelay i)"], where h = "snd (backoffDelay i)"])
         (simp_all add: handle_cmd_def cmdReprobe True)
  qed (rule resumes_value [where a = False and h = i], simp_all add: handle_cmd_def cmdReprobe)
next
  case cmdReplay
  show ?thesis
  proof (cases "inStatus i = StatusProbing \<or> inStatus i = StatusNormal")
    case True
    show ?thesis
      by (rule resumes_via [OF replay_resumes, where h = "setStatus StatusProbing (countReplay i)"])
         (use True in \<open>simp_all add: handle_cmd_def cmdReplay Let_def inputs_countReplay\<close>)
  qed (rule resumes_value [where a = False and h = i], simp_all add: handle_cmd_def cmdReplay)
next
  case cmdDrain
  show ?thesis
  proof (cases "inStatus i = StatusNormal \<or> inStatus i = StatusProbing")
    case True
    show ?thesis
      by (rule resumes_via [OF drainLoop_resumes,
            where h = "act (DrainTimer (drainTimeoutOf (cTimeout q) i)) (setStatus StatusDraining i)"])
         (use True in \<open>simp_all add: handle_cmd_def cmdDrain drain_def\<close>)
  qed (rule resumes_value [where a = False and h = i], simp_all add: handle_cmd_def cmdDrain)
next
  case cmdDisable
  show ?thesis
  proof (cases "inStatus i = StatusDisabled")
    case False
    show ?thesis
      by (rule resumes_via [OF resumes_then [OF emit_resumes [where k = evDisabled and eg = zeroEgress] Ret_resumes [where a = False]],
            where h = "closeClient (setStatus StatusDisabled i)"])
         (use False in \<open>simp_all add: handle_cmd_def cmdDisable\<close>)
  qed (rule resumes_value [where a = False and h = i], simp_all add: handle_cmd_def cmdDisable)
next
  case cmdEnable
  show ?thesis
  proof (cases "inStatus i = StatusDisabled")
    case True
    show ?thesis
      by (rule resumes_via [OF resumes_then [OF ensureClient_resumes [where keepState = True and d = 0] probe_after],
            where h = "setStatus StatusProbing i"])
         (use True in \<open>simp_all add: handle_cmd_def cmdEnable\<close>)
  qed (rule resumes_value [where a = False and h = i], simp_all add: handle_cmd_def cmdEnable)
next
  case cmdStop
  show ?thesis
    by (rule resumes_value [where a = True and h = i]) (simp_all add: handle_cmd_def cmdStop)
qed

lemma handleLost_resumes: "resumes (closing c p) handleLost i"
  unfolding handleLost_def [abs_def]
  by (intro resumes_then probe_after ensureClient_resumes
        resumes_frame [where h = "setStatus StatusProbing", OF emit_resumes]) simp_all

text \<open>The main loop, by the number of answers and commands left.\<close>

lemma loop_after:
  "(\<And>j. load j \<le> load i \<Longrightarrow> resumes C manageLoop j) \<Longrightarrow> load k \<le> load i \<Longrightarrow>
   resumes C (\<lambda>i1. if stop then Ret () i1 else manageLoop i1) k"
  by (cases stop) (simp_all add: Ret_resumes)

lemma manageLoop_resumes: "resumes (closing c p) manageLoop i"
proof (induction "load i" arbitrary: i rule: less_induct)
  case less
  have next_one: "resumes (closing c p) (\<lambda>i. bindO (f i) (\<lambda>stop i1. if stop then Ret () i1 else manageLoop i1)) j"
    if "resumes (closing c p) f j" "load j < load i" for f j
  proof (rule resumes_bind [OF that(1)])
    show "resumes (closing c p) (\<lambda>i1. if stop then Ret () i1 else manageLoop i1) k" if "f j = Ret stop k" for stop k
      using resumes_Ret [OF \<open>resumes (closing c p) f j\<close> that] \<open>load j < load i\<close>
      by (intro loop_after [where i = j] less) auto
    show "resumes (closing c p) (\<lambda>i1. if stop then Ret () i1 else manageLoop i1) k" if "load k \<le> load j" for stop k
      using that \<open>load j < load i\<close> by (intro loop_after [where i = j] less) auto
  qed
  show ?case
  proof (cases "iPending i")
    case (Cons q qs)
    show ?thesis
      by (rule resumes_via [OF next_one [OF handle_cmd_resumes [where q = q]], where h = "i\<lparr>iPending := qs\<rparr>"])
         (use Cons in \<open>simp_all add: manageLoop.simps [of "feed u i" for u] load_def\<close>)
  next
    case none: Nil
    note unfolds = manageLoop.simps [of i] manageLoop.simps [of "feed u i" for u] none
    show ?thesis
    proof (cases "inputs i")
      case Nil
      then show ?thesis
        by (intro resumes_waits [where t = "[InDone]" and a = "()" and k = i and j = i])
           (simp_all add: unfolds feed_nil [symmetric])
    next
      case (Cons x xs)
      show ?thesis
      proof (cases x)
        case InDone
        with Cons show ?thesis
          by (intro resumes_value [where a = "()" and h = "i\<lparr>inputs := xs\<rparr>"])
             (simp_all add: unfolds load_def feed_inputs)
      next
        case (InCmd q)
        show ?thesis
          by (rule resumes_via [OF next_one [OF handle_cmd_resumes [where q = q]], where h = "i\<lparr>inputs := xs\<rparr>"])
             (use Cons InCmd in \<open>simp_all add: unfolds load_def feed_inputs\<close>)
      next
        case (InRunExit g)
        let ?h = "i\<lparr>inputs := xs, iWatched := iWatched i - {g}\<rparr>"
        have lt: "load ?h < load i" using Cons by (simp add: load_def)
        have fed: "feed u (i\<lparr>inputs := xs, iWatched := w\<rparr>) = i\<lparr>inputs := xs @ u, iWatched := w\<rparr>" for u w
          by (simp add: feed_def script_first)
        consider "g \<notin> iWatched i" | "g \<in> iWatched i" "g = iGen i" | "g \<in> iWatched i" "g \<noteq> iGen i" by blast
        then show ?thesis
        proof cases
          case 1
          with Cons InRunExit show ?thesis by (auto intro!: resumes_stuck [where j = i] simp: unfolds)
        next
          case 2
          show ?thesis
            by (rule resumes_via [OF next_one [OF handleLost_resumes lt]])
               (use Cons InRunExit 2 in \<open>simp_all add: unfolds load_def fed\<close>)
        next
          case 3
          show ?thesis
            by (rule resumes_via [OF less [OF lt]])
               (use Cons InRunExit 3 in \<open>simp_all add: unfolds load_def fed\<close>)
        qed
      qed (use Cons in \<open>auto intro!: resumes_stuck [where j = i] simp: unfolds\<close>)
    qed
  qed
qed

lemma manage_resumes: "resumes (closing c p) manage i"
proof -
  have "resumes (closing c p) (\<lambda>i1. if \<not> ok then Ret () i1
      else bindO (probeAndReport i1) (\<lambda>_ i2. manageLoop i2)) j" for ok j
    by (cases ok) (simp_all add: Ret_resumes resumes_then [OF probeAndReport_resumes manageLoop_resumes])
  then show ?thesis
    unfolding manage_def [abs_def] by (rule resumes_then [OF ensureClient_resumes])
qed

lemma feed_newInstance: "feed t (newInstance cfg now f rm s) = newInstance cfg now f rm (s @ t)"
  by (simp add: feed_def newInstance_def handle.extend_def)

section \<open>Shutdown\<close>

text \<open>Every instance ends when the pool closes. Take any run that has got through its script and
  waits, and let the call it may be in answer in any way (a credential source that has no
  identity to give). Then the cancelled context and such answers alone, without a timer, a
  command, a free slot of the semaphore or anybody receiving events, bring the goroutine to
  its end, with everything released.\<close>

theorem shutdown_ends:
  assumes "goroutine room (newInstance cfg now f rm s) = Parked j" and "inputs j = []"
  shows "\<exists>t k. list_all (closing c p) t \<and>
    goroutine room (newInstance cfg now f rm (s @ t)) = Ret () k \<and>
    inStopped k \<and> iClient k = None \<and> inConns k = {} \<and> \<not> iSemHeld k"
proof -
  let ?i = "newInstance cfg now f rm s"
  have "manage ?i = Parked j" using assms(1) by (simp add: goroutine_def split: outcome.splits)
  with manage_resumes [of c p ?i] assms(2) obtain t where t: "list_all (closing c p) t"
    and r: "(\<exists>k. \<forall>u. manage (feed (t @ u) ?i) = Ret () (feed u k)) \<or>
        (\<forall>u. \<exists>k. manage (feed (t @ u) ?i) = Panic k)"
    by (auto simp: resumes_def)
  have "\<exists>k. goroutine room (feed t ?i) = Ret () k"
    using r
  proof (elim disjE exE)
    fix k
    assume "\<forall>u. manage (feed (t @ u) ?i) = Ret () (feed u k)"
    then have "manage (feed (t @ []) ?i) = Ret () (feed [] k)" by blast
    then show ?thesis by (simp add: goroutine_def)
  next
    assume "\<forall>u. \<exists>k. manage (feed (t @ u) ?i) = Panic k"
    then obtain k where "manage (feed (t @ []) ?i) = Panic k" by blast
    then show ?thesis by (simp add: goroutine_def)
  qed
  then obtain k where k: "goroutine room (newInstance cfg now f rm (s @ t)) = Ret () k"
    by (auto simp: feed_newInstance)
  with goroutine_ok [of room cfg now f rm "s @ t"] have "finished k" by simp
  with t k show ?thesis by (auto simp: finished_def)
qed

lemma shutdown_ends_witness:
  "\<exists>t k. list_all (closing NewClientErr ProbePanic) t \<and>
     goroutine True (newInstance demoConfig 0 None True (demoScript @ t)) = Ret () k \<and>
     inStopped k \<and> iClient k = None \<and> inConns k = {} \<and> \<not> iSemHeld k"
proof -
  have "\<exists>j. goroutine True (newInstance demoConfig 0 None True demoScript) = Parked j \<and> inputs j = []"
    by (simp add: run_simps demoConfig_def demoScript_def zeroEgress_def)
  then show ?thesis by (elim exE conjE) (rule shutdown_ends)
qed

end
