(* ===== verification/InstanceRuns.thy ===== *)
theory InstanceRuns
  imports InstanceProps
begin

text \<open>
  What an instance does over given scripts: it comes into service after any number of failed
  starts, a drain ends with a new identity, commands that arrive while it waits are kept in
  order, and three corners of the command handling.
\<close>

section \<open>Coming up\<close>

fun fails :: "client_answer \<Rightarrow> bool" where
  "fails NewClientErr = True"
| "fails (StartErr file) = True"
| "fails _ = False"

fun waits :: "action list \<Rightarrow> duration list" where
  "waits [] = []"
| "waits (Wait d # as) = d # waits as"
| "waits (_ # as) = waits as"

lemma waits_append [simp]: "waits (as @ bs) = waits as @ waits bs"
  by (induction as rule: waits.induct) auto

definition retries :: "client_answer list \<Rightarrow> input list" where
  "retries fs = concat (map (\<lambda>a. [InSem, InClient a, InTimer]) fs)"

abbreviation timer_for :: "duration \<Rightarrow> input list" where
  "timer_for d \<equiv> (if 0 < d then [InTimer] else [])"

text \<open>What a round leaves alone.\<close>

definition same_setup :: "inst \<Rightarrow> inst \<Rightarrow> bool" where
  "same_setup i j \<longleftrightarrow> iCredSource j = iCredSource i \<and> iBackoffStart j = iBackoffStart i \<and>
     iBackoffMax j = iBackoffMax i \<and> inStatus j = inStatus i \<and> iPending j = iPending i"

lemmas round_simps = waitIfPositive_def waitBackoff.simps provisionCredential_def startUnderSem_def
  acquireSem_def releaseSem_def closeClient_def dropIdentity_def nextEndpoint_def removeState_def
  backoffDelay_def watchRun_def currentEndpoint_def act_def same_setup_def

lemma continue_with:
  "Q i0 \<Longrightarrow> \<exists>i'. ensureClient k d i0 = ensureClient k d i' \<and> Q i'"
  by blast

lemma failed_round:
  assumes "fails a" "\<not> iCredSource i" "inputs i = timer_for d @ InSem # InClient a # rest"
  shows "\<exists>i'. ensureClient k d i =
      ensureClient False (backoff_value (iBackoffStart i) (iBackoffMax i) (iBackoffN i)) i' \<and>
    same_setup i i' \<and> inputs i' = rest \<and> iBackoffN i' = Suc (iBackoffN i) \<and>
    iEpIdx i' = iEpIdx i + (if k then 0 else 1) \<and>
    waits (trace i') = waits (trace i) @ (if 0 < d then [d] else [])"
  using assms
  by (subst ensureClient.simps, cases a; cases "iClient i")
     (auto simp: round_simps Let_def intro!: continue_with)
lemma started_round:
  assumes "\<not> iCredSource i" "inputs i = timer_for d @ InSem # InClient (Started f) # rest"
  shows "\<exists>j. ensureClient k d i = Ret True j \<and> same_setup i j \<and> inputs j = rest \<and>
    iClient j \<noteq> None \<and> iBackoffN j = iBackoffN i \<and> iEpIdx j = iEpIdx i + (if k then 0 else 1) \<and>
    waits (trace j) = waits (trace i) @ (if 0 < d then [d] else [])"
  using assms
  by (subst ensureClient.simps, cases "iClient i") (auto simp: round_simps Let_def)

definition keeps_backing_off :: "inst \<Rightarrow> bool" where
  "keeps_backing_off i \<longleftrightarrow> (\<forall>n. 0 < backoff_value (iBackoffStart i) (iBackoffMax i) n)"

lemma keeps_backing_off_same: "same_setup i j \<Longrightarrow> keeps_backing_off j = keeps_backing_off i"
  by (simp add: same_setup_def keeps_backing_off_def)

lemma ensureClient_recovers:
  assumes "list_all fails fs" "\<not> iCredSource i" "keeps_backing_off i"
    "inputs i = timer_for d @ retries fs @ InSem # InClient (Started f) # rest"
  shows "\<exists>j. ensureClient k d i = Ret True j \<and> same_setup i j \<and> inputs j = rest \<and>
    iClient j \<noteq> None \<and> iBackoffN j = iBackoffN i + length fs \<and>
    iEpIdx j = iEpIdx i + (if k then 0 else 1) + length fs \<and>
    waits (trace j) = waits (trace i) @ (if 0 < d then [d] else []) @
      map (backoff_value (iBackoffStart i) (iBackoffMax i)) [iBackoffN i..<iBackoffN i + length fs]"
  using assms
proof (induction fs arbitrary: k d i)
  case Nil
  with started_round [of i d f rest k] show ?case by (auto simp: retries_def)
next
  case (Cons a fs)
  let ?v = "backoff_value (iBackoffStart i) (iBackoffMax i) (iBackoffN i)"
  let ?rest = "InTimer # retries fs @ InSem # InClient (Started f) # rest"
  have "inputs i = timer_for d @ InSem # InClient a # ?rest"
    using Cons.prems(4) by (simp add: retries_def)
  then obtain i' where step: "ensureClient k d i = ensureClient False ?v i'" and same: "same_setup i i'"
      and inp: "inputs i' = ?rest" and n: "iBackoffN i' = Suc (iBackoffN i)"
      and ep: "iEpIdx i' = iEpIdx i + (if k then 0 else 1)"
      and w: "waits (trace i') = waits (trace i) @ (if 0 < d then [d] else [])"
    using failed_round [of a i d ?rest k] Cons.prems by auto
  have v: "0 < ?v" using Cons.prems(3) by (simp add: keeps_backing_off_def)
  have "\<exists>j. ensureClient False ?v i' = Ret True j \<and> same_setup i' j \<and> inputs j = rest \<and>
    iClient j \<noteq> None \<and> iBackoffN j = iBackoffN i' + length fs \<and>
    iEpIdx j = iEpIdx i' + (if False then 0 else 1) + length fs \<and>
    waits (trace j) = waits (trace i') @ (if 0 < ?v then [?v] else []) @
      map (backoff_value (iBackoffStart i') (iBackoffMax i')) [iBackoffN i'..<iBackoffN i' + length fs]"
    using Cons.prems same inp v keeps_backing_off_same [OF same]
    by (intro Cons.IH) (simp_all add: same_setup_def)
  then obtain j where j: "ensureClient False ?v i' = Ret True j" "same_setup i' j" "inputs j = rest"
    "iClient j \<noteq> None" "iBackoffN j = iBackoffN i' + length fs"
    "iEpIdx j = iEpIdx i' + 1 + length fs"
    "waits (trace j) = waits (trace i') @ [?v] @
      map (backoff_value (iBackoffStart i') (iBackoffMax i')) [iBackoffN i'..<iBackoffN i' + length fs]"
    using v by auto
  have range: "[iBackoffN i..<iBackoffN i + length (a # fs)] =
      iBackoffN i # [iBackoffN i'..<iBackoffN i' + length fs]"
    using upt_conv_Cons [of "iBackoffN i" "iBackoffN i + length (a # fs)"]
    by (simp add: n del: upt_Suc)
  have frame: "same_setup i j" "iBackoffStart i' = iBackoffStart i" "iBackoffMax i' = iBackoffMax i"
    using same j(2) by (simp_all add: same_setup_def)
  show ?case
    unfolding step range
    by (intro exI [of _ j]) (use j frame n ep w in simp)
qed


lemma keeps_backing_off_max: "0 < iBackoffMax i \<Longrightarrow> keeps_backing_off i"
  by (simp add: keeps_backing_off_def backoff_value_def Let_def)

lemma starts_up:
  assumes "list_all fails fs" and "\<not> icCredSource cfg" and "0 < icBackoffMax cfg"
    and "script = retries fs @ [InSem, InClient (Started f), InProbe (ProbeReturns eg), InSent,
      InCmd (cmd cmdConfirm)]"
  shows "\<exists>j. goroutine room (newInstance cfg now disk rm script) = Parked j \<and>
    inStatus j = StatusNormal \<and> iClient j \<noteq> None \<and> iBackoffN j = 0 \<and>
    iEpIdx j = icEndpointIdx cfg + length fs \<and>
    waits (trace j) = map (backoff_value (icBackoffStart cfg) (icBackoffMax cfg)) [0..<length fs] \<and>
    Emit evReady eg \<in> set (trace j)"
proof -
  let ?i = "newInstance cfg now disk rm script"
  have new: "iBackoffStart ?i = icBackoffStart cfg" "iBackoffMax ?i = icBackoffMax cfg"
    "\<not> iCredSource ?i" "inputs ?i = script" "iBackoffN ?i = 0" "iEpIdx ?i = icEndpointIdx cfg"
    "trace ?i = []" "iPending ?i = []" "inStatus ?i = StatusProbing"
    using assms(2) by (simp_all add: newInstance_def newHandle_def handle.extend_def)
  have "keeps_backing_off ?i" using assms(3) new by (intro keeps_backing_off_max) simp
  with ensureClient_recovers [OF assms(1), of ?i 0 f
      "[InProbe (ProbeReturns eg), InSent, InCmd (cmd cmdConfirm)]" True] new assms(4)
  obtain j where j: "ensureClient True 0 ?i = Ret True j"
    "inputs j = [InProbe (ProbeReturns eg), InSent, InCmd (cmd cmdConfirm)]"
    "iClient j \<noteq> None" "iEpIdx j = icEndpointIdx cfg + length fs" "iPending j = []"
    "inStatus j = StatusProbing"
    "waits (trace j) = map (backoff_value (icBackoffStart cfg) (icBackoffMax cfg)) [0..<length fs]"
    by (auto simp: same_setup_def)
  then show ?thesis
    by (simp add: goroutine_def manage_def probeAndReport_def emit_def manageLoop.simps handle_cmd_def
        cmd_def setStatus_def act_def Let_def)
qed

text \<open>C9: A new instance comes into service whatever the number of failed starts: after
  every failed attempt it waits for the next back-off value in turn, drops its identity and
  moves to the next endpoint; the first attempt that succeeds is probed and reported, and the
  confirmation puts it into service with the failure count reset.\<close>

theorem startup_recovers:
  assumes "list_all fails fs" and "\<not> icCredSource cfg" and "0 < icBackoffMax cfg"
    and "script = retries fs @ [InSem, InClient (Started f), InProbe (ProbeReturns eg), InSent,
      InCmd (cmd cmdConfirm)]"
  shows "\<exists>j. goroutine room (newInstance cfg now disk rm script) = Parked j \<and>
    inStatus j = StatusNormal \<and> iClient j \<noteq> None \<and> iBackoffN j = 0 \<and>
    iEpIdx j = icEndpointIdx cfg + length fs \<and>
    waits (trace j) = map (backoff_value (icBackoffStart cfg) (icBackoffMax cfg)) [0..<length fs] \<and>
    Emit evReady eg \<in> set (trace j)"
  by (rule starts_up [OF assms])

lemma startup_recovers_witness:
  "\<exists>j. goroutine True (newInstance demoConfig 0 None True demoScript) = Parked j \<and>
     inStatus j = StatusNormal \<and> iEpIdx j = 1 \<and> waits (trace j) = [second]"
proof -
  have "demoScript = retries [NewClientErr] @ [InSem, InClient (Started (Some ''state'')),
      InProbe (ProbeReturns \<lparr>eV4 = AddrV4 192 0 2 7, eV6 = AddrZero\<rparr>), InSent, InCmd (cmd cmdConfirm)]"
    by (simp add: demoScript_def retries_def)
  from startup_recovers [OF _ _ _ this, of demoConfig True 0 None True] show ?thesis
    by (auto simp: demoConfig_def backoff_value_def backoffShiftLimit_def wrap64_def Let_def)
qed

section \<open>Commands while waiting\<close>

lemma waitBackoff_collects:
  assumes "list_all (\<lambda>c. cKind c \<noteq> cmdStop) cs" "inputs i = map InCmd cs @ a # rest"
    and "a \<in> {InTimer, InDone, InCmd (cmd cmdStop)}"
  shows "waitBackoff d i = Ret (a = InTimer)
    (i\<lparr>inputs := rest, iPending := iPending i @ cs, trace := trace i @ replicate (Suc (length cs)) (Wait d)\<rparr>)"
  using assms
proof (induction cs arbitrary: i)
  case Nil
  then show ?case by (subst waitBackoff.simps) (auto simp: act_def Let_def cmd_def)
next
  case (Cons c cs)
  let ?i = "act (Wait d) i\<lparr>inputs := map InCmd cs @ a # rest, iPending := iPending i @ [c]\<rparr>"
  have "waitBackoff d i = waitBackoff d ?i"
    using Cons.prems by (subst waitBackoff.simps) (simp add: act_def Let_def)
  also have "\<dots> = Ret (a = InTimer) (?i\<lparr>inputs := rest, iPending := iPending ?i @ cs,
      trace := trace ?i @ replicate (Suc (length cs)) (Wait d)\<rparr>)"
    using Cons.prems by (intro Cons.IH) simp_all
  finally show ?case by (simp add: act_def)
qed

lemma drainLoop_collects:
  assumes "list_all (\<lambda>c. cKind c \<notin> {cmdStop, cmdDisable}) cs" "inputs i = map InCmd cs @ rest"
  shows "drainLoop i = drainLoop (i\<lparr>inputs := rest, iPending := iPending i @ cs\<rparr>)"
  using assms
proof (induction cs arbitrary: i)
  case (Cons c cs)
  let ?i = "i\<lparr>inputs := map InCmd cs @ rest, iPending := iPending i @ [c]\<rparr>"
  have "drainLoop i = drainLoop ?i"
    using Cons.prems by (subst drainLoop.simps) (auto split: cmdKind.split)
  also have "\<dots> = drainLoop (?i\<lparr>inputs := rest, iPending := iPending ?i @ cs\<rparr>)"
    using Cons.prems by (intro Cons.IH) simp_all
  finally show ?case by simp
qed auto

lemma reprobe_takes_stop:
  assumes "inStatus i = StatusProbing" and "list_all (\<lambda>c. cKind c \<noteq> cmdStop) cs"
    and "inputs i = map InCmd cs @ InCmd (cmd cmdStop) # rest"
  shows "handle_cmd (cmd cmdReprobe) i = Ret False
      (i\<lparr>inputs := rest, iPending := iPending i @ cs, iBackoffN := iBackoffN i + 1,
         trace := trace i @ replicate (Suc (length cs)) (Wait (fst (backoffDelay i)))\<rparr>)"
  using assms waitBackoff_collects [of cs "snd (backoffDelay i)" "InCmd (cmd cmdStop)" rest]
  by (simp add: handle_cmd_def cmd_def backoffDelay_def)

lemma replay_takes_stop:
  assumes "inStatus i \<in> {StatusProbing, StatusNormal}" and "list_all (\<lambda>c. cKind c \<noteq> cmdStop) cs"
    and "inputs i = map InCmd cs @ InCmd (cmd cmdStop) # rest"
    and "0 < iBackoffMax i"
  shows "\<exists>j. handle_cmd (cmd cmdReplay) i = Ret True j"
proof -
  let ?i = "setStatus StatusProbing (countReplay i)"
  let ?j = "dropIdentity False (closeClient (snd (backoffDelay ?i)))"
  have v: "0 < fst (backoffDelay ?i)"
    using assms(4) by (simp add: backoffDelay_def backoff_value_def setStatus_def countReplay_def Let_def)
  have "waitBackoff (fst (backoffDelay ?i)) ?j = Ret False
    (?j\<lparr>inputs := rest, iPending := iPending ?j @ cs,
       trace := trace ?j @ replicate (Suc (length cs)) (Wait (fst (backoffDelay ?i)))\<rparr>)"
    using waitBackoff_collects [of cs ?j "InCmd (cmd cmdStop)" rest] assms
    by (simp add: countReplay_def)
  with assms v show ?thesis
    by (subst handle_cmd_def) (auto simp: cmd_def ensureClient.simps waitIfPositive_def Let_def)
qed

text \<open>C33: A stop command that arrives during a back-off ends an instance that replays, but not
  one that waits to probe again: there it is consumed with the wait, the instance goes on
  with the commands that were put aside, and neither a state change nor an event shows it.\<close>

theorem stop_while_backing_off:
  assumes "inStatus i = StatusProbing" and "0 < iBackoffMax i"
    and "list_all (\<lambda>c. cKind c \<noteq> cmdStop) cs"
    and "inputs i = map InCmd cs @ InCmd (cmd cmdStop) # rest"
  shows "(\<exists>j. handle_cmd (cmd cmdReplay) i = Ret True j) \<and>
    handle_cmd (cmd cmdReprobe) i = Ret False
      (i\<lparr>inputs := rest, iPending := iPending i @ cs, iBackoffN := iBackoffN i + 1,
         trace := trace i @ replicate (Suc (length cs)) (Wait (fst (backoffDelay i)))\<rparr>)"
  using replay_takes_stop [of i cs rest] reprobe_takes_stop [of i cs rest] assms by simp

text \<open>An instance in a given state, over a given script.\<close>

definition demoInst :: "Status \<Rightarrow> nat option \<Rightarrow> input list \<Rightarrow> inst" where
  "demoInst st cl script = (newInstance demoConfig 0 None True script)\<lparr>inStatus := st, iClient := cl\<rparr>"

lemma demoInst_fields [simp]:
  "inStatus (demoInst st cl script) = st" "iClient (demoInst st cl script) = cl"
  "inputs (demoInst st cl script) = script" "iPending (demoInst st cl script) = []"
  "trace (demoInst st cl script) = []" "iBackoffMax (demoInst st cl script) = 60 * second"
  "iBackoffStart (demoInst st cl script) = second" "\<not> iCredSource (demoInst st cl script)"
  "iBackoffN (demoInst st cl script) = 0" "iEpIdx (demoInst st cl script) = 0"
  "inConns (demoInst st cl script) = {}" "iDrainTimeout (demoInst st cl script) = 10 * second"
  by (simp_all add: demoInst_def newInstance_def newHandle_def handle.extend_def demoConfig_def)

lemma stop_while_backing_off_witness:
  "\<exists>j. handle_cmd (cmd cmdReprobe)
      (demoInst StatusProbing (Some 0) [InCmd (cmd cmdDrain), InCmd (cmd cmdStop)]) = Ret False j \<and>
     iPending j = [cmd cmdDrain] \<and> inputs j = [] \<and> trace j = [Wait second, Wait second]"
  using stop_while_backing_off [of "demoInst StatusProbing (Some 0) [InCmd (cmd cmdDrain), InCmd (cmd cmdStop)]"
      "[cmd cmdDrain]" "[]"]
  by (simp add: cmd_def backoffDelay_def backoff_value_def backoffShiftLimit_def wrap64_def Let_def)

text \<open>C11: Draining. The connections open when the timer fires are cut, the registered key is
  given up by the drained event, the instance waits for the back-off, drops its identity and
  comes up again under the next endpoint after any number of failed starts; it ends probing,
  with the new egress reported, and with every command that arrived meanwhile kept in order.\<close>

theorem drain_completes:
  assumes "inStatus i \<in> {StatusNormal, StatusProbing}"
    and "list_all (\<lambda>c. cKind c \<notin> {cmdStop, cmdDisable}) cs" and "list_all fails fs"
    and "\<not> iCredSource i" and "0 < iBackoffMax i"
    and "inputs i = map InCmd cs @ InTimer # InSent # InTimer # retries fs @
      InSem # InClient (Started f) # InProbe (ProbeReturns eg) # InSent # rest"
  shows "\<exists>j. handle_cmd \<lparr>cKind = cmdDrain, cTimeout = t\<rparr> i = Ret False j \<and>
    inStatus j = StatusProbing \<and> iClient j \<noteq> None \<and> iPending j = iPending i @ cs \<and>
    iEpIdx j = iEpIdx i + 1 + length fs \<and> inputs j = rest \<and>
    waits (trace j) = waits (trace i) @
      map (backoff_value (iBackoffStart i) (iBackoffMax i)) [iBackoffN i..<iBackoffN i + 1 + length fs] \<and>
    prefix (trace i @ [SetStatus StatusDraining, DrainTimer (drainTimeoutOf t i),
      CloseConns (inConns i), SetStatus StatusProbing, Emit evDrained zeroEgress]) (trace j) \<and>
    last (trace j) = Emit evReady eg"
proof -
  let ?d = "act (DrainTimer (drainTimeoutOf t i)) (setStatus StatusDraining i)"
  let ?s = "setStatus StatusProbing (closeConns (?d\<lparr>inputs := InSent # InTimer # retries fs @
      InSem # InClient (Started f) # InProbe (ProbeReturns eg) # InSent # rest,
      iPending := iPending i @ cs\<rparr>))"
  let ?e = "act (Emit evDrained zeroEgress) (?s\<lparr>inputs := InTimer # retries fs @
      InSem # InClient (Started f) # InProbe (ProbeReturns eg) # InSent # rest\<rparr>)"
  let ?v = "fst (backoffDelay ?e)"
  have "handle_cmd \<lparr>cKind = cmdDrain, cTimeout = t\<rparr> i = drainLoop ?d"
    using assms(1) by (auto simp: handle_cmd_def drain_def)
  also have "\<dots> = drainLoop (?d\<lparr>inputs := InTimer # InSent # InTimer # retries fs @
      InSem # InClient (Started f) # InProbe (ProbeReturns eg) # InSent # rest,
      iPending := iPending ?d @ cs\<rparr>)"
    using assms by (intro drainLoop_collects) (simp_all add: setStatus_def)
  also have "\<dots> = bindO (ensureClient False ?v (snd (backoffDelay ?e))) (\<lambda>ok i2.
         if \<not> ok then Ret True i2 else bindO (probeAndReport i2) (\<lambda>_ i3. Ret False i3))"
    by (simp add: drainLoop.simps drainExpired_def emit_def setStatus_def closeConns_def act_def)
  finally have run: "handle_cmd \<lparr>cKind = cmdDrain, cTimeout = t\<rparr> i = \<dots>" .
  have v: "0 < ?v" "?v = backoff_value (iBackoffStart i) (iBackoffMax i) (iBackoffN i)"
    using assms(5) by (simp_all add: backoffDelay_def backoff_value_def Let_def setStatus_def closeConns_def)
  have e: "\<not> iCredSource ?e" "iBackoffStart ?e = iBackoffStart i" "iBackoffMax ?e = iBackoffMax i"
    "iBackoffN ?e = iBackoffN i" "iEpIdx ?e = iEpIdx i" "iPending ?e = iPending i @ cs"
    "inStatus ?e = StatusProbing" "waits (trace ?e) = waits (trace i)"
    using assms(4) by (simp_all add: setStatus_def closeConns_def)
  obtain j where j: "ensureClient False ?v (snd (backoffDelay ?e)) = Ret True j"
    "inputs j = InProbe (ProbeReturns eg) # InSent # rest" "iClient j \<noteq> None"
    "iEpIdx j = iEpIdx i + 1 + length fs" "iPending j = iPending i @ cs" "inStatus j = StatusProbing"
    "waits (trace j) = waits (trace i) @ [?v] @ map (backoff_value (iBackoffStart i) (iBackoffMax i))
       [Suc (iBackoffN i)..<Suc (iBackoffN i) + length fs]"
    using ensureClient_recovers [OF assms(3), of "snd (backoffDelay ?e)" ?v f
        "InProbe (ProbeReturns eg) # InSent # rest" False] e v(1) assms(5)
    by (force simp: same_setup_def backoffDelay_def intro: keeps_backing_off_max)
  have "prefix (trace ?e) (trace j)"
    using grows.ensureClient_kept [of "trace ?e" "snd (backoffDelay ?e)" False ?v] j(1)
    by (simp add: backoffDelay_def)
  moreover have "trace ?e = trace i @ [SetStatus StatusDraining, DrainTimer (drainTimeoutOf t i),
      CloseConns (inConns i), SetStatus StatusProbing, Emit evDrained zeroEgress]"
    by (simp add: setStatus_def closeConns_def)
  moreover have "[iBackoffN i..<iBackoffN i + 1 + length fs] =
      iBackoffN i # [Suc (iBackoffN i)..<Suc (iBackoffN i) + length fs]"
    using upt_conv_Cons [of "iBackoffN i" "iBackoffN i + 1 + length fs"] by (simp del: upt_Suc)
  ultimately show ?thesis
    unfolding run using j v(2) by (simp add: probeAndReport_def emit_def Let_def)
qed

lemma drain_completes_witness:
  "\<exists>j. handle_cmd (cmd cmdDrain) (demoInst StatusNormal (Some 0)
      ([InCmd (cmd cmdReplay), InTimer, InSent, InTimer] @ retries [NewClientErr] @
       [InSem, InClient (Started None), InProbe (ProbeReturns zeroEgress), InSent])) = Ret False j \<and>
     inStatus j = StatusProbing \<and> iPending j = [cmd cmdReplay] \<and> iEpIdx j = 2 \<and>
     waits (trace j) = [second, 2 * second]"
  using drain_completes [of "demoInst StatusNormal (Some 0)
      ([InCmd (cmd cmdReplay), InTimer, InSent, InTimer] @ retries [NewClientErr] @
       [InSem, InClient (Started None), InProbe (ProbeReturns zeroEgress), InSent])"
      "[cmd cmdReplay]" "[NewClientErr]" None zeroEgress "[]" 0]
  by (force simp: cmd_def backoff_value_def backoffShiftLimit_def wrap64_def Let_def numeral_2_eq_2)

text \<open>Disabling a draining instance: no event is sent.\<close>

lemma drainLoop_disable:
  assumes "iClient i = Some k" and "inputs i = InCmd (cmd cmdDisable) # rest"
  shows "\<exists>j. drainLoop i = Ret False j \<and> inStatus j = StatusDisabled \<and> iClient j = None \<and>
    inputs j = rest \<and> iPending j = iPending i \<and>
    trace j = trace i @ [SetStatus StatusDisabled, CloseClient k]"
  using assms by (simp add: drainLoop.simps cmd_def setStatus_def closeClient_def act_def)

lemma disable_reports:
  assumes "inStatus i \<noteq> StatusDisabled" and "iClient i = Some k" and "inputs i = InSent # rest"
  shows "\<exists>j. handle_cmd (cmd cmdDisable) i = Ret False j \<and> inStatus j = StatusDisabled \<and>
    iClient j = None \<and> inputs j = rest \<and>
    trace j = trace i @ [SetStatus StatusDisabled, CloseClient k, Emit evDisabled zeroEgress]"
  using assms by (simp add: handle_cmd_def cmd_def setStatus_def closeClient_def act_def emit_def)

end
