(* ===== verification/PoolFrame.thy ===== *)
theory PoolFrame
  imports PoolSteps
begin

text \<open>
  Invariants of the pool, in general: the locale \<open>pool_invariant\<close> asks that a predicate ignores
  the tables the coordinator keeps besides its members, survives updates of the heap that leave
  the identity of every instance alone, the creation of an instance and a change of the
  limits. It then holds in every reachable pool. It is interpreted for the configuration
  a pool was created with, for the order of the limits, and (in \<open>Members\<close>) for the
  configurations of the members.
\<close>

section \<open>The interface\<close>

text \<open>What of an instance never changes.\<close>

definition face :: "handle \<Rightarrow> ID \<times> time \<times> string" where
  "face h = (inID h, inCreatedAt h, inProxyAddr h)"

lemma face_ext: "handle_ext h h' \<Longrightarrow> face h' = face h"
  by (simp add: handle_ext_def face_def)

lemma face_store: "store_ext s s' \<Longrightarrow> face (the (s' i)) = face (the (s i))"
proof (cases "i \<in> dom s")
  case False
  moreover assume "store_ext s s'"
  then have "dom s' = dom s" by (simp add: store_ext_def)
  ultimately have "s i = None" "s' i = None" by blast+
  then show ?thesis by simp
qed (auto simp: store_ext_def intro: face_ext)

lemma face_fields [simp]:
  "face (h\<lparr>inEgress := eg\<rparr>) = face h" "face (trackConn c h) = face h"
  "face (untrackConn c h) = face h" "face (snd (send cm h)) = face h"
  by (simp_all add: face_def trackConn_def untrackConn_def face_ext [OF send_ext, unfolded face_def])

locale pool_invariant =
  fixes P :: "pool \<Rightarrow> bool"
  assumes tables [simp]: "P (p\<lparr>pUsedKeys := u\<rparr>) = P p" "P (p\<lparr>pKeysByInst := k\<rparr>) = P p"
      "P (p\<lparr>pEmptyByInst := e\<rparr>) = P p" "P (p\<lparr>pInsts := xs\<rparr>) = P p" "P (p\<lparr>pPortOf := po\<rparr>) = P p"
      "P (p\<lparr>pPorts := a\<rparr>) = P p" "P (p\<lparr>pSnap := sn\<rparr>) = P p" "P (p\<lparr>pEvents := es\<rparr>) = P p"
      "P (p\<lparr>pWake := b1\<rparr>) = P p" "P (p\<lparr>pReplays := r\<rparr>) = P p" "P (p\<lparr>pDialTotal := t\<rparr>) = P p"
      "P (p\<lparr>pDialFailures := f\<rparr>) = P p" "P (p\<lparr>pCursor := c\<rparr>) = P p" "P (p\<lparr>pClosed := b2\<rparr>) = P p"
      "P (p\<lparr>pCloseOnce := b3\<rparr>) = P p" "P (p\<lparr>pCancelled := b4\<rparr>) = P p"
    and heap: "P p \<Longrightarrow> (\<And>i. face (the (s i)) = face (handleOf p i)) \<Longrightarrow> P (p\<lparr>pStore := s\<rparr>)"
    and created: "P p \<Longrightarrow> createInstance iter now p = (ok, q) \<Longrightarrow> P q"
    and limits: "P p \<Longrightarrow> P (snd (setMin n p))" "P p \<Longrightarrow> P (snd (setMax n p))"
begin

lemma cell_kept: "P p \<Longrightarrow> face h = face (handleOf p i) \<Longrightarrow> P (p\<lparr>pStore := (pStore p)(i \<mapsto> h)\<rparr>)"
  by (rule heap) simp_all

lemma store_kept: "P p \<Longrightarrow> store_ext (pStore p) s \<Longrightarrow> P (p\<lparr>pStore := s\<rparr>)"
  by (rule heap) (simp_all add: face_store)

lemma post_cmd_kept: "P p \<Longrightarrow> P (post_cmd i c p)"
  unfolding post_cmd_eq by (rule cell_kept) simp_all

lemma keys_kept [simp]:
  "P (releaseKey i p) = P p" "P (registerKey i k p) = P p" "P (publish iter p) = P p"
  by (simp_all add: releaseKey_def registerKey_def publish_def Let_def split: option.split)

lemma evictOnce_kept: "P p \<Longrightarrow> P (evictOnce iter p)"
  by (cases iter p rule: evictOnce_cases) (simp_all add: post_cmd_kept)

lemma alignLoop_kept: "P p \<Longrightarrow> P (alignLoop iter now mn mx p)"
proof (induction "pa_room (pPorts p)" arbitrary: p rule: less_induct)
  case less
  show ?case
  proof (cases rule: alignLoop_cases [of mn p iter now mx])
    case (4 p1)
    then show ?thesis using less.hyps [OF createInstance_room created [OF less.prems]] by simp
  qed (simp_all add: less.prems evictOnce_kept created [OF less.prems])
qed

lemma align_kept: "P p \<Longrightarrow> P (align iter now p)"
  by (simp add: align_def Let_def evictOnce_kept alignLoop_kept)

lemma removeInstance_kept [simp]: "P (removeInstance iter i p) = P p"
  by (simp add: removeInstance_def Let_def split: option.split)

lemma handleReady_kept: "P p \<Longrightarrow> P (handleReady i eg p)"
  by (simp add: handleReady_def Let_def post_cmd_kept)

lemma handleEvent_kept: "P p \<Longrightarrow> P (handleEvent iter now ev p)"
  by (simp add: handleEvent_def handleReady_kept align_kept split: evKind.split)

lemma fold_kept: "(\<And>i q. P q \<Longrightarrow> P (f i q)) \<Longrightarrow> P p \<Longrightarrow> P (fold f is p)"
  by (induction "is" arbitrary: p) auto

lemma applyKey_kept: "P p \<Longrightarrow> P (applyKey i key eg p)"
  by (simp add: applyKey_def post_cmd_kept)

lemma applyEgress_kept: "P p \<Longrightarrow> P (applyEgress i eg err p)"
  by (simp add: applyEgress_def storeEgress_def applyKey_kept cell_kept)

lemma checks_kept:
  "P p \<Longrightarrow> store_ext (pStore p) later \<Longrightarrow> P (healthCheck iter arrive answer later p)"
  "P p \<Longrightarrow> store_ext (pStore p) later \<Longrightarrow> P (egressCheck iter arrive answer' later p)"
  "P p \<Longrightarrow> P (reconfirmProbing iter p)"
proof -
  show "P p \<Longrightarrow> store_ext (pStore p) later \<Longrightarrow> P (healthCheck iter arrive answer later p)"
    unfolding healthCheck_def
    by (intro fold_kept store_kept) (simp_all add: post_cmd_kept split: task.split bool.split)
  show "P p \<Longrightarrow> store_ext (pStore p) later \<Longrightarrow> P (egressCheck iter arrive answer' later p)"
    unfolding egressCheck_def
    by (intro fold_kept store_kept) (simp_all add: applyEgress_kept split: task.split)
  show "P p \<Longrightarrow> P (reconfirmProbing iter p)"
    unfolding reconfirmProbing_def by (rule fold_kept) (simp_all add: post_cmd_kept)
qed

lemma setStatus_kept: "P p \<Longrightarrow> P (snd (pool_setStatus i s p))"
  by (simp add: pool_setStatus_def Let_def pool_send_eq post_cmd_kept)

lemma dialLoop_kept: "P p \<Longrightarrow> P (snd (dialLoop ctxErr through k vs err p))"
proof (induction vs arbitrary: k err p)
  case (Cons v vs)
  have "P (snd (dialView (through k) v p))"
    using Cons.prems cell_kept [of "p\<lparr>pDialTotal := pDialTotal p + 1\<rparr>" "trackConn c (handleOf p v)" v for c]
    by (simp add: dialView_def Let_def split: sum.split)
  with Cons show ?case by (auto split: option.split sum.split prod.split)
qed simp

lemma dials_kept:
  "P p \<Longrightarrow> P (snd (DialContext ctxErr through p))"
  "P p \<Longrightarrow> P (snd (DialContextWithKey ctxErr through key p))"
  "P p \<Longrightarrow> P (snd (conn_Close closeErr c p))"
  by (simp_all add: DialContext_def DialContextWithKey_def nextStart_def dial_def dialKey_def
      dialLoop_kept Let_def conn_Close_def cell_kept)

text \<open>Every step, hence every reachable pool.\<close>

lemma step_kept: "pool_step p q \<Longrightarrow> P p \<Longrightarrow> P q"
  by (induction rule: pool_step.induct)
     (simp_all add: reconcile_tick_def handleEvent_kept align_kept checks_kept store_kept
       setStatus_kept limits dials_kept Close_def)

lemma reach_kept:
  assumes "pool_reach raw p" and "\<And>dirOk q. newPool raw dirOk = Inr q \<Longrightarrow> P q"
  shows "P p"
  using assms by (induction rule: pool_reach.induct) (auto intro: step_kept)

end

section \<open>The configuration of a pool\<close>

interpretation completed: pool_invariant "\<lambda>p. pOpts p = o1" for o1
  by unfold_locales
     (auto simp: createInstance_def setMin_def setMax_def wakeup_def Let_def split: prod.splits bool.splits)

lemma pool_reach_options:
  assumes "pool_reach raw p"
  shows "pOpts p = withDefaults raw" and "valid_options (pOpts p)"
proof -
  have new: "pOpts q = withDefaults raw \<and> Validate (withDefaults raw) = None" if "newPool raw dirOk = Inr q" for dirOk q
    using newPool_fields [OF that] by blast
  then show o: "pOpts p = withDefaults raw" by (intro completed.reach_kept [OF assms]) simp
  have "Validate (withDefaults raw) = None"
    using assms by (induction rule: pool_reach.induct) (use new in blast)+
  then show "valid_options (pOpts p)" by (simp add: o Validate_None_iff)
qed

section \<open>The limits\<close>

interpretation ordered: pool_invariant "\<lambda>p. sint (pMin p) \<le> sint (pMax p)"
  by unfold_locales
     (auto simp: createInstance_def setMin_def setMax_def wakeup_def Let_def split: prod.splits bool.splits)

end
