(* ===== verification/AlignProps.thy ===== *)
theory AlignProps
  imports PoolProps PoolFrame
begin

text \<open>
  Properties of the alignment of the number of instances, of eviction, and of the limits
  \<open>Min\<close> and \<open>Max\<close>.
\<close>

section \<open>One creation\<close>

lemma activeCount_cong:
  "pInsts q = pInsts p \<Longrightarrow> (\<And>i. i \<in> set (pInsts p) \<Longrightarrow> statusOf q i = statusOf p i) \<Longrightarrow>
   activeCount q = activeCount p"
  unfolding activeCount_def by (metis (mono_tags, lifting) filter_cong)

lemma statusOf_post_cmd [simp]: "statusOf (post_cmd j c p) i = statusOf p i"
  by (auto simp: post_cmd_eq send_def chan_send_def split: prod.split)

lemma statusOf_evictOnce [simp]: "statusOf (evictOnce iter p) i = statusOf p i"
  by (cases iter p rule: evictOnce_cases) simp_all

lemma activeCount_evictOnce [simp]: "activeCount (evictOnce iter p) = activeCount p"
  by (rule activeCount_cong) simp_all

lemma pPorts_evictOnce [simp]:
  "pPorts (evictOnce iter p) = pPorts p" "pPortOf (evictOnce iter p) = pPortOf p"
  by (cases iter p rule: evictOnce_cases; simp)+

lemma createInstance_True:
  assumes ids: "ids_inv p" and new: "createInstance iter now p = (True, q)"
  shows "pInsts q = pInsts p @ [seqID (pNextSeq p)]" "pNextSeq q = pNextSeq p + 1"
    and "\<And>i. i \<in> set (pInsts p) \<Longrightarrow> statusOf q i = statusOf p i"
    and "statusOf q (seqID (pNextSeq p)) = StatusProbing"
    and "activeCount q = activeCount p + 1"
    and "pMin q = pMin p" "pMax q = pMax p" "pOpts q = pOpts p"
proof -
  obtain addr off ports where acq: "pa_acquire (pPorts p) = ((addr, off, True), ports)"
    and q: "q = publish iter (added now addr off ports p)"
    using new by (auto simp: createInstance_eq [OF ids] split: prod.splits if_splits)
  show "pInsts q = pInsts p @ [seqID (pNextSeq p)]" "pNextSeq q = pNextSeq p + 1"
    by (simp_all add: q)
  show old: "statusOf q i = statusOf p i" if "i \<in> set (pInsts p)" for i
    using that ids_inv_fresh [OF ids] by (auto simp: q)
  show "statusOf q (seqID (pNextSeq p)) = StatusProbing" by (simp add: q)
  have "filter (\<lambda>i. countsActive (statusOf q i)) (pInsts p) = filter (\<lambda>i. countsActive (statusOf p i)) (pInsts p)"
    using old by (intro filter_cong) simp_all
  then show "activeCount q = activeCount p + 1"
    by (simp add: activeCount_def q countsActive_def)
  show "pMin q = pMin p" "pMax q = pMax p" "pOpts q = pOpts p"
    by (simp_all add: q publish_def added_def)
qed

lemma createInstance_False:
  assumes inv: "pool_inv p" and new: "createInstance iter now p = (False, q)"
  shows "q = p" and "ran (pPortOf p) = {..<nat (65536 - paBase (pPorts p))}"
proof -
  note ids = pool_inv_ids [OF inv]
  have tab: "slot_table paUsed pa_inv (pPortOf p) (pPorts p)"
    using inv by (simp add: pool_inv_def tables_inv_def ports_inv_def)
  then have good: "pa_inv (pPorts p)" by (simp add: slot_table_def)
  obtain addr off ports where acq: "pa_acquire (pPorts p) = ((addr, off, False), ports)"
    and q: "q = p\<lparr>pPorts := ports\<rparr>"
    using new by (auto simp: createInstance_eq [OF ids] split: prod.splits if_splits)
  show "q = p" using pa_acquire_False [OF good acq] q by simp
  show "ran (pPortOf p) = {..<nat (65536 - paBase (pPorts p))}"
    using pa_acquire_False [OF good acq] tab by (simp add: slot_table_def maxListenPort_def)
qed

section \<open>The loop\<close>

text \<open>\<open>grown k p q\<close>: \<open>q\<close> has \<open>k\<close> more members than \<open>p\<close>, all of them probing.\<close>

definition grown :: "nat \<Rightarrow> pool \<Rightarrow> pool \<Rightarrow> bool" where
  "grown k p q \<longleftrightarrow> pInsts q = pInsts p @ map seqID [pNextSeq p..<pNextSeq p + k] \<and>
     pNextSeq q = pNextSeq p + k \<and> activeCount q = activeCount p + k \<and>
     (\<forall>i \<in> set (pInsts p). statusOf q i = statusOf p i) \<and>
     (\<forall>n \<in> {pNextSeq p..<pNextSeq p + k}. statusOf q (seqID n) = StatusProbing)"

definition settled :: "int \<Rightarrow> int \<Rightarrow> pool \<Rightarrow> bool" where
  "settled mn mx q \<longleftrightarrow> mn \<le> int (activeCount q) \<or> mx \<le> int (length (pInsts q)) \<or>
     ran (pPortOf q) = {..<nat (65536 - paBase (pPorts q))}"

lemma grown_0: "grown 0 p p" "grown 0 p (evictOnce iter p)"
  by (simp_all add: grown_def)

lemma grown_Suc:
  assumes "ids_inv p" and "createInstance iter now p = (True, p1)" and g: "grown k p1 q"
  shows "grown (Suc k) p q"
proof -
  note c = createInstance_True [OF assms(1,2)]
  have "[pNextSeq p..<pNextSeq p + Suc k] = pNextSeq p # [pNextSeq p + 1..<pNextSeq p + 1 + k]"
    by (simp add: upt_conv_Cons)
  then have "pInsts q = pInsts p @ map seqID [pNextSeq p..<pNextSeq p + Suc k]"
    using g c(1,2) by (simp add: grown_def)
  moreover have "statusOf q i = statusOf p i" if "i \<in> set (pInsts p)" for i
    using g c(1,3) that by (simp add: grown_def)
  moreover have "statusOf q (seqID n) = StatusProbing" if "n \<in> {pNextSeq p..<pNextSeq p + Suc k}" for n
  proof (cases "n = pNextSeq p")
    case True
    then show ?thesis using g c(1,4) by (simp add: grown_def)
  next
    case False
    with that have "n \<in> {pNextSeq p1..<pNextSeq p1 + k}" by (auto simp: c(2))
    then show ?thesis using g unfolding grown_def by blast
  qed
  ultimately show ?thesis using g c(2,5) by (simp add: grown_def)
qed

lemma alignLoop_spec:
  assumes iter: "perm_iter iter"
  shows "pool_inv p \<Longrightarrow> int (length (pInsts p)) \<le> mx \<Longrightarrow>
    \<exists>k. grown k p (alignLoop iter now mn mx p) \<and> settled mn mx (alignLoop iter now mn mx p) \<and>
      int (length (pInsts (alignLoop iter now mn mx p))) \<le> mx \<and>
      (0 < k \<longrightarrow> int (activeCount p) + int k \<le> mn)"
proof (induction "pa_room (pPorts p)" arbitrary: p rule: less_induct)
  case less
  note ids = pool_inv_ids [OF less.prems(1)]
  show ?case
  proof (cases rule: alignLoop_cases [of mn p iter now mx])
    case 1
    then show ?thesis using less.prems grown_0 by (intro exI [of _ 0]) (simp add: settled_def)
  next
    case 2
    then show ?thesis using less.prems grown_0 by (intro exI [of _ 0]) (simp add: settled_def)
  next
    case (3 p1)
    from createInstance_False [OF less.prems(1) 3(3)] less.prems 3(4) show ?thesis
      using grown_0 by (intro exI [of _ 0]) (simp add: settled_def)
  next
    case (4 p1)
    note c = createInstance_True [OF ids 4(3)]
    have "pool_inv p1" by (rule pool_inv_createInstance [OF less.prems(1) iter 4(3)])
    moreover have "int (length (pInsts p1)) \<le> mx" using 4(2) c(1) by simp
    ultimately obtain k where k: "grown k p1 (alignLoop iter now mn mx p1)"
      "settled mn mx (alignLoop iter now mn mx p1)"
      "int (length (pInsts (alignLoop iter now mn mx p1))) \<le> mx"
      "0 < k \<longrightarrow> int (activeCount p1) + int k \<le> mn"
      using less.hyps [OF createInstance_room [OF 4(3)]] by blast
    from grown_Suc [OF ids 4(3) k(1)] k 4(1,4) c(5) show ?thesis
      by (intro exI [of _ "Suc k"]) auto
  qed
qed

section \<open>Properties\<close>

text \<open>C8: One alignment of a reachable pool with limits \<open>lo\<close> and \<open>hi\<close>. Above \<open>hi\<close> members it
  only asks the evictor once. Otherwise it creates some number \<open>k\<close> of fresh instances, all
  probing, and leaves the others' states alone; it never exceeds \<open>hi\<close> members and creates
  none beyond what is missing to \<open>lo\<close> active ones; and it stops only when \<open>lo\<close> instances are
  active, or \<open>hi\<close> members exist, or every port up to 65535 is taken.\<close>

theorem align_converges:
  fixes iter now p
  assumes "pool_reach raw p" and "\<And>xs. mset (iter xs) = mset xs"
  defines "lo \<equiv> sint (pMin p)" and "hi \<equiv> sint (pMax p)" and "q \<equiv> align iter now p"
  shows "if hi < int (length (pInsts p)) then q = evictOnce iter p
    else \<exists>k. grown k p q \<and> int (length (pInsts q)) \<le> hi \<and>
      (0 < k \<longrightarrow> int (activeCount q) \<le> lo) \<and>
      (lo \<le> int (activeCount q) \<or> int (length (pInsts q)) = hi \<or>
       ran (pPortOf q) = {..<nat (65536 - paBase (pPorts q))})"
proof (cases "hi < int (length (pInsts p))")
  case True
  then show ?thesis by (simp add: q_def align_def Let_def hi_def)
next
  case False
  have iter: "perm_iter iter" using assms(2) by (simp add: perm_iter_def)
  have q: "q = alignLoop iter now lo hi p"
    using False by (simp add: q_def align_def Let_def hi_def lo_def)
  obtain k where k: "grown k p q" "settled lo hi q" "int (length (pInsts q)) \<le> hi"
    "0 < k \<longrightarrow> int (activeCount p) + int k \<le> lo"
    using alignLoop_spec [OF iter pool_reach_inv [OF assms(1)], of hi now lo] False q by auto
  moreover have "activeCount q = activeCount p + k" using k(1) by (simp add: grown_def)
  ultimately show ?thesis using False by (auto simp: settled_def intro!: exI [of _ k])
qed

theorem align_converges_witness:
  "pInsts (align (\<lambda>xs. xs) int demo0) = [seqID 0, seqID 1] \<and>
   int (length (pInsts (align rev int demo0))) \<le> 3"
proof -
  have lim: "sint (pMin demo0) = 2" "sint (pMax demo0) = 3" "pInsts demo0 = []"
    by (simp_all add: demo0_def)
  have "pInsts (align (\<lambda>xs. xs) int demo0) = [seqID 0, seqID 1]"
    using demo1_fields by (simp add: demo1_def reconcile_tick_def)
  moreover have "int (length (pInsts (align rev int demo0))) \<le> 3"
    using align_converges [OF reach_demo0, of rev int] unfolding lim by auto
  ultimately show ?thesis by simp
qed

text \<open>With \<open>EvictOldest\<close>, an eviction in a reachable pool offers a stop command to one
  settled member and changes nothing else. No settled member is further out of service than
  the victim, and none as far out of service is older; a probing member is never stopped.
  When no member is settled nothing happens. With \<open>EvictNone\<close> nothing ever happens.\<close>

theorem eviction_target:
  assumes "pool_reach raw p" and "\<And>xs. mset (iter xs) = mset xs"
  defines "S \<equiv> {StatusNormal, StatusDraining, StatusDisabled}"
  shows "(oEvictor (pOpts p) = Some EvictNone \<longrightarrow> evictOnce iter p = p) \<and>
    (oEvictor (pOpts p) = Some EvictOldest \<longrightarrow>
      (if \<forall>i \<in> set (pInsts p). statusOf p i \<notin> S then evictOnce iter p = p
       else \<exists>v \<in> set (pInsts p). evictOnce iter p = post_cmd v (cmd cmdStop) p \<and> statusOf p v \<in> S \<and>
         (\<forall>i \<in> set (pInsts p). statusOf p i \<in> S \<longrightarrow> statusOf p i < statusOf p v \<or>
            statusOf p i = statusOf p v \<and> inCreatedAt (handleOf p v) \<le> inCreatedAt (handleOf p i))))"
proof -
  note ids = pool_inv_ids [OF pool_reach_inv [OF assms(1)]]
  have iter: "perm_iter iter" using assms(2) by (simp add: perm_iter_def)
  let ?view = "\<lambda>i. \<lparr>ivID = inID (handleOf p i), ivStatus = statusOf p i,
                    ivCreatedAt = inCreatedAt (handleOf p i)\<rparr>"
  have views: "set (views iter p) = ?view ` set (pInsts p)"
    by (auto simp: views_def perm_iter_set [OF iter])
  have self: "inID (handleOf p i) = i" if "i \<in> set (pInsts p)" for i
    using ids ids_inv_dom [OF ids that] by (simp add: ids_inv_def)
  have none: "evictOnce iter p = p" if "oEvictor (pOpts p) = Some EvictNone"
    using that by (simp add: evictOnce_def EvictNone_def)
  show ?thesis
  proof (intro conjI impI none)
    assume ev: "oEvictor (pOpts p) = Some EvictOldest"
    show "if \<forall>i \<in> set (pInsts p). statusOf p i \<notin> S then evictOnce iter p = p
       else \<exists>v \<in> set (pInsts p). evictOnce iter p = post_cmd v (cmd cmdStop) p \<and> statusOf p v \<in> S \<and>
         (\<forall>i \<in> set (pInsts p). statusOf p i \<in> S \<longrightarrow> statusOf p i < statusOf p v \<or>
            statusOf p i = statusOf p v \<and> inCreatedAt (handleOf p v) \<le> inCreatedAt (handleOf p i))"
    proof (cases "snd (EvictOldest (views iter p))")
      case False
      then have "\<forall>i \<in> set (pInsts p). statusOf p i \<notin> S"
        using EvictOldest_ok_iff [of "views iter p"] by (auto simp: views evictable_iff S_def)
      with False show ?thesis by (auto simp: evictOnce_def ev split: prod.split)
    next
      case True
      then have found: "EvictOldest (views iter p) = (fst (EvictOldest (views iter p)), True)"
        by (metis prod.collapse)
      then obtain v where v: "v \<in> set (pInsts p)" "fst (EvictOldest (views iter p)) = v"
        "statusOf p v \<in> S" "\<forall>i \<in> set (pInsts p). statusOf p i \<in> S \<longrightarrow> statusOf p i < statusOf p v \<or>
            statusOf p i = statusOf p v \<and> inCreatedAt (handleOf p v) \<le> inCreatedAt (handleOf p i)"
        using EvictOldest_victim [OF found] unfolding views S_def [symmetric] by (auto simp: self)
      then have "evictOnce iter p = post_cmd v (cmd cmdStop) p"
        using found by (simp add: evictOnce_def ev split: prod.split)
      with v show ?thesis by auto
    qed
  qed
qed

theorem eviction_target_witness:
  "\<exists>v \<in> {seqID 0, seqID 1}. evictOnce rev demoServing = post_cmd v (cmd cmdStop) demoServing \<and>
     statusOf demoServing v \<noteq> StatusProbing"
proof -
  have "oEvictor (pOpts demoServing) = Some EvictOldest"
    by (simp add: demoServing_fields withDefaults_def demoOptions_def if_nil_def)
  then show ?thesis
    using eviction_target [OF reach_demoServing, of rev] by (auto simp: demoServing_fields)
qed

section \<open>Limits\<close>

lemma sint_int32: "- (2 ^ 31) \<le> n \<Longrightarrow> n < 2 ^ 31 \<Longrightarrow> sint (int32 n) = n"
  by (simp add: int32_def sint_sbintrunc' signed_take_bit_int_eq_self)

lemma newPool_limits:
  assumes "newPool raw dirOk = Inr p"
  shows "sint (pMin p) = oMin raw" and "sint (pMax p) = oMax raw"
    and "0 < oMin raw" and "oMin raw \<le> oMax raw" and "oMax raw \<le> 65535"
proof -
  note f = newPool_fields [OF assms]
  then have "Validate (withDefaults raw) = None" by blast
  then show range: "0 < oMin raw" "oMin raw \<le> oMax raw" "oMax raw \<le> 65535"
    unfolding Validate_withDefaults by (simp_all add: maxListenPort_def)
  show "sint (pMin p) = oMin raw" "sint (pMax p) = oMax raw"
    using f range by (simp_all add: sint_int32)
qed

text \<open>A pool is created exactly when the completed configuration validates and the state
  directory can be made; the port allocator then never fails. The new pool has no members,
  its limits are the configured ones, with \<open>1 \<le> Min \<le> Max \<le> 65535\<close>, no port is taken and
  nothing is published.\<close>

theorem newPool_outcome:
  "(case newPool raw dirOk of
      Inl (BadConfig e) \<Rightarrow> Validate (withDefaults raw) = Some e
    | Inl MkdirFailed \<Rightarrow> Validate (withDefaults raw) = None \<and> \<not> dirOk
    | Inl (BadListen e) \<Rightarrow> False
    | Inr p \<Rightarrow> Validate (withDefaults raw) = None \<and> dirOk \<and> pInsts p = [] \<and> Instances p = [] \<and>
        sint (pMin p) = oMin raw \<and> sint (pMax p) = oMax raw \<and>
        1 \<le> oMin raw \<and> oMin raw \<le> oMax raw \<and> oMax raw \<le> 65535 \<and>
        paUsed (pPorts p) = {} \<and> \<not> pClosed p)"
proof (cases "newPool raw dirOk")
  case (Inl e)
  have "\<exists>a. newPortAllocator (oListenBase (withDefaults raw)) = Inr a"
    if "Validate (withDefaults raw) = None"
    using that validateHostPort_allocator [of "oListenBase (withDefaults raw)"]
    by (simp add: Validate_None_iff valid_options_def)
  with Inl show ?thesis
    by (auto simp: newPool_def Let_def split: option.splits if_splits sum.splits)
next
  case (Inr p)
  note f = newPool_fields [OF Inr] and l = newPool_limits [OF Inr]
  have "paUsed (pPorts p) = {}" using f newPortAllocator_inv by blast
  with Inr f l show ?thesis by (simp add: Instances_def)
qed

text \<open>Whatever arguments \<open>SetMin\<close> and \<open>SetMax\<close> were called with, truncated ones included, the
  lower limit does not exceed the upper one.\<close>

lemma limits_ordered:
  assumes "pool_reach raw p"
  shows "sint (pMin p) \<le> sint (pMax p)"
  by (rule ordered.reach_kept [OF assms]) (simp add: newPool_limits)

text \<open>For arguments that fit 32 bits the two setters do what they promise: \<open>SetMin n\<close> is
  accepted exactly for \<open>0 < n \<le> Max\<close>, \<open>SetMax n\<close> exactly for \<open>Min \<le> n\<close>; the new limit is \<open>n\<close>,
  the coordinator is woken, and a refusal changes nothing.\<close>

theorem limit_setters:
  assumes "- (2 ^ 31) \<le> n" and "n < 2 ^ 31"
  shows "(case setMin n p of
      (None, q) \<Rightarrow> 0 < n \<and> n \<le> sint (pMax p) \<and> sint (pMin q) = n \<and> pMax q = pMax p \<and> pWake q
    | (Some e, q) \<Rightarrow> q = p \<and> (n \<le> 0 \<and> e = MinNotPos \<or>
        sint (pMax p) < n \<and> e = MinExceedsMax n (sint (pMax p)))) \<and>
    (case setMax n p of
      (None, q) \<Rightarrow> sint (pMin p) \<le> n \<and> sint (pMax q) = n \<and> pMin q = pMin p \<and> pWake q
    | (Some e, q) \<Rightarrow> q = p \<and> n < sint (pMin p) \<and> e = MaxBelowMin n (sint (pMin p)))"
  using sint_int32 [OF assms] by (simp add: setMin_def setMax_def wakeup_def)

theorem limit_setters_witness:
  "\<exists>q. setMin 3 demo1 = (None, q) \<and> sint (pMin q) = 3"
  using limit_setters [of 3 demo1] demo1_fields by (auto split: prod.splits option.splits)

text \<open>C19: \<open>SetMin\<close> does not look at the bits above the 32nd: \<open>2 ^ 32\<close>, which no pool can
  reach, is accepted whenever \<open>Max\<close> is not negative, and sets the lower limit to 0, so that
  the next alignment creates nothing even in an empty pool.\<close>

theorem setMin_truncates:
  assumes "0 \<le> sint (pMax p)" and "pInsts p = []"
  shows "\<exists>q. setMin (2 ^ 32) p = (None, q) \<and> sint (pMin q) = 0 \<and> align iter now q = q"
proof -
  have z: "int32 (2 ^ 32) = 0" by (simp add: int32_def)
  let ?q = "wakeup (p\<lparr>pMin := 0\<rparr>)"
  have "setMin (2 ^ 32) p = (None, ?q)" using assms(1) z by (simp add: setMin_def)
  moreover have "align iter now ?q = ?q"
    using assms
    by (simp add: align_def Let_def alignLoop.simps activeCount_def wakeup_def)
  ultimately show ?thesis by (intro exI [of _ ?q]) (simp add: wakeup_def)
qed

theorem setMin_truncates_witness:
  "\<exists>q. setMin (2 ^ 32) demo0 = (None, q) \<and> sint (pMin q) = 0 \<and> align rev int q = q"
  by (rule setMin_truncates) (simp_all add: demo0_def)

text \<open>Closing is idempotent and final for dialling: the first \<open>Close\<close> marks the pool closed
  and cancelled and waits for the members, a second one waits for nothing and changes
  nothing, and both dial calls return the closed error without touching the pool.\<close>

theorem close_final:
  assumes "\<not> pCloseOnce p"
  shows "fst (Close p) = pInsts p \<and>
    (let q = snd (Close p)
     in pClosed q \<and> pCancelled q \<and> Close q = ([], q) \<and>
        DialContext ctxErr through q = (Inl (Some DialPoolClosed), q) \<and>
        DialContextWithKey ctxErr through key q = (Inl (Some DialPoolClosed), q))"
  using assms by (simp add: Close_def DialContext_def DialContextWithKey_def Let_def)

text \<open>A panic of the coordinator leaves a pool that refuses to dial and that \<open>Close\<close> still cleans
  up: it cancels the instances and waits for all of them.\<close>

lemma crash_refuses:
  fixes p :: pool
  defines "q \<equiv> coordinator_end LoopPanicked p"
  shows "DialContext ctxErr through q = (Inl (Some DialPoolClosed), q) \<and>
    DialContextWithKey ctxErr through key q = (Inl (Some DialPoolClosed), q) \<and>
    (\<not> pCloseOnce p \<longrightarrow> fst (Pool_Close q) = pInsts p \<and> pCancelled (snd (Pool_Close q)))"
  by (simp add: q_def coordinator_end_def DialContext_def DialContextWithKey_def Pool_Close_def Close_def)

theorem close_final_witness:
  "fst (Close demo1) = [seqID 0, seqID 1] \<and> Close (snd (Close demo1)) = ([], snd (Close demo1))"
  using close_final [of demo1] demo1_fields by (simp add: Let_def)

end
