(* ===== verification/CheckProps.thy ===== *)
theory CheckProps
  imports AlignProps
begin

text \<open>
  Properties of the periodic checks, of manual state changes and of the removal of a member.
\<close>

section \<open>Commands posted to a list of members\<close>

lemma fold_post_cmds:
  assumes step: "\<And>i q. f i q = (if P q i then post_cmd i (c q) q else q)"
    and frame: "\<And>q s. c (q\<lparr>pStore := s\<rparr>) = c q"
    and local: "\<And>q i j h. i \<noteq> j \<Longrightarrow> P (q\<lparr>pStore := (pStore q)(j \<mapsto> h)\<rparr>) i = P q i"
  shows "distinct is \<Longrightarrow> fold f is p = p\<lparr>pStore := \<lambda>j. if j \<in> set is \<and> P p j
    then Some (snd (send (c p) (handleOf p j))) else pStore p j\<rparr>"
proof (induction "is" arbitrary: p)
  case (Cons i "is")
  let ?p = "f i p"
  have p: "?p = (if P p i then p\<lparr>pStore := (pStore p)(i \<mapsto> snd (send (c p) (handleOf p i)))\<rparr> else p)"
    by (simp add: step post_cmd_eq)
  have keep: "P ?p j = P p j" "pStore ?p j = pStore p j" if "j \<noteq> i" for j
    using that local [of j i p] by (simp_all add: p)
  have "c ?p = c p" by (simp add: p frame)
  moreover have "fold f is ?p = ?p\<lparr>pStore := \<lambda>j. if j \<in> set is \<and> P ?p j
      then Some (snd (send (c ?p) (handleOf ?p j))) else pStore ?p j\<rparr>"
    using Cons.prems by (intro Cons.IH) simp
  moreover have "(\<lambda>j. if j \<in> set is \<and> P ?p j then Some (snd (send (c p) (handleOf ?p j))) else pStore ?p j)
      = (\<lambda>j. if j \<in> set (i # is) \<and> P p j then Some (snd (send (c p) (handleOf p j))) else pStore p j)"
  proof
    fix j
    show "(if j \<in> set is \<and> P ?p j then Some (snd (send (c p) (handleOf ?p j))) else pStore ?p j)
      = (if j \<in> set (i # is) \<and> P p j then Some (snd (send (c p) (handleOf p j))) else pStore p j)"
      using Cons.prems keep [of j] by (cases "j = i") (auto simp: p)
  qed
  moreover have "?p\<lparr>pStore := s\<rparr> = p\<lparr>pStore := s\<rparr>" for s by (simp add: p)
  ultimately show ?case by (simp cong: if_cong)
qed simp

lemma iter_distinct: "perm_iter iter \<Longrightarrow> distinct (iter xs) = distinct xs"
  unfolding perm_iter_def by (metis mset_eq_imp_distinct_iff)

text \<open>C20: A health check offers a drain command, with the configured timeout, to exactly the
  members that were in normal state when the check began and whose probe failed; a check
  that panicked counts as no answer. The order of iteration and the order in which the
  answers arrive make no difference.\<close>

theorem health_drains_failed:
  assumes "pool_reach raw p" and "\<And>xs. mset (iter xs) = mset xs" and "\<And>xs. mset (arrive xs) = mset xs"
    and "store_ext (pStore p) later"
  shows "healthCheck iter arrive answer later p = p\<lparr>pStore := \<lambda>i.
    if i \<in> set (pInsts p) \<and> statusOf p i = StatusNormal \<and> answer i = TaskReturns True
    then Some (snd (send \<lparr>cKind = cmdDrain, cTimeout = oDrainTimeout (pOpts p)\<rparr> (the (later i))))
    else later i\<rparr>"
proof -
  have iter: "perm_iter iter" "perm_iter arrive" using assms(2,3) by (simp_all add: perm_iter_def)
  have "distinct (arrive (normalInsts iter p))"
    using ids_inv_distinct [OF pool_inv_ids [OF pool_reach_inv [OF assms(1)]]] iter
    by (simp add: iter_distinct normalInsts_def)
  moreover have "set (arrive (normalInsts iter p)) = {i \<in> set (pInsts p). statusOf p i = StatusNormal}"
    using iter by (auto simp: perm_iter_set normalInsts_def)
  moreover have "healthResult answer i q =
      (if answer i = TaskReturns True then post_cmd i (drainCmd q) q else q)" for i q
    by (simp split: task.split bool.split)
  ultimately show ?thesis
    using fold_post_cmds [of "healthResult answer" "\<lambda>q i. answer i = TaskReturns True" drainCmd
        "arrive (normalInsts iter p)" "p\<lparr>pStore := later\<rparr>"]
    by (simp add: healthCheck_def drainCmd_def conj_assoc cong: conj_cong if_cong)
qed

theorem health_drains_failed_witness:
  "inCmds (handleOf (healthCheck rev rev (\<lambda>i. TaskReturns True) (pStore demoServing) demoServing) (seqID 0))
     = [\<lparr>cKind = cmdDrain, cTimeout = 10 * second\<rparr>] \<and>
   inCmds (handleOf (healthCheck rev rev (\<lambda>i. TaskReturns True) (pStore demoServing) demoServing) (seqID 1)) = []"
  using health_drains_failed [OF reach_demoServing, of rev rev "pStore demoServing" "\<lambda>i. TaskReturns True"]
  by (simp add: demoServing_fields demoHandle_def send_def chan_send_def cmdChanCap_def withDefaults_def
      demoOptions_def if_not_positive_def defaultDrainTimeout_def)

text \<open>\<open>reconfirmProbing\<close> offers the confirmation again to exactly the members that are
  decided (a key or the empty mark is registered), still probing and waiting for it, in
  whatever order the map is iterated; it touches nothing else, so a member in the empty-key
  cycle is not confirmed.\<close>

theorem reconfirm_exact:
  assumes "pool_reach raw p" and "\<And>xs. mset (iter xs) = mset xs"
  shows "reconfirmProbing iter p = p\<lparr>pStore := \<lambda>i.
    if i \<in> dom (pKeysByInst p) \<and> statusOf p i = StatusProbing \<and> inAwaitConfirm (handleOf p i)
    then Some (snd (send (cmd cmdConfirm) (handleOf p i))) else pStore p i\<rparr>"
proof -
  note inv = pool_reach_inv [OF assms(1)]
  have iter: "perm_iter iter" using assms(2) by (simp add: perm_iter_def)
  have "distinct (iter (pInsts p))"
    using ids_inv_distinct [OF pool_inv_ids [OF inv]] iter by (simp add: iter_distinct)
  moreover have "needsConfirm (q\<lparr>pStore := (pStore q)(j \<mapsto> h)\<rparr>) i = needsConfirm q i"
    if "i \<noteq> j" for q :: pool and i j h
    using that by (simp add: needsConfirm_def)
  ultimately have "reconfirmProbing iter p = p\<lparr>pStore := \<lambda>i.
      if i \<in> set (iter (pInsts p)) \<and> needsConfirm p i
      then Some (snd (send (cmd cmdConfirm) (handleOf p i))) else pStore p i\<rparr>"
    unfolding reconfirmProbing_def by (intro fold_post_cmds) simp_all
  moreover have "i \<in> set (pInsts p)" if "i \<in> dom (pKeysByInst p)" for i
    using that pool_inv_keysD [OF inv] by (auto simp: keys_inv_def)
  ultimately show ?thesis
    by (auto simp: needsConfirm_def perm_iter_set [OF iter] fun_eq_iff intro!: pool.fold_congs)
qed

theorem reconfirm_exact_witness:
  "pool_reach demoOptions demo2 \<and> reconfirmProbing rev demo2 = demo2"
  using reconfirm_exact [OF reach_demo2, of rev] reach_demo2 demo2_fields
  by (simp add: demoHandle_def fun_eq_iff)

section \<open>Egress checks\<close>

text \<open>C21: The decision on a re-probed egress of a member. A successful probe is written to the
  instance first. An address without key releases the old key and sends nothing; no key at
  all drains the instance; the registered key again changes nothing; a key held by another
  member \<open>j\<close> drains the one created later (the checked one on a tie or when they cannot be
  compared) and leaves the tables alone; a free key replaces the old one.\<close>

theorem applyEgress_decision:
  fixes p i eg err
  assumes "pool_reach raw p" and "i \<in> set (pInsts p)"
  defines "key \<equiv> (if err then '''' else keyOf p eg)"
    and "p1 \<equiv> (if \<not> err \<and> eg \<noteq> zeroEgress then storeEgress i eg p else p)"
    and "q \<equiv> applyEgress i eg err p"
    and "released \<equiv> (\<lambda>k. if pKeysByInst p i = Some k then None else pUsedKeys p k)"
  shows "if key = '''' \<and> anyValid eg then
      pStore q = pStore p1 \<and> pKeysByInst q = (pKeysByInst p)(i := None) \<and> pUsedKeys q = released
    else if key = '''' then
      sent i (drainCmd p) p1 q \<and> pKeysByInst q = pKeysByInst p \<and> pUsedKeys q = pUsedKeys p
    else if pKeysByInst p i = Some key then q = p1
    else case pUsedKeys p key of
      Some j \<Rightarrow> j \<noteq> i \<and>
        sent (if inCreatedAt (handleOf p i) < inCreatedAt (handleOf p j) then j else i) (drainCmd p) p1 q \<and>
        pKeysByInst q = pKeysByInst p \<and> pUsedKeys q = pUsedKeys p
    | None \<Rightarrow> pStore q = pStore p1 \<and> pKeysByInst q = (pKeysByInst p)(i \<mapsto> key) \<and>
        pUsedKeys q = released(key \<mapsto> i)"
proof -
  note inv = pool_reach_inv [OF assms(1)]
  have p1: "pool_inv p1" "pInsts p1 = pInsts p" "pKeysByInst p1 = pKeysByInst p"
    "pUsedKeys p1 = pUsedKeys p" "drainCmd p1 = drainCmd p"
    "\<And>j. inCreatedAt (handleOf p1 j) = inCreatedAt (handleOf p j)"
    using inv assms(2) storeEgress_inv by (auto simp: p1_def drainCmd_def storeEgress_def)
  note kinv = pool_inv_keysD [OF inv] and k1inv = pool_inv_keysD [OF p1(1)]
  have ne: "i \<noteq> ''''" by (rule member_neq_Nil [OF inv assms(2)])
  have rel: "pUsedKeys (releaseKey i p1) = released"
    unfolding released_def by (rule ext) (simp add: releaseKey_used [OF k1inv ne] p1)
  have q: "q = applyKey i key eg p1" by (simp add: q_def applyEgress_def key_def p1_def)
  have reg: "lookup0 '''' (pKeysByInst p) i = key \<longleftrightarrow> pKeysByInst p i = Some key" if "key \<noteq> ''''"
    using that by (auto simp: lookup0_def split: option.split)
  have member: "j \<in> set (pInsts p)" if "pUsedKeys p key = Some j" for j
    using that kinv by (auto simp: keys_inv_def)
  have other: "j \<noteq> i" if "pUsedKeys p key = Some j" "pKeysByInst p i \<noteq> Some key" for j
    using that keys_inv_used [OF kinv] by blast
  consider "key = ''''" | "key \<noteq> ''''" "pKeysByInst p i = Some key"
    | j where "key \<noteq> ''''" "pKeysByInst p i \<noteq> Some key" "pUsedKeys p key = Some j"
    | "key \<noteq> ''''" "pKeysByInst p i \<noteq> Some key" "pUsedKeys p key = None"
    by blast
  then show ?thesis
  proof cases
    case 1
    then show ?thesis
      by (simp add: q applyKey_def whitelistedEmptyKey_def rel p1 sent_post_cmd)
  next
    case 2
    then show ?thesis by (simp add: q applyKey_def whitelistedEmptyKey_def p1 reg)
  next
    case 3
    then have "takenByOther p1 key i" using other by (simp add: takenByOther_def p1)
    with 3 other [OF 3(3,2)] member [OF 3(3)] show ?thesis
      by (simp add: q applyKey_def whitelistedEmptyKey_def p1 reg newerOf_def sent_post_cmd)
  next
    case 4
    then have "\<not> takenByOther p1 key i" by (simp add: takenByOther_def p1)
    with 4 show ?thesis
      by (simp add: q applyKey_def whitelistedEmptyKey_def p1 reg registerKey_def rel)
  qed
qed

theorem applyEgress_decision_witness:
  "sent (seqID 1) (drainCmd demo3) (storeEgress (seqID 0) (demoEgress 8) demo3)
     (applyEgress (seqID 0) (demoEgress 8) False demo3)"
proof -
  have f: "pInsts demo3 = [seqID 0, seqID 1]"
    "inCreatedAt (handleOf demo3 (seqID 0)) = 0" "inCreatedAt (handleOf demo3 (seqID 1)) = 1"
    using demo2_fields
    by (simp_all add: demo3_def handleReady_def Let_def demo_keyer demoEgress_key
        whitelistedEmptyKey_def takenByOther_def releaseKey_def registerKey_def demoEgress_key_inj
        post_cmd_eq send_def chan_send_def demoHandle_def)
  have u: "pUsedKeys demo3 (DedupeByBoth (demoEgress 8)) = Some (seqID 1)"
    using keys_inv_used [OF pool_inv_keysD [OF pool_reach_inv [OF reach_demo3]]] demo3_keys
      demoEgress_key by simp
  have "demoEgress 8 \<noteq> zeroEgress" by (simp add: demoEgress_def zeroEgress_def)
  then show ?thesis
    using applyEgress_decision [OF reach_demo3, of "seqID 0" False "demoEgress 8"] f u demo3_keys
    by (simp add: demo_keyer demoEgress_key demoEgress_key_inj)
qed

section \<open>Manual state changes\<close>

text \<open>C22: \<open>SetStatus\<close> on a reachable pool. An unknown ID is an error, the state an instance is
  already in is accepted without a command. Draining from any state but Disabled, disabling
  from any state, and enabling a disabled instance put the matching command at the end of
  the instance's queue, or report the closed error, with nothing changed, when the instance
  has stopped or its queue holds 16 commands. Every other change is refused.\<close>

theorem setStatus_table:
  assumes "pool_reach raw p"
  defines "cur \<equiv> \<lambda>i. statusOf p i"
    and "deliver \<equiv> \<lambda>i c. let h = handleOf p i in
      if inStopped h \<or> 16 \<le> length (inCmds h) then (Some ErrClosed, p)
      else (None, p\<lparr>pStore := (pStore p)(i \<mapsto> h\<lparr>inCmds := inCmds h @ [c]\<rparr>)\<rparr>)"
  shows "pool_setStatus i t p =
    (if i \<notin> set (pInsts p) then (Some (InstanceNotFound i), p)
     else if cur i = t then (None, p)
     else if t = StatusDraining \<and> cur i \<noteq> StatusDisabled
       then deliver i \<lparr>cKind = cmdDrain, cTimeout = oDrainTimeout (pOpts p)\<rparr>
     else if t = StatusDisabled then deliver i (cmd cmdDisable)
     else if t = StatusNormal \<and> cur i = StatusDisabled then deliver i (cmd cmdEnable)
     else (Some (ErrInvalidTransition (cur i) t), p))"
proof (cases "i \<in> set (pInsts p)")
  case False
  then show ?thesis
    using pool_inv_snapshot [OF pool_reach_inv [OF assms(1)]] by (simp add: pool_setStatus_def)
next
  case True
  note inv = pool_reach_inv [OF assms(1)]
  have "i \<in> dom (pStore p)" by (rule pool_inv_member [OF inv True])
  then have self: "(pStore p)(i \<mapsto> handleOf p i) = pStore p" by (auto simp: fun_eq_iff)
  have send: "(case pool_send i c p of (ok, p') \<Rightarrow> (if ok then None else Some ErrClosed, p')) = deliver i c" for c
    using self by (simp add: pool_send_def send_def chan_send_def deliver_def Let_def cmdChanCap_def not_less)
  show ?thesis
    using True pool_inv_snapshot [OF inv]
    by (cases t) (simp_all add: pool_setStatus_def Let_def cur_def send drainCmd_def)
qed

theorem setStatus_table_witness:
  "pool_setStatus (seqID 0) StatusNormal demo1 =
     (Some (ErrInvalidTransition StatusProbing StatusNormal), demo1) \<and>
   fst (pool_setStatus (seqID 0) StatusDisabled demo1) = None \<and>
   fst (pool_setStatus ''x'' StatusDisabled demo1) = Some (InstanceNotFound ''x'')"
proof -
  have "seqID 0 = ''0''" "seqID 1 = ''1''" by code_simp+
  then show ?thesis
    using setStatus_table [OF reach_demo1] demo1_fields by (simp add: demoHandle_def Let_def)
qed

section \<open>Removal\<close>

text \<open>C23: Handling the end of a member frees what it held: its key, its counter and its port.
  The next instance to be created listens on exactly that address, under a fresh ID.\<close>

theorem removal_frees_port:
  assumes "pool_reach raw p" and "i \<in> set (pInsts p)" and "\<And>xs. mset (iter xs) = mset xs"
    and "createInstance iter now (removeInstance iter i p) = (ok, q)"
  shows "ok \<and> i \<notin> set (pInsts q) \<and> pKeysByInst q i = None \<and> pEmptyByInst q i = None \<and>
    (\<forall>k. pUsedKeys q k \<noteq> Some i) \<and> seqID (pNextSeq p) \<notin> dom (pStore p) \<and>
    pInsts q = removeAll i (pInsts p) @ [seqID (pNextSeq p)] \<and>
    inProxyAddr (handleOf q (seqID (pNextSeq p))) = inProxyAddr (handleOf p i)"
proof -
  note inv = pool_reach_inv [OF assms(1)]
  have iter: "perm_iter iter" using assms(3) by (simp add: perm_iter_def)
  have ne: "i \<noteq> ''''" by (rule member_neq_Nil [OF inv assms(2)])
  let ?r = "removeInstance iter i p"
  have tab: "tables_inv ?r"
    using inv iter assms(2) ne by (intro tables_inv_removeInstance) (simp_all add: pool_inv_def)
  then have ids: "ids_inv ?r" and kinv: "keys_inv ?r" by (simp_all add: tables_inv_def)
  have pinv: "ports_inv p" using inv by (simp add: pool_inv_def tables_inv_def)
  then have "i \<in> dom (pPortOf p)" using assms(2) by (simp add: ports_inv_def)
  then obtain off where off: "pPortOf p i = Some off" by (auto simp: domIff)
  then have "off \<in> paUsed (pPorts p)" using pinv by (auto simp: ports_inv_def slot_table_def intro: ranI)
  then have free: "paFree (pPorts ?r) = paFree (pPorts p) @ [off]"
    and addr: "pa_addr (pPorts ?r) off = pa_addr (pPorts p) off"
    using off by (simp_all add: removeInstance_steps dropPort_def pa_release_def)
  from pa_acquire_free [OF free] obtain a where
    "pa_acquire (pPorts ?r) = ((pa_addr (pPorts p) off, off, True), a)" using addr by simp
  then have ok: "ok" and q: "q = publish iter (added now (pa_addr (pPorts p) off) off a ?r)"
    using assms(4) by (auto simp: createInstance_eq [OF ids])
  have keys: "pKeysByInst q i = None" "pEmptyByInst q i = None" "pUsedKeys q = pUsedKeys ?r"
    by (simp_all add: q removeInstance_steps)
  moreover have "pUsedKeys ?r k \<noteq> Some i" for k
    using keys_inv_used [OF kinv, of k i] by (simp add: removeInstance_steps)
  moreover have "inProxyAddr (handleOf p i) = pa_addr (pPorts p) off"
    using pinv assms(2) off by (simp add: ports_inv_def)
  moreover have "seqID (pNextSeq p) \<notin> dom (pStore p)" and fresh: "seqID (pNextSeq p) \<notin> set (pInsts p)"
    using ids_inv_fresh [OF pool_inv_ids [OF inv]] by simp_all
  moreover have "i \<noteq> seqID (pNextSeq p)" using fresh assms(2) by blast
  ultimately show ?thesis using ok by (simp add: q)
qed

theorem removal_frees_port_witness:
  "\<exists>q. createInstance (\<lambda>xs. xs) int (removeInstance (\<lambda>xs. xs) (seqID 0) demo1) = (True, q) \<and>
     pInsts q = [seqID 1, seqID 2] \<and>
     inProxyAddr (handleOf q (seqID 2)) = pa_addr demoPorts 0"
proof -
  obtain ok q where new: "createInstance (\<lambda>xs. xs) int (removeInstance (\<lambda>xs. xs) (seqID 0) demo1) = (ok, q)"
    by fastforce
  from removal_frees_port [OF reach_demo1 _ _ this] demo1_fields
  have "ok \<and> pInsts q = [seqID 1, seqID 2] \<and> inProxyAddr (handleOf q (seqID 2)) = pa_addr demoPorts 0"
    by (simp add: demoHandle_def)
  with new show ?thesis by auto
qed

end
