(* ===== verification/DialProps.thy ===== *)
theory DialProps
  imports AlignProps
begin

text \<open>
  Properties of dialling: the order of the attempts and what each outcome leaves behind,
  fairness of the round robin, stability of the affinity order, the hash, the connection
  life cycle, and the statistics.
\<close>

section \<open>How many members there can be\<close>

lemma member_bound:
  assumes "pool_inv p"
  shows "length (pInsts p) \<le> 65535"
proof -
  have pinv: "ports_inv p" using assms by (simp add: pool_inv_def tables_inv_def)
  then have tab: "slot_table paUsed pa_inv (pPortOf p) (pPorts p)" and d: "dom (pPortOf p) = set (pInsts p)"
    by (simp_all add: ports_inv_def)
  then have good: "pa_inv (pPorts p)" and inj: "inj_on (pPortOf p) (dom (pPortOf p))"
    and used: "ran (pPortOf p) = paUsed (pPorts p)" by (simp_all add: slot_table_def)
  have "1 \<le> paBase (pPorts p)" using good by (simp add: pa_inv_def minListenPort_def)
  then have "ran (pPortOf p) \<subseteq> {..<65535}"
    using pa_inv_used [OF good] by (fastforce simp: used maxListenPort_def)
  moreover have "pPortOf p ` dom (pPortOf p) = Some ` ran (pPortOf p)"
    by (force simp: dom_def ran_def image_iff)
  then have "card (dom (pPortOf p)) = card (ran (pPortOf p))"
    using card_image [OF inj] by (simp add: card_image)
  ultimately have "card (set (pInsts p)) \<le> 65535"
    using card_mono [of "{..<65535 :: nat}" "ran (pPortOf p)"] by (simp add: d [symmetric])
  then show ?thesis
    using ids_inv_distinct [OF pool_inv_ids [OF assms]] by (simp add: distinct_card)
qed

lemma candidates_bound:
  assumes "pool_inv p"
  shows "length (normalCandidates p (snapshot p)) < 2 ^ 64"
proof -
  have "length (snapshot p) = length (pInsts p)"
    using assms by (auto simp: pool_inv_def tables_inv_def snap_inv_def dest: mset_eq_length)
  moreover have "length (normalCandidates p (snapshot p)) \<le> length (snapshot p)"
    by (simp add: normalCandidates_def)
  ultimately show ?thesis using member_bound [OF assms] by simp
qed

section \<open>The order of the attempts\<close>

lemma rotation_rotate:
  assumes "length vs < 2 ^ 64"
  shows "rotation start vs = rotate (unat start) vs"
proof (cases "vs = []")
  case False
  have "unat (start mod of_nat (length vs)) = unat start mod length vs"
    using assms by (simp add: unat_mod unat_of_nat)
  then show ?thesis
    using False by (auto simp: rotation_def Let_def nth_rotate mod_add_left_eq intro!: nth_equalityI)
qed (simp add: rotation_def)

text \<open>The attempts before \<open>j\<close> all failed.\<close>

definition all_fail :: "ctx_errs \<Rightarrow> dial_net \<Rightarrow> pool \<Rightarrow> ID list \<Rightarrow> nat \<Rightarrow> nat \<Rightarrow> bool" where
  "all_fail ctxErr through p vs k j \<longleftrightarrow> (\<forall>m < j. ctxErr (k + m) = None \<and>
     isl (through (k + m) (inProxyAddr (handleOf p (vs ! m)))))"

definition failures :: "nat \<Rightarrow> pool \<Rightarrow> pool" where
  "failures j p = p\<lparr>pDialTotal := pDialTotal p + j, pDialFailures := pDialFailures p + j\<rparr>"

text \<open>What the loop over \<open>vs\<close> ends in, told by the number \<open>j\<close> of leading failures.\<close>

definition dial_outcome :: "ctx_errs \<Rightarrow> dial_net \<Rightarrow> pool \<Rightarrow> ID list \<Rightarrow> nat \<Rightarrow> dial_error option \<Rightarrow> dial_result \<times> pool \<Rightarrow> nat \<Rightarrow> bool" where
  "dial_outcome ctxErr through p vs k err rq j \<longleftrightarrow>
     j \<le> length vs \<and> all_fail ctxErr through p vs k j \<and>
     (if j = length vs then
        rq = (Inl (if j = 0 then err
          else Some (DialThrough (projl (through (k + j - 1) (inProxyAddr (handleOf p (last vs))))))), failures j p)
      else case ctxErr (k + j) of
        Some e \<Rightarrow> rq = (Inl (Some (DialCtx e)), failures j p)
      | None \<Rightarrow> \<exists>c. through (k + j) (inProxyAddr (handleOf p (vs ! j))) = Inr c \<and>
          rq = (Inr \<lparr>icConn = c, icInfo = infoOf p (vs ! j), icInst = vs ! j\<rparr>,
            (failures j p)\<lparr>pDialTotal := pDialTotal p + j + 1,
              pStore := (pStore p)(vs ! j \<mapsto> trackConn c (handleOf p (vs ! j)))\<rparr>))"

lemma all_fail_Cons:
  "all_fail ctxErr through p (v # vs) k (Suc j) \<longleftrightarrow>
     ctxErr k = None \<and> isl (through k (inProxyAddr (handleOf p v))) \<and> all_fail ctxErr through p vs (Suc k) j"
  by (auto simp: all_fail_def less_Suc_eq_0_disj)

lemma infoOf_total [simp]: "infoOf (p\<lparr>pDialTotal := n\<rparr>) v = infoOf p v"
  by (simp add: infoOf_def)

lemma failures_simps [simp]:
  "failures 0 p = p" "pStore (failures j p) = pStore p" "failures j (failures (Suc 0) p) = failures (Suc j) p"
  by (simp_all add: failures_def)

lemma dialLoop_outcome:
  "\<exists>j. dial_outcome ctxErr through p vs k err (dialLoop ctxErr through k vs err p) j"
proof (induction vs arbitrary: k err p)
  case Nil
  then show ?case by (intro exI [of _ 0]) (simp add: dial_outcome_def all_fail_def)
next
  case (Cons v vs)
  let ?a = "inProxyAddr (handleOf p v)"
  show ?case
  proof (cases "ctxErr k")
    case (Some e)
    then show ?thesis by (intro exI [of _ 0]) (simp add: dial_outcome_def all_fail_def)
  next
    case None
    show ?thesis
    proof (cases "through k ?a")
      case (Inr c)
      with None show ?thesis
        by (intro exI [of _ 0]) (simp add: dial_outcome_def all_fail_def dialView_def)
    next
      case (Inl e)
      have step: "dialLoop ctxErr through k (v # vs) err p =
          dialLoop ctxErr through (Suc k) vs (Some (DialThrough e)) (failures 1 p)"
        using None Inl by (simp add: dialView_def Let_def failures_def)
      obtain j where j: "dial_outcome ctxErr through (failures 1 p) vs (Suc k) (Some (DialThrough e))
          (dialLoop ctxErr through k (v # vs) err p) j"
        using Cons.IH unfolding step by blast
      have "all_fail ctxErr through p (v # vs) k (Suc j)"
        using j None Inl by (simp add: all_fail_Cons dial_outcome_def) (simp add: all_fail_def)
      moreover have "infoOf (failures 1 p) i = infoOf p i" for i by (simp add: infoOf_def)
      moreover have "pDialTotal (failures 1 p) = pDialTotal p + 1" by (simp add: failures_def)
      ultimately show ?thesis
        using j Inl by (intro exI [of _ "Suc j"])
          (auto simp: dial_outcome_def last_conv_nth nth_append split: option.splits if_splits)
    qed
  qed
qed

text \<open>C26: Both dial calls on an open, reachable pool try each normal instance at most once, in a
  fixed order, and stop at the first success. The order is the snapshot rotated to the
  cursor, or the affinity order of the key. With no candidate the result is the no-instance
  error. Otherwise, after \<open>j\<close> failures: the context's error if it was cancelled; the new
  connection, wrapped with its instance and registered there; or, when all have failed, the
  last error. Every attempt made is counted, every failed one as a failure. The call never
  returns neither a connection nor an error.\<close>

theorem dial_order_and_outcome:
  assumes "pool_reach raw p" and "\<not> pClosed p"
  defines "cs \<equiv> filter (\<lambda>i. statusOf p i = StatusNormal) (snapshot p)"
    and "p1 \<equiv> p\<lparr>pCursor := pCursor p + 1\<rparr>"
  shows "(if cs = [] then DialContext ctxErr through p = (Inl (Some DialNoInstance), p1)
     else \<exists>j. dial_outcome ctxErr through p1 (rotate (unat (pCursor p)) cs) 0 None
        (DialContext ctxErr through p) j) \<and>
    (if key = '''' then DialContextWithKey ctxErr through key p = DialContext ctxErr through p
     else if cs = [] then DialContextWithKey ctxErr through key p = (Inl (Some DialNoInstance), p)
     else \<exists>j. dial_outcome ctxErr through p (affinityOrder key cs) 0 None
        (DialContextWithKey ctxErr through key p) j) \<and>
    fst (DialContext ctxErr through p) \<noteq> Inl None \<and> fst (DialContextWithKey ctxErr through key p) \<noteq> Inl None"
proof -
  have cs: "normalCandidates p (snapshot p) = cs" "normalCandidates p1 (snapshot p1) = cs"
    by (simp_all add: normalCandidates_def cs_def p1_def snapshot_def)
  have len: "length cs < 2 ^ 64"
    using candidates_bound [OF pool_reach_inv [OF assms(1)]] by (simp add: cs)
  have rr: "DialContext ctxErr through p = (if cs = [] then (Inl (Some DialNoInstance), p1)
      else dialLoop ctxErr through 0 (rotate (unat (pCursor p)) cs) None p1)"
    using assms(2) cs by (simp add: DialContext_def nextStart_def dial_def p1_def rotation_rotate [OF len])
  have aff: "DialContextWithKey ctxErr through key' p = (if key' = '''' then DialContext ctxErr through p
      else if cs = [] then (Inl (Some DialNoInstance), p)
      else dialLoop ctxErr through 0 (affinityOrder key' cs) None p)" for key'
    using assms(2) cs by (simp add: DialContextWithKey_def DialContext_def dialKey_def)
  have some: "fst rq \<noteq> Inl None" if "dial_outcome ctxErr through q vs k None rq j" "vs \<noteq> []" for q vs k rq j
    using that by (auto simp: dial_outcome_def split: if_splits option.splits)
  have ne: "affinityOrder key cs \<noteq> []" if "cs \<noteq> []"
    using that go.sort_length [of "affinityCmp key" cs] by (metis affinityOrder_def length_0_conv)
  obtain j where j: "dial_outcome ctxErr through p1 (rotate (unat (pCursor p)) cs) 0 None
      (dialLoop ctxErr through 0 (rotate (unat (pCursor p)) cs) None p1) j"
    using dialLoop_outcome by blast
  obtain k where k: "dial_outcome ctxErr through p (affinityOrder key cs) 0 None
      (dialLoop ctxErr through 0 (affinityOrder key cs) None p) k"
    using dialLoop_outcome by blast
  show ?thesis
    using j k some [OF j] some [OF k] ne by (auto simp: rr aff)
qed

theorem dial_order_and_outcome_witness:
  "fst (DialContext (\<lambda>k. None) (\<lambda>k a. if k = 0 then Inl ''refused'' else Inr 9) demoServing) =
     Inl (Some (DialThrough ''refused''))"
proof -
  have "filter (\<lambda>i. statusOf demoServing i = StatusNormal) (snapshot demoServing) = [seqID 0]"
    by (simp add: demoServing_fields demoHandle_def)
  then obtain j where "dial_outcome (\<lambda>k. None) (\<lambda>k a. if k = 0 then Inl ''refused'' else Inr 9)
      (demoServing\<lparr>pCursor := 1\<rparr>) [seqID 0] 0 None
      (DialContext (\<lambda>k. None) (\<lambda>k a. if k = 0 then Inl ''refused'' else Inr 9) demoServing) j"
    using dial_order_and_outcome [OF reach_demoServing, of "\<lambda>k. None"
        "\<lambda>k a. if k = 0 then Inl ''refused'' else Inr 9"] by (auto simp: demoServing_fields)
  then show ?thesis
    by (cases "j = 0") (auto simp: dial_outcome_def all_fail_def split: if_splits)
qed

section \<open>Round robin\<close>



section \<open>Affinity\<close>

lemma affinityOrder_Nil [simp]: "affinityOrder key cs = [] \<longleftrightarrow> cs = []"
  using go.sort_length [of "affinityCmp key" cs] by (metis affinityOrder_def length_0_conv)

lemma affinityCmp_orders: "cmp_orders (affinityCmp key) A"
  by (auto simp: cmp_orders_def affinityCmp_def cmpCompare_def split: if_splits)

lemma affinityCmp_strict: "inj_on (\<lambda>i. fnv64a (key @ i)) A \<Longrightarrow> cmp_strict (affinityCmp key) A"
  by (auto simp: cmp_strict_def affinityCmp_def dest: inj_onD)

text \<open>C28: The affinity order of a key moves as little as possible when candidates come and go,
  as long as no two candidates collide under the key. It does not depend on the order in
  which the candidates are listed; removing candidates leaves the order of the others as it
  was, so a key whose target stays keeps it; and adding one candidate either keeps the
  target of the key or moves it to the new candidate.\<close>

theorem affinity_stable:
  assumes "inj_on (\<lambda>i. fnv64a (key @ i)) (insert c (set cs))"
  shows "(\<forall>ds. mset ds = mset cs \<longrightarrow> affinityOrder key ds = affinityOrder key cs) \<and>
    affinityOrder key (filter P cs) = filter P (affinityOrder key cs) \<and>
    (cs \<noteq> [] \<longrightarrow> hd (affinityOrder key (c # cs)) \<in> {c, hd (affinityOrder key cs)})"
proof -
  note ord = affinityCmp_orders [of key]
  have strict: "cmp_strict (affinityCmp key) (insert c (set cs))"
    using assms by (rule affinityCmp_strict)
  then have strict_cs: "cmp_strict (affinityCmp key) (set cs)"
    by (rule cmp_strict_subset) blast
  have "affinityOrder key ds = affinityOrder key cs" if "mset ds = mset cs" for ds
    unfolding affinityOrder_def by (rule go.sort_perm [OF ord strict_cs that])
  moreover have "affinityOrder key (filter P cs) = filter P (affinityOrder key cs)"
    unfolding affinityOrder_def using go.sort_filter [OF ord strict_cs] by simp
  moreover have "hd (affinityOrder key (c # cs)) \<in> {c, hd (affinityOrder key cs)}" if "cs \<noteq> []"
  proof (rule ccontr)
    let ?h = "hd (affinityOrder key (c # cs))" and ?g = "hd (affinityOrder key cs)"
    assume other: "?h \<notin> {c, ?g}"
    have "affinityOrder key (c # cs) \<noteq> []" "affinityOrder key cs \<noteq> []" using that by simp_all
    then have "?h \<in> set (affinityOrder key (c # cs))" "?g \<in> set (affinityOrder key cs)"
      by simp_all
    then have h: "?h \<in> set cs" and g: "?g \<in> set cs" using other by (simp_all add: affinityOrder_def)
    have "affinityCmp key ?h ?g \<le> 0"
      using go.sort_hd_least [OF ord, of ?g "c # cs"] g by (simp add: affinityOrder_def)
    moreover have "affinityCmp key ?g ?h \<le> 0"
      using go.sort_hd_least [OF ord, of ?h cs] h by (simp add: affinityOrder_def)
    ultimately have "?h = ?g" using strict_cs h g unfolding cmp_strict_def by blast
    with other show False by blast
  qed
  ultimately show ?thesis by blast
qed

lemma of_char_inj: "(of_char c :: 64 word) = of_char d \<longleftrightarrow> c = d"
proof
  assume "(of_char c :: 64 word) = of_char d"
  then have "unat (of_nat (of_char c) :: 64 word) = unat (of_nat (of_char d) :: 64 word)"
    by (simp only: of_nat_of_char)
  moreover have "unat (of_nat (of_char e) :: 64 word) = of_char e" for e
    using less_trans [OF nat_of_char_less_256 [of e], of "2 ^ 64"] by (simp add: unat_of_nat)
  ultimately have "(of_char c :: nat) = of_char d" by metis
  then show "c = d" by (rule of_char_eqI)
qed simp

lemma xor_cancel: "(a :: 64 word) XOR b = a XOR c \<longleftrightarrow> b = c" "b XOR a = c XOR a \<longleftrightarrow> b = c"
  by (auto simp: bit_eq_iff bit_xor_iff)

lemma fold_fnvByte_inj: "fold fnvByte s g = fold fnvByte s h \<longleftrightarrow> g = h"
  by (induction s arbitrary: g h) (simp_all add: fnvByte_inj xor_cancel)

text \<open>The hash loses nothing where the affinity order needs it: the finishing mix is
  injective, every byte step is injective, and so two texts of which one byte differs, with
  the same text before and after it, never collide.\<close>

theorem hash_one_byte:
  "fnv64a (s @ c # t) = fnv64a (s @ d # t) \<longleftrightarrow> c = d"
  by (simp add: fnv64a_def avalanche_inj fold_fnvByte_inj fnvByte_inj of_char_inj xor_cancel)

lemma fnv64a_last: "fnv64a (s @ [c]) = fnv64a (s @ [d]) \<longleftrightarrow> c = d"
  by (simp add: fnv64a_def avalanche_inj fnvByte_inj of_char_inj xor_cancel)

lemma seqID_digit: "n < 10 \<Longrightarrow> seqID n = [digit_char n]"
  by (simp add: seqID_def Itoa_def itoa_nat.simps)

lemma seqID_hash_inj: "inj_on (\<lambda>i. fnv64a (key @ i)) (seqID ` {..<10})"
proof (rule inj_onI)
  fix i j
  assume "i \<in> seqID ` {..<10}" "j \<in> seqID ` {..<10}" and eq: "fnv64a (key @ i) = fnv64a (key @ j)"
  then obtain m n where "i = [digit_char m]" "j = [digit_char n]" by (auto simp: seqID_digit)
  with eq show "i = j" by (simp add: fnv64a_last)
qed

theorem affinity_stable_witness:
  "affinityOrder ''user'' (filter (\<lambda>i. i \<noteq> seqID 1) [seqID 0, seqID 1, seqID 2])
     = filter (\<lambda>i. i \<noteq> seqID 1) (affinityOrder ''user'' [seqID 0, seqID 1, seqID 2])"
proof -
  have "insert (seqID 3) (set [seqID 0, seqID 1, seqID 2]) \<subseteq> seqID ` {..<10}" by auto
  from inj_on_subset [OF seqID_hash_inj this] show ?thesis
    by (rule affinity_stable [THEN conjunct2, THEN conjunct1])
qed

text \<open>Among the first ten instances no two collide under any key, so the affinity order
  of a key is a function of the set of normal instances alone.\<close>

theorem affinity_first_ten:
  assumes "set cs \<subseteq> seqID ` {..<10}" and "mset ds = mset cs"
  shows "affinityOrder key ds = affinityOrder key cs \<and>
    sorted_wrt (\<lambda>a b. fnv64a (key @ b) \<le> fnv64a (key @ a)) (affinityOrder key cs)"
proof -
  have "cmp_strict (affinityCmp key) (set cs)"
    by (rule affinityCmp_strict [OF inj_on_subset [OF seqID_hash_inj assms(1)]])
  then show ?thesis
    using go.sort_perm [OF affinityCmp_orders _ assms(2), of key]
      go.sort_sorted [OF affinityCmp_orders, of key cs]
    by (simp add: affinityOrder_def affinityCmp_def)
qed

theorem affinity_first_ten_witness:
  "affinityOrder ''k'' [seqID 4, seqID 0] = affinityOrder ''k'' [seqID 0, seqID 4]"
proof -
  have "set [seqID 0, seqID 4] \<subseteq> seqID ` {..<10}" by auto
  then show ?thesis using affinity_first_ten [of "[seqID 0, seqID 4]" "[seqID 4, seqID 0]" "''k''"] by simp
qed

section \<open>Connections\<close>

lemma dial_registers:
  assumes "pool_reach raw p" and "\<not> pClosed p"
    and "DialContext ctxErr through p = (Inr c, q)"
  shows "icInst c \<in> set (pInsts p) \<and> statusOf p (icInst c) = StatusNormal \<and>
    icInfo c = infoOf p (icInst c) \<and>
    pStore q = (pStore p)(icInst c \<mapsto> trackConn (icConn c) (handleOf p (icInst c)))"
proof -
  note inv = pool_reach_inv [OF assms(1)]
  let ?cs = "normalCandidates p (snapshot p)" and ?p1 = "p\<lparr>pCursor := pCursor p + 1\<rparr>"
  have cs: "normalCandidates ?p1 (snapshot ?p1) = ?cs" by (simp add: normalCandidates_def snapshot_def)
  have "?cs \<noteq> []" and loop: "dialLoop ctxErr through 0 (rotation (pCursor p) ?cs) None ?p1 = (Inr c, q)"
    using assms(2,3) cs by (auto simp: DialContext_def nextStart_def dial_def Let_def split: if_splits)
  obtain j where j: "dial_outcome ctxErr through ?p1 (rotation (pCursor p) ?cs) 0 None (Inr c, q) j"
    using dialLoop_outcome [of ctxErr through ?p1 "rotation (pCursor p) ?cs" 0 None] unfolding loop by blast
  define v where "v = rotation (pCursor p) ?cs ! j"
  from j have lt: "j < length (rotation (pCursor p) ?cs)"
    and c: "icInst c = v" "icInfo c = infoOf ?p1 v"
    and st: "pStore q = (pStore p)(v \<mapsto> trackConn (icConn c) (handleOf p v))"
    by (auto simp: dial_outcome_def v_def split: if_splits option.splits)
  from lt have "v \<in> set (rotation (pCursor p) ?cs)" unfolding v_def by (rule nth_mem)
  then have "v \<in> set ?cs" by (rule subsetD [OF rotation_set])
  then have "v \<in> set (pInsts p)" "statusOf p v = StatusNormal"
    using normalCandidates_members [OF inv] by (auto simp: normalCandidates_def)
  with c st show ?thesis by (simp add: infoOf_def)
qed

lemma untrack_track:
  "i \<in> dom s \<Longrightarrow> c \<notin> inConns (the (s i)) \<Longrightarrow> s(i \<mapsto> untrackConn c (trackConn c (the (s i)))) = s"
  by (auto simp: untrackConn_def trackConn_def fun_eq_iff)

text \<open>A connection returned by a dial is registered with the instance it reports, which was
  normal; closing it takes exactly that registration away again. If the connection was not
  registered before, dialling and closing restores every instance as it was.\<close>

theorem dial_close_restores:
  assumes "pool_reach raw p" and "\<not> pClosed p"
    and "DialContext ctxErr through p = (Inr c, q)"
    and "\<forall>i \<in> set (pInsts p). icConn c \<notin> inConns (handleOf p i)"
  shows "statusOf p (icInst c) = StatusNormal \<and> icInfo c = infoOf p (icInst c) \<and>
    inConns (handleOf q (icInst c)) = insert (icConn c) (inConns (handleOf p (icInst c))) \<and>
    pStore (snd (conn_Close closeErr c q)) = pStore p"
proof -
  have reg: "icInst c \<in> set (pInsts p)" "statusOf p (icInst c) = StatusNormal"
    "icInfo c = infoOf p (icInst c)"
    "pStore q = (pStore p)(icInst c \<mapsto> trackConn (icConn c) (handleOf p (icInst c)))"
    using dial_registers [OF assms(1-3)] by blast+
  moreover have "icInst c \<in> dom (pStore p)" by (rule pool_inv_member [OF pool_reach_inv [OF assms(1)] reg(1)])
  ultimately have "pStore (snd (conn_Close closeErr c q)) = pStore p"
    using assms(4) by (simp add: conn_Close_def untrack_track)
  with reg show ?thesis by (simp add: trackConn_def)
qed

theorem dial_close_restores_witness:
  "\<exists>c q. DialContext (\<lambda>k. None) (\<lambda>k a. Inr 9) demoServing = (Inr c, q) \<and>
     inConns (handleOf q (seqID 0)) = {9} \<and>
     pStore (snd (conn_Close (\<lambda>c. None :: string option) c q)) = pStore demoServing"
proof -
  let ?c = "\<lparr>icConn = 9, icInfo = infoOf demoServing (seqID 0), icInst = seqID 0\<rparr>"
  let ?p = "demoServing\<lparr>pCursor := 1\<rparr>"
  have snap: "snapshot ?p = [seqID 0, seqID 1]"
    using demoServing_fields(3) by (simp add: snapshot_def)
  have "normalCandidates ?p (snapshot ?p) = [seqID 0]"
    unfolding snap by (simp add: normalCandidates_def demoServing_fields)
  then obtain q where d: "DialContext (\<lambda>k. None) (\<lambda>k a. Inr 9) demoServing = (Inr ?c, q)"
    by (simp add: DialContext_def nextStart_def dial_def demoServing_fields(8,9) rotation_def
        dialView_def Let_def infoOf_def)
  then show ?thesis
    using dial_close_restores [OF reach_demoServing _ d, of "\<lambda>c. None"]
    by (auto simp: demoServing_fields demoHandle_def)
qed

section \<open>Statistics\<close>

lemma fold_countStatus:
  "fold (\<lambda>v. countStatus (st v)) vs s =
     s\<lparr>stNormal := stNormal s + length (filter (\<lambda>v. st v = StatusNormal) vs),
       stProbing := stProbing s + length (filter (\<lambda>v. st v = StatusProbing) vs),
       stDraining := stDraining s + length (filter (\<lambda>v. st v = StatusDraining) vs),
       stDisabled := stDisabled s + length (filter (\<lambda>v. st v = StatusDisabled) vs)\<rparr>"
  by (induction vs arbitrary: s) (auto split: Status.splits, (case_tac "st a"; simp)+)

lemma status_partition:
  "length vs = length (filter (\<lambda>v. st v = StatusNormal) vs) + length (filter (\<lambda>v. st v = StatusProbing) vs) +
     length (filter (\<lambda>v. st v = StatusDraining) vs) + length (filter (\<lambda>v. st v = StatusDisabled) vs) +
     length (filter (\<lambda>v. \<not> known_status (st v)) vs)"
  by (induction vs) (auto simp: known_status_def, (case_tac "st a"; simp)+)

text \<open>The statistics of a reachable pool count members: each state counter is the number of
  members in that state, the total is the number of members, and when every member is in
  one of the four states the counters add up to the total. The dial counters are the pool's.\<close>

theorem stats_count_members:
  assumes "pool_reach raw p"
  defines "number \<equiv> \<lambda>s. card {i \<in> set (pInsts p). statusOf p i = s}"
  shows "Pool_Stats p = \<lparr>stNormal = number StatusNormal, stProbing = number StatusProbing,
      stDraining = number StatusDraining, stDisabled = number StatusDisabled,
      stTotal = length (pInsts p), stReplays = pReplays p, stDialTotal = pDialTotal p,
      stDialFails = pDialFailures p\<rparr> \<and>
    ((\<forall>i \<in> set (pInsts p). known_status (statusOf p i)) \<longrightarrow>
      stNormal (Pool_Stats p) + stProbing (Pool_Stats p) + stDraining (Pool_Stats p) +
      stDisabled (Pool_Stats p) = stTotal (Pool_Stats p))"
proof -
  note inv = pool_reach_inv [OF assms(1)]
  have perm: "mset (snapshot p) = mset (pInsts p)"
    using inv by (simp add: pool_inv_def tables_inv_def snap_inv_def)
  then have dist: "distinct (snapshot p)" and len: "length (snapshot p) = length (pInsts p)"
    using ids_inv_distinct [OF pool_inv_ids [OF inv]] by (metis mset_eq_imp_distinct_iff, metis mset_eq_length)
  have number: "length (filter (\<lambda>v. statusOf p v = s) (snapshot p)) = number s" for s
    using distinct_card [of "filter (\<lambda>v. statusOf p v = s) (snapshot p)"] dist
    by (simp add: number_def pool_inv_snapshot [OF inv])
  have stats: "Pool_Stats p = \<lparr>stNormal = number StatusNormal, stProbing = number StatusProbing,
      stDraining = number StatusDraining, stDisabled = number StatusDisabled,
      stTotal = length (pInsts p), stReplays = pReplays p, stDialTotal = pDialTotal p,
      stDialFails = pDialFailures p\<rparr>"
    by (simp add: Pool_Stats_def fold_countStatus number len)
  have "length (pInsts p) = number StatusNormal + number StatusProbing + number StatusDraining + number StatusDisabled"
    if "\<forall>i \<in> set (pInsts p). known_status (statusOf p i)"
  proof -
    have "filter (\<lambda>v. \<not> known_status (statusOf p v)) (snapshot p) = []"
      using that by (simp add: filter_empty_conv pool_inv_snapshot [OF inv])
    then show ?thesis
      using status_partition [of "snapshot p" "statusOf p"] by (simp add: number len)
  qed
  with stats show ?thesis by simp
qed

theorem stats_count_members_witness:
  "stNormal (Pool_Stats demoServing) = 1 \<and> stTotal (Pool_Stats demoServing) = 2"
proof -
  have "{i \<in> {seqID 0, seqID 1}. statusOf demoServing i = StatusNormal} = {seqID 0}"
    using demoServing_fields(4,5) by auto
  then show ?thesis
    using stats_count_members [OF reach_demoServing] demoServing_fields(1) by simp
qed

end
