(* ===== verification/Composition.thy ===== *)
theory Composition
  imports InstanceRuns CheckProps DialProps
begin

text \<open>
  The coordinator and an instance together: a manual state change from the call of
  \<open>SetStatus\<close> to the instance's first action, and what disabling a draining instance leaves
  behind in the key registry.
\<close>

section \<open>Manual state changes\<close>

fun state_of :: "'a outcome \<Rightarrow> inst" where
  "state_of (Ret a i) = i"
| "state_of (Parked i) = i"
| "state_of (Panic i) = i"

lemma handle_cmd_grows: "prefix t (trace i) \<Longrightarrow> prefix t (trace (state_of (handle_cmd c i)))"
  using grows.handle_cmd_kept [of t i c] by (cases "handle_cmd c i") auto

lemma post_state_of: "post J J (\<lambda>_. J) out \<Longrightarrow> J (state_of out)"
  by (cases out) auto

lemma drain_first:
  assumes "inStatus k \<in> {StatusNormal, StatusProbing}"
  shows "prefix (trace k @ [SetStatus StatusDraining,
      DrainTimer (drainTimeoutOf t k)]) (trace (state_of (handle_cmd \<lparr>cKind = cmdDrain, cTimeout = t\<rparr> k)))"
proof -
  let ?i = "act (DrainTimer (drainTimeoutOf t k)) (setStatus StatusDraining k)"
  have "handle_cmd \<lparr>cKind = cmdDrain, cTimeout = t\<rparr> k = drainLoop ?i"
    using assms by (auto simp: handle_cmd_def drain_def)
  moreover have "prefix (trace ?i) (trace (state_of (drainLoop ?i)))"
    by (rule post_state_of [OF grows.drainLoop_kept]) simp
  ultimately show ?thesis by (simp add: setStatus_def)
qed

lemma disable_first:
  assumes "inStatus k \<noteq> StatusDisabled"
  shows "prefix (trace k @ [SetStatus StatusDisabled]) (trace (state_of (handle_cmd (cmd cmdDisable) k)))"
proof -
  let ?J = "\<lambda>i. prefix (trace k @ [SetStatus StatusDisabled]) (trace i)"
  have "?J (closeClient (setStatus StatusDisabled k))"
    by (intro grows.closeClient_kept) (simp add: setStatus_def)
  then have "post ?J ?J (\<lambda>_. ?J) (handle_cmd (cmd cmdDisable) k)"
    using assms by (auto simp: handle_cmd_def cmd_def intro!: grows.emit_kept grows.kept_bindO)
  then show ?thesis by (rule post_state_of)
qed

lemma enable_first:
  assumes "inStatus k = StatusDisabled"
  shows "prefix (trace k @ [SetStatus StatusProbing]) (trace (state_of (handle_cmd (cmd cmdEnable) k)))"
proof -
  let ?J = "\<lambda>i. prefix (trace k @ [SetStatus StatusProbing]) (trace i)"
  have "post ?J ?J (\<lambda>_. ?J) (ensureClient True 0 (setStatus StatusProbing k))"
    by (intro grows.ensureClient_kept) (simp add: setStatus_def)
  then have "post ?J ?J (\<lambda>_. ?J) (handle_cmd (cmd cmdEnable) k)"
    using assms
    by (auto simp: handle_cmd_def cmd_def elim!: post_mono intro!: post_mono [OF grows.probeAndReport_kept])
  then show ?thesis by (rule post_state_of)
qed


text \<open>The instance behind a handle.\<close>

definition behind :: "handle \<Rightarrow> inst" where
  "behind h = (demoInst StatusProbing (Some 0) [])
     \<lparr>inID := inID h, inCreatedAt := inCreatedAt h, inProxyAddr := inProxyAddr h,
      inStatus := inStatus h, inEgress := inEgress h, inAwaitConfirm := inAwaitConfirm h,
      inStopped := inStopped h, inCmds := inCmds h, inConns := inConns h\<rparr>"

lemma truncate_behind: "handle.truncate (behind h) = h"
  by (cases h) (simp add: handle.truncate_def behind_def)

lemma seqID_demo: "seqID 0 = ''0''" "seqID (Suc 0) = ''1''"
  by code_simp+


text \<open>C34: Disabling a draining member is accepted, but the instance goes to Disabled without an
  event. So the coordinator keeps its key registered: any other member that reports the same
  egress afterwards is sent away to replay, although nobody uses that egress.\<close>

theorem disabled_drain_keeps_key:
  assumes "pool_reach raw p" and "statusOf p i = StatusDraining"
    and "pool_setStatus i StatusDisabled p = (None, q)"
    and "pKeysByInst p i = Some (keyOf p eg)" and "keyOf p eg \<noteq> ''''"
    and "iClient k = Some c" and "inputs k = InCmd (last (inCmds (handleOf q i))) # rest" and "j \<noteq> i"
  shows "(\<exists>k'. drainLoop k = Ret False k' \<and> inStatus k' = StatusDisabled \<and>
      trace k' = trace k @ [SetStatus StatusDisabled, CloseClient c]) \<and>
    handleReady j eg (q\<lparr>pStore := s\<rparr>) = post_cmd j (cmd cmdReplay) (q\<lparr>pStore := s\<rparr>)"
proof -
  have "pool_send i (cmd cmdDisable) p = (True, q)"
    using assms(2,3) by (auto simp: pool_setStatus_def Let_def split: if_splits prod.splits)
  then have c: "last (inCmds (handleOf q i)) = cmd cmdDisable" and q: "pOpts q = pOpts p"
      "pUsedKeys q = pUsedKeys p"
    by (auto simp: pool_send_def send_def chan_send_def split: if_splits)
  have "pUsedKeys p (keyOf p eg) = Some i"
    using pool_inv_keysD [OF pool_reach_inv [OF assms(1)]] assms(4,5) by (simp add: keys_inv_def)
  with q assms(5,8) have "handleReady j eg (q\<lparr>pStore := s\<rparr>) = post_cmd j (cmd cmdReplay) (q\<lparr>pStore := s\<rparr>)"
    by (simp add: handleReady_def Let_def whitelistedEmptyKey_def takenByOther_def)
  moreover have "\<exists>k'. drainLoop k = Ret False k' \<and> inStatus k' = StatusDisabled \<and>
      trace k' = trace k @ [SetStatus StatusDisabled, CloseClient c]"
    using drainLoop_disable [OF assms(6)] assms(7) c by (metis (no_types))
  ultimately show ?thesis by blast
qed

definition demoDraining :: pool where
  "demoDraining = demo2\<lparr>pStore :=
     [seqID 0 \<mapsto> (demoHandle 0)\<lparr>inStatus := StatusDraining\<rparr>, seqID 1 \<mapsto> demoHandle 1]\<rparr>"

lemma reach_demoDraining: "pool_reach demoOptions demoDraining"
  unfolding demoDraining_def
  by (rule reach_store [OF reach_demo2])
     (use demo2_fields in \<open>auto simp: store_ext_def handle_ext_def demoHandle_def\<close>)

lemma disabled_drain_keeps_key_witness:
  "\<exists>q. pool_setStatus (seqID 0) StatusDisabled demoDraining = (None, q) \<and>
     handleReady (seqID 1) (demoEgress 7) q = post_cmd (seqID 1) (cmd cmdReplay) q"
proof -
  let ?p = demoDraining
  have f: "statusOf ?p (seqID 0) = StatusDraining" "keyOf ?p = DedupeByBoth"
    "pKeysByInst ?p (seqID 0) = Some (DedupeByBoth (demoEgress 7))"
    "inCmds (handleOf ?p (seqID 0)) = []" "\<not> inStopped (handleOf ?p (seqID 0))"
    "snapshot ?p = [seqID 0, seqID 1]"
    using demo2_fields by (simp_all add: demoDraining_def demoHandle_def demo_keyer snapshot_def)
  let ?q = "?p\<lparr>pStore := (pStore ?p)(seqID 0 \<mapsto>
      (handleOf ?p (seqID 0))\<lparr>inCmds := [cmd cmdDisable]\<rparr>)\<rparr>"
  have q: "pool_setStatus (seqID 0) StatusDisabled ?p = (None, ?q)"
    using f by (simp add: pool_setStatus_def Let_def pool_send_def send_def chan_send_def cmdChanCap_def)
  have "handleReady (seqID 1) (demoEgress 7) (?q\<lparr>pStore := pStore ?q\<rparr>) =
      post_cmd (seqID 1) (cmd cmdReplay) (?q\<lparr>pStore := pStore ?q\<rparr>)"
    using disabled_drain_keeps_key [OF reach_demoDraining f(1) q, of "demoEgress 7"
        "demoInst StatusDraining (Some 0) [InCmd (cmd cmdDisable)]" 0 "[]" "seqID 1" "pStore ?q"]
      f demoEgress_key
    by (simp add: seqID_demo)
  with q show ?thesis by simp
qed

end
