(* ===== verification/ColdStart.thy ===== *)
theory ColdStart
  imports Composition
begin

text \<open>
  From a configuration to a serving pool: the first alignment of a new pool creates the
  instances it asks for, each with the configuration its goroutine runs with; the instances
  come up, their reports are confirmed, and the pool serves.
\<close>

section \<open>The first alignment\<close>

text \<open>A pool in which nothing but creation has happened.\<close>

definition starting :: "pool \<Rightarrow> bool" where
  "starting p \<longleftrightarrow> pKeysByInst p = Map.empty \<and> pUsedKeys p = Map.empty \<and> pEmptyByInst p = Map.empty \<and>
     pEvents p = [] \<and> pInsts p = map seqID [0..<pNextSeq p] \<and>
     (\<forall>n < pNextSeq p. \<exists>cfg t. pConfigs p (seqID n) = Some cfg \<and>
        pStore p (seqID n) = Some (newHandle cfg t) \<and> icEndpointIdx cfg = n \<and>
        icCredSource cfg = oCredentialSource (pOpts p) \<and>
        icBackoffMax cfg = oReplayBackoffMax (pOpts p))"

lemma starting_status: "starting p \<Longrightarrow> i \<in> set (pInsts p) \<Longrightarrow> statusOf p i = StatusProbing"
  by (fastforce simp: starting_def)

lemma starting_active: "starting p \<Longrightarrow> activeCount p = pNextSeq p"
proof -
  assume p: "starting p"
  have "filter (\<lambda>i. countsActive (statusOf p i)) (pInsts p) = pInsts p"
    using starting_status [OF p] by (simp add: filter_id_conv countsActive_def)
  moreover have "length (pInsts p) = pNextSeq p" using p by (simp add: starting_def)
  ultimately show ?thesis by (simp add: activeCount_def)
qed

lemma publish_other [simp]:
  "pConfigs (publish iter p) = pConfigs p" "pOpts (publish iter p) = pOpts p"
  "pStore (publish iter p) = pStore p" "pPorts (publish iter p) = pPorts p"
  by (simp_all add: publish_def)

lemma starting_create:
  assumes ids: "ids_inv p" and p: "starting p" and new: "createInstance iter now p = (True, q)"
  shows "starting q \<and> pOpts q = pOpts p \<and> pNextSeq q = Suc (pNextSeq p) \<and> pCursor q = pCursor p \<and>
    pClosed q = pClosed p"
proof -
  obtain addr off ports where q: "q = publish iter (added now addr off ports p)"
    using new by (auto simp: createInstance_eq [OF ids] split: prod.splits if_splits)
  have next1: "pNextSeq q = Suc (pNextSeq p)" and opts: "pOpts q = pOpts p"
    using createInstance_True [OF ids new] by simp_all
  have "\<exists>cfg t. pConfigs q (seqID n) = Some cfg \<and> pStore q (seqID n) = Some (newHandle cfg t) \<and>
      icEndpointIdx cfg = n \<and> icCredSource cfg = oCredentialSource (pOpts p) \<and>
      icBackoffMax cfg = oReplayBackoffMax (pOpts p)" if "n < Suc (pNextSeq p)" for n
  proof (cases "n = pNextSeq p")
    case True
    then show ?thesis
      by (intro exI [of _ "instance_config p addr"] exI [of _ "now n"])
         (simp add: q added_def instance_config_def)
  next
    case False
    with that have "n < pNextSeq p" by simp
    with p obtain cfg t where "pConfigs p (seqID n) = Some cfg" "pStore p (seqID n) = Some (newHandle cfg t)"
      "icEndpointIdx cfg = n" "icCredSource cfg = oCredentialSource (pOpts p)"
      "icBackoffMax cfg = oReplayBackoffMax (pOpts p)"
      unfolding starting_def by blast
    with False show ?thesis
      by (intro exI [of _ cfg] exI [of _ t]) (simp add: q added_def)
  qed
  moreover have "pInsts q = map seqID [0..<pNextSeq q]"
    using createInstance_True(1) [OF ids new] p by (simp add: next1 starting_def)
  moreover have "pKeysByInst q = Map.empty" "pUsedKeys q = Map.empty" "pEmptyByInst q = Map.empty"
      "pEvents q = []"
    using p by (simp_all add: q starting_def publish_def)
  moreover have "pCursor q = pCursor p" "pClosed q = pClosed p"
    by (simp_all add: q publish_def added_def)
  ultimately show ?thesis by (simp add: starting_def next1 opts)
qed

lemma create_base:
  assumes inv: "pool_inv p" and new: "createInstance iter now p = (True, q)"
  shows "paBase (pPorts q) = paBase (pPorts p)"
proof -
  obtain addr off ports where acq: "pa_acquire (pPorts p) = ((addr, off, True), ports)"
    and q: "q = publish iter (added now addr off ports p)"
    using new by (auto simp: createInstance_eq [OF pool_inv_ids [OF inv]] split: prod.splits if_splits)
  have "pa_inv (pPorts p)"
    using inv by (simp add: pool_inv_def tables_inv_def ports_inv_def slot_table_def)
  from pa_acquire_True [OF this acq] show ?thesis by (simp add: q)
qed

lemma ports_left:
  assumes inv: "pool_inv p" and "starting p" and "ran (pPortOf p) = {..<k}"
  shows "k \<le> pNextSeq p"
proof -
  have d: "dom (pPortOf p) = set (pInsts p)"
    using inv by (simp add: pool_inv_def tables_inv_def ports_inv_def)
  then have fin: "finite (dom (pPortOf p))" by simp
  have "ran (pPortOf p) = (\<lambda>i. the (pPortOf p i)) ` dom (pPortOf p)"
    by (force simp: ran_def image_def)
  then have "card (ran (pPortOf p)) \<le> card (dom (pPortOf p))" using fin card_image_le by metis
  also have "\<dots> \<le> length (pInsts p)" unfolding d by (rule card_length)
  also have "\<dots> = pNextSeq p" using assms(2) by (simp add: starting_def)
  finally show ?thesis by (simp add: assms(3))
qed

lemma starting_alignLoop:
  assumes iter: "perm_iter iter" and le: "mn \<le> mx"
  shows "pool_inv p \<Longrightarrow> starting p \<Longrightarrow> int (pNextSeq p) \<le> mn \<Longrightarrow>
    paBase (pPorts p) + mn \<le> 65536 \<Longrightarrow>
    starting (alignLoop iter now mn mx p) \<and> int (pNextSeq (alignLoop iter now mn mx p)) = mn \<and>
    pOpts (alignLoop iter now mn mx p) = pOpts p \<and> pCursor (alignLoop iter now mn mx p) = pCursor p \<and>
    pClosed (alignLoop iter now mn mx p) = pClosed p"
proof (induction "pa_room (pPorts p)" arbitrary: p rule: less_induct)
  case less
  note ids = pool_inv_ids [OF less.prems(1)]
  have active: "activeCount p = pNextSeq p" by (rule starting_active [OF less.prems(2)])
  have len: "length (pInsts p) = pNextSeq p" using less.prems(2) by (simp add: starting_def)
  show ?case
  proof (cases rule: alignLoop_cases [of mn p iter now mx])
    case 1
    with less.prems active show ?thesis by simp
  next
    case 2
    with active len le show ?thesis by simp
  next
    case (3 p1)
    have "nat (65536 - paBase (pPorts p)) \<le> pNextSeq p"
      using ports_left [OF less.prems(1,2)] createInstance_False(2) [OF less.prems(1) 3(3)] by blast
    with 3(1) active less.prems(4) show ?thesis by simp
  next
    case (4 p1)
    note c = starting_create [OF ids less.prems(2) 4(3)]
    have "pool_inv p1" by (rule pool_inv_createInstance [OF less.prems(1) iter 4(3)])
    moreover have "paBase (pPorts p1) = paBase (pPorts p)"
      by (rule create_base [OF less.prems(1) 4(3)])
    moreover have "int (pNextSeq p1) \<le> mn" using 4(1) active c by simp
    ultimately have "starting (alignLoop iter now mn mx p1) \<and>
        int (pNextSeq (alignLoop iter now mn mx p1)) = mn \<and> pOpts (alignLoop iter now mn mx p1) = pOpts p1 \<and>
        pCursor (alignLoop iter now mn mx p1) = pCursor p1 \<and> pClosed (alignLoop iter now mn mx p1) = pClosed p1"
      using c less.prems(4) by (intro less.hyps [OF createInstance_room [OF 4(3)]]) simp_all
    with c 4(4) show ?thesis by simp
  qed
qed

lemma first_alignment:
  assumes new: "newPool raw dirOk = Inr p0" and iter: "perm_iter iter"
    and room: "paBase (pPorts p0) + oMin raw \<le> 65536"
  shows "pool_reach raw (reconcile iter now [] p0) \<and> starting (reconcile iter now [] p0) \<and>
    int (pNextSeq (reconcile iter now [] p0)) = oMin raw \<and>
    pOpts (reconcile iter now [] p0) = withDefaults raw \<and> pCursor (reconcile iter now [] p0) = 0 \<and>
    \<not> pClosed (reconcile iter now [] p0)"
proof -
  note f = newPool_fields [OF new] and l = newPool_limits [OF new]
  have start: "starting p0" using f by (simp add: starting_def)
  have "p0\<lparr>pWake := False\<rparr> = p0" using new by (auto simp: newPool_def Let_def split: option.splits if_splits sum.splits)
  then have "pool_step p0 (align iter now p0)"
    using pool_step.wake [OF iter, of p0 now] by (simp add: reconcile_tick_def)
  then have reach: "pool_reach raw (align iter now p0)"
    by (rule pool_reach.step [OF pool_reach.init [OF new]])
  have "align iter now p0 = alignLoop iter now (oMin raw) (oMax raw) p0"
    using f l by (simp add: align_def Let_def)
  then show ?thesis
    using starting_alignLoop [OF iter _ newPool_inv [OF new] start, of "oMin raw" "oMax raw" now] f l room reach
    by (simp add: reconcile_def)
qed

section \<open>The first reports\<close>

text \<open>\<open>reported p1 K k q\<close>: the first \<open>k\<close> members of \<open>p1\<close> have reported, with the keys \<open>K\<close>, and
  each has the confirmation in its queue.\<close>

definition reported :: "pool \<Rightarrow> (nat \<Rightarrow> string) \<Rightarrow> nat \<Rightarrow> pool \<Rightarrow> bool" where
  "reported p1 K k q \<longleftrightarrow> pOpts q = pOpts p1 \<and> pConfigs q = pConfigs p1 \<and> pInsts q = pInsts p1 \<and>
     pEvents q = [] \<and> pCursor q = pCursor p1 \<and> pClosed q = pClosed p1 \<and>
     (\<forall>n < k. pStore q (seqID n) = Some ((handleOf p1 (seqID n))\<lparr>inCmds := [cmd cmdConfirm]\<rparr>) \<and>
        pKeysByInst q (seqID n) = Some (K n)) \<and>
     (\<forall>n \<ge> k. pStore q (seqID n) = pStore p1 (seqID n) \<and> pKeysByInst q (seqID n) = None) \<and>
     (\<forall>key. pUsedKeys q key \<noteq> None \<longrightarrow> key \<in> K ` {..<k})"

lemma reported_0: "starting p1 \<Longrightarrow> reported p1 K 0 p1"
  by (simp add: reported_def starting_def)

lemma reported_Suc:
  assumes r: "reported p1 K k q" and "starting p1" and k: "k < pNextSeq p1"
    and key: "K k = keyOf p1 eg" "K k \<noteq> ''''" "K k \<notin> K ` {..<k}"
  shows "reported p1 K (Suc k) (handleReady (seqID k) eg q)"
proof -
  obtain cfg t where h: "pStore p1 (seqID k) = Some (newHandle cfg t)"
    using assms(2) k unfolding starting_def by blast
  have q: "pOpts q = pOpts p1" "pStore q (seqID k) = Some (newHandle cfg t)"
    "pKeysByInst q (seqID k) = None"
    using r h by (simp_all add: reported_def)
  have free: "pUsedKeys q (K k) = None" using r key(3) by (auto simp: reported_def)
  let ?h = "(newHandle cfg t)\<lparr>inCmds := [cmd cmdConfirm]\<rparr>"
  have eq: "handleReady (seqID k) eg q =
      q\<lparr>pEmptyByInst := (pEmptyByInst q)(seqID k := None), pUsedKeys := (pUsedKeys q)(K k \<mapsto> seqID k),
        pKeysByInst := (pKeysByInst q)(seqID k \<mapsto> K k), pStore := (pStore q)(seqID k \<mapsto> ?h)\<rparr>"
    using q free key(1,2)
    by (simp add: handleReady_def Let_def whitelistedEmptyKey_def takenByOther_def releaseKey_def
        registerKey_def post_cmd_eq send_def chan_send_def cmdChanCap_def newHandle_def)
  show ?thesis
    using r h unfolding eq by (auto simp: reported_def less_Suc_eq)
qed

lemma all_reported:
  assumes "pool_reach raw p1" and "starting p1" and "m \<le> pNextSeq p1"
    and inj: "inj_on (\<lambda>n. keyOf p1 (eg n)) {..<m}" and ne: "\<And>n. n < m \<Longrightarrow> keyOf p1 (eg n) \<noteq> ''''"
  shows "reported p1 (\<lambda>n. keyOf p1 (eg n)) m (fold (\<lambda>n. handleReady (seqID n) (eg n)) [0..<m] p1) \<and>
    pool_reach raw (fold (\<lambda>n. handleReady (seqID n) (eg n)) [0..<m] p1)"
  using assms(3) inj ne
proof (induction m)
  case 0
  then show ?case using reported_0 [OF assms(2)] assms(1) by simp
next
  case (Suc m)
  let ?K = "\<lambda>n. keyOf p1 (eg n)" and ?q = "fold (\<lambda>n. handleReady (seqID n) (eg n)) [0..<m] p1"
  have q: "reported p1 ?K m ?q" "pool_reach raw ?q"
    using Suc.IH Suc.prems by (simp_all add: lessThan_Suc)
  have "?K m \<notin> ?K ` {..<m}"
  proof
    assume "?K m \<in> ?K ` {..<m}"
    then obtain n where "n < m" "?K m = ?K n" by auto
    with inj_onD [OF Suc.prems(2), of m n] show False by simp
  qed
  then have "reported p1 ?K (Suc m) (handleReady (seqID m) (eg m) ?q)"
    using Suc.prems by (intro reported_Suc [OF q(1) assms(2)]) simp_all
  moreover have "pool_reach raw (handleReady (seqID m) (eg m) ?q)"
  proof (rule reach_ready [OF q(2)])
    obtain cfg t where "pStore p1 (seqID m) = Some (newHandle cfg t)"
      using assms(2) Suc.prems(1) unfolding starting_def by (meson Suc_le_lessD)
    then have "pStore ?q (seqID m) = Some (newHandle cfg t)" using q(1) by (simp add: reported_def)
    then show "seqID m \<in> dom (pStore ?q)" "\<not> inStopped (handleOf ?q (seqID m))" by auto
    show "pEvents ?q = []" using q(1) by (simp add: reported_def)
  qed
  ultimately show ?case by simp
qed

section \<open>Serving\<close>

lemma dial_any:
  assumes "\<not> pClosed p" and "normalCandidates p (snapshot p) \<noteq> []"
  shows "\<exists>ic q. DialContext (\<lambda>k. None) (\<lambda>k a. Inr c) p = (Inr ic, q) \<and> icConn ic = c"
proof -
  let ?p = "p\<lparr>pCursor := pCursor p + 1\<rparr>" and ?vs = "rotation (pCursor p) (normalCandidates p (snapshot p))"
  have "normalCandidates ?p (snapshot ?p) = normalCandidates p (snapshot p)"
    by (simp add: normalCandidates_def snapshot_def)
  then have "DialContext (\<lambda>k. None) (\<lambda>k a. Inr c) p = dialLoop (\<lambda>k. None) (\<lambda>k a. Inr c) 0 ?vs None ?p"
    using assms by (simp add: DialContext_def nextStart_def dial_def Let_def)
  moreover have "?vs \<noteq> []" using assms(2) by (simp add: rotation_def Let_def)
  then obtain v vs where "?vs = v # vs" by (cases ?vs) auto
  ultimately show ?thesis by (simp add: dialView_def Let_def)
qed

definition all_normal :: "pool \<Rightarrow> pool" where
  "all_normal q = q\<lparr>pStore := (\<lambda>i. map_option (\<lambda>h. h\<lparr>inStatus := StatusNormal, inCmds := []\<rparr>) (pStore q i))\<rparr>"

lemma reach_all_normal: "pool_reach raw q \<Longrightarrow> pool_reach raw (all_normal q)"
  unfolding all_normal_def
  by (erule reach_store) (auto simp: store_ext_def handle_ext_def dom_def)

lemma all_normal_serves:
  assumes "pool_reach raw q" and "pInsts q \<noteq> []" and "\<not> pClosed q"
  shows "\<exists>ic q'. DialContext (\<lambda>k. None) (\<lambda>k a. Inr c) (all_normal q) = (Inr ic, q') \<and> icConn ic = c"
proof (rule dial_any)
  let ?r = "all_normal q"
  have snap: "set (snapshot ?r) = set (pInsts q)"
    using pool_inv_snapshot [OF pool_reach_inv [OF reach_all_normal [OF assms(1)]]] by (simp add: all_normal_def)
  have "statusOf ?r i = StatusNormal" if "i \<in> set (pInsts q)" for i
    using pool_inv_member [OF pool_reach_inv [OF assms(1)] that] by (auto simp: all_normal_def)
  with snap have "normalCandidates ?r (snapshot ?r) = snapshot ?r"
    by (auto simp: normalCandidates_def filter_id_conv)
  with snap assms(2) show "normalCandidates ?r (snapshot ?r) \<noteq> []" by (metis set_empty)
  show "\<not> pClosed ?r" using assms(3) by (simp add: all_normal_def)
qed

text \<open>C4: Cold start. A pool is created, its coordinator aligns, and exactly \<open>Min\<close> instances with
  the IDs 0 to \<open>Min - 1\<close> exist. When they report egresses with different keys, each is
  confirmed and holds its key. Each of them, run on the configuration it was created with,
  with any number of failed starts and the confirmation the coordinator put into its queue,
  ends up in service with a client; and the pool in which all of them are in service hands
  out connections.\<close>

theorem cold_start:
  fixes iter :: iteration and now :: clock and p0 :: pool and eg :: "nat \<Rightarrow> Egress"
  assumes "newPool raw dirOk = Inr p0" and "\<And>xs. mset (iter xs) = mset xs"
    and "paBase (pPorts p0) + oMin raw \<le> 65536" and "\<not> oCredentialSource raw"
    and "inj_on (\<lambda>n. keyOf p0 (eg n)) {..<nat (oMin raw)}"
    and "\<And>n. n < nat (oMin raw) \<Longrightarrow> keyOf p0 (eg n) \<noteq> '''' \<and> list_all fails (fs n)"
  defines "p1 \<equiv> reconcile iter now [] p0"
  defines "q \<equiv> fold (\<lambda>n. handleReady (seqID n) (eg n)) [0..<nat (oMin raw)] p1"
  shows "pool_reach raw q \<and> pInsts q = map seqID [0..<nat (oMin raw)] \<and>
    (\<forall>n < nat (oMin raw). pKeysByInst q (seqID n) = Some (keyOf p0 (eg n)) \<and>
       (\<exists>j. goroutine room (newInstance (the (pConfigs q (seqID n))) t disk rm
            (retries (fs n) @ [InSem, InClient (Started f), InProbe (ProbeReturns (eg n)), InSent] @
             map InCmd (inCmds (handleOf q (seqID n))))) = Parked j \<and>
          inStatus j = StatusNormal \<and> iClient j \<noteq> None)) \<and>
    pool_reach raw (all_normal q) \<and>
    (\<exists>ic q'. DialContext (\<lambda>k. None) (\<lambda>k a. Inr c) (all_normal q) = (Inr ic, q') \<and> icConn ic = c)"
proof -
  let ?m = "nat (oMin raw)"
  have iter: "perm_iter iter" using assms(2) by (simp add: perm_iter_def)
  have p1: "pool_reach raw p1" "starting p1" "pNextSeq p1 = ?m" "pOpts p1 = withDefaults raw"
    "\<not> pClosed p1"
    using first_alignment [OF assms(1) iter assms(3), of now] unfolding p1_def by auto
  have opts: "pOpts p0 = withDefaults raw" using newPool_fields [OF assms(1)] by blast
  with p1(4) have key: "keyOf p1 (eg n) = keyOf p0 (eg n)" for n by simp
  have q: "reported p1 (\<lambda>n. keyOf p0 (eg n)) ?m q" "pool_reach raw q"
    using all_reported [OF p1(1,2), of ?m eg] assms(5,6) p1(3) unfolding q_def key by auto
  have "Validate (withDefaults raw) = None" using newPool_fields [OF assms(1)] by blast
  then have mx: "0 < oReplayBackoffMax (withDefaults raw)"
    by (simp add: Validate_None_iff valid_options_def)
  have src: "\<not> oCredentialSource (withDefaults raw)" using assms(4) by (simp add: withDefaults_def)
  have up: "\<exists>j. goroutine room (newInstance (the (pConfigs q (seqID n))) t disk rm
            (retries (fs n) @ [InSem, InClient (Started f), InProbe (ProbeReturns (eg n)), InSent] @
             map InCmd (inCmds (handleOf q (seqID n))))) = Parked j \<and>
          inStatus j = StatusNormal \<and> iClient j \<noteq> None" if n: "n < ?m" for n
  proof -
    have "n < pNextSeq p1" using n p1(3) by simp
    with p1(2) obtain cfg t' where c: "pConfigs p1 (seqID n) = Some cfg"
        "icCredSource cfg = oCredentialSource (pOpts p1)" "icBackoffMax cfg = oReplayBackoffMax (pOpts p1)"
      unfolding starting_def by blast
    have "pConfigs q = pConfigs p1" using q(1) by (simp add: reported_def)
    with c src mx p1(4) have cfg: "pConfigs q (seqID n) = Some cfg" "\<not> icCredSource cfg" "0 < icBackoffMax cfg"
      by simp_all
    have cmds: "inCmds (handleOf q (seqID n)) = [cmd cmdConfirm]" using q(1) n by (simp add: reported_def)
    show ?thesis
      using starts_up [where fs = "fs n" and room = room and now = t and disk = disk and rm = rm
          and f = f and eg = "eg n", OF _ cfg(2,3) refl] assms(6) [OF n]
      by (auto simp: cfg(1) cmds)
  qed
  have members: "pInsts q = map seqID [0..<?m]" "\<not> pClosed q"
    using q(1) p1(2,3,5) by (simp_all add: reported_def starting_def)
  have "pInsts q \<noteq> []" using members(1) newPool_limits(3) [OF assms(1)] by simp
  note serves = all_normal_serves [OF q(2) this members(2), of c]
  have keys: "pKeysByInst q (seqID n) = Some (keyOf p0 (eg n))" if "n < ?m" for n
    using q(1) that by (simp add: reported_def)
  show ?thesis
    by (intro conjI allI impI q(2) members(1) keys up reach_all_normal serves)
qed

lemma cold_start_witness:
  "\<exists>q. pool_reach demoOptions q \<and> pInsts q = [seqID 0, seqID 1] \<and>
     (\<exists>ic q'. DialContext (\<lambda>k. None) (\<lambda>k a. Inr 9) (all_normal q) = (Inr ic, q') \<and> icConn ic = 9)"
proof -
  let ?eg = "\<lambda>n :: nat. demoEgress (if n = 0 then 7 else 8)"
  define q where "q = fold (\<lambda>n. handleReady (seqID n) (?eg n)) [0..<nat (oMin demoOptions)]
        (reconcile rev int [] demo0)"
  have m: "nat (oMin demoOptions) = 2" by (simp add: demoOptions_def)
  have key: "keyOf demo0 = DedupeByBoth" by (simp add: demo0_def demo_keyer)
  have inj: "inj_on (\<lambda>n. keyOf demo0 (?eg n)) {..<nat (oMin demoOptions)}"
    unfolding m key inj_on_def demoEgress_key_inj by (auto simp: less_Suc_eq numeral_2_eq_2)
  have ports: "paBase (pPorts demo0) + oMin demoOptions \<le> 65536" and src: "\<not> oCredentialSource demoOptions"
    by (simp_all add: demo0_def demoPorts_def demoOptions_def)
  have ne: "keyOf demo0 (?eg n) \<noteq> '''' \<and> list_all fails [NewClientErr]" for n
    by (simp add: key demoEgress_key)
  have perm: "mset (rev xs) = mset xs" for xs :: "ID list" by simp
  note c = cold_start [where iter = rev and now = int and eg = ?eg and fs = "\<lambda>n. [NewClientErr]" and c = 9,
      OF newPool_demo perm ports src inj ne, folded q_def]
  have l: "map seqID [0..<nat (oMin demoOptions)] = [seqID 0, seqID 1]"
    unfolding m by (simp add: numeral_2_eq_2)
  have r: "pool_reach demoOptions q" by (rule conjunct1 [OF c])
  have i: "pInsts q = [seqID 0, seqID 1]" by (rule trans [OF conjunct1 [OF conjunct2 [OF c]] l])
  have d: "\<exists>ic q'. DialContext (\<lambda>k. None) (\<lambda>k a. Inr 9) (all_normal q) = (Inr ic, q') \<and> icConn ic = 9"
    by (rule conjunct2 [OF conjunct2 [OF conjunct2 [OF conjunct2 [OF c]]]])
  show ?thesis by (intro exI [of _ q] conjI r i d)
qed

end
