(* ===== verification/Recovery.thy ===== *)
theory Recovery
  imports Shutdown ColdStart
begin

text \<open>
  A client that is lost. A run that waits in service waits in the \<open>select\<close> of the main loop, so
  its further course is that of the loop; from there the loss is reported, the client is
  rebuilt under the same identity, and the instance is put into service again. The
  coordinator takes the key back meanwhile.
\<close>

section \<open>Waiting in service is waiting in the main loop\<close>

text \<open>A step that leaves the status alone, also where it waits.\<close>

abbreviation stays :: "Status \<Rightarrow> 'a outcome \<Rightarrow> bool" where
  "stays st \<equiv> post (\<lambda>j. inStatus j = st) anything (\<lambda>_ j. inStatus j = st)"

abbreviation out_of_service :: "'a outcome \<Rightarrow> bool" where
  "out_of_service \<equiv> post (\<lambda>j. inStatus j \<noteq> StatusNormal) anything (\<lambda>_. anything)"

lemma stays_out: "stays st m \<Longrightarrow> st \<noteq> StatusNormal \<Longrightarrow> (\<And>a j. inStatus j = st \<Longrightarrow> out_of_service (f a j)) \<Longrightarrow>
   out_of_service (bindO m f)"
  by (cases m) auto

lemma emit_stays: "stays (inStatus i) (emit k eg i)"
  by (auto simp: emit_def split: list.split input.split)

lemma probeAndReport_stays: "stays (inStatus i) (probeAndReport i)"
  by (auto simp: probeAndReport_def emit_def Let_def split: list.split input.split probe_answer.split)

lemma waitBackoff_stays: "stays (inStatus i) (waitBackoff d i)"
proof (induction d i rule: waitBackoff.induct)
  case (1 d i)
  from "1.IH" [OF refl] show ?case
    by (subst waitBackoff.simps) (auto simp: Let_def split: list.split input.split)
qed

lemma startUnderSem_stays: "stays (inStatus i) (startUnderSem i)"
  by (auto simp: startUnderSem_def acquireSem_def releaseSem_def Let_def
      split: list.split input.split client_answer.split)

lemma provisionCredential_stays: "stays (inStatus i) (provisionCredential i)"
  by (auto simp: provisionCredential_def split: list.split input.split acquire_answer.split prod.split)

lemma status_frame [simp]:
  "inStatus (closeClient i) = inStatus i" "inStatus (dropIdentity k i) = inStatus i"
  "inStatus (snd (backoffDelay i)) = inStatus i" "inStatus (watchRun i) = inStatus i"
  "inStatus (closeConns i) = inStatus i"
  by (simp_all add: closeClient_def dropIdentity_def nextEndpoint_def removeState_def backoffDelay_def
      watchRun_def closeConns_def Let_def split: option.split)

lemma ensureClient_stays: "inStatus i = st \<Longrightarrow> stays st (ensureClient k d i)"
proof (rule post_ensureClient [where I = "\<lambda>k d i. inStatus i = st"])
  fix k d and i :: inst
  assume st: "inStatus i = st"
  have start: "stays st (waitIfPositive d (dropIdentity k (closeClient i)))"
    using waitBackoff_stays [of "dropIdentity k (closeClient i)" d] st by (simp add: waitIfPositive_def)
  have sem: "post (\<lambda>j. inStatus j = st) anything (\<lambda>r i3.
      case r of
        (_, False) \<Rightarrow> inStatus i3 = st
      | (Some c, True) \<Rightarrow> inStatus (watchRun (i3\<lparr>iClient := Some c\<rparr>)) = st
      | (None, True) \<Rightarrow> inStatus (snd (backoffDelay i3)) = st) (startUnderSem i2)" if "inStatus i2 = st" for i2
    using startUnderSem_stays [of i2] that
    by (auto elim!: post_mono split: prod.split option.split bool.split)
  have prov: "stays st (provisionCredential i1)" if "inStatus i1 = st" for i1
    using provisionCredential_stays [of i1] that by simp
  show "client_round (\<lambda>j. inStatus j = st) anything (\<lambda>k d i. inStatus i = st) (\<lambda>_ j. inStatus j = st) k d i"
    unfolding client_round_def
    using start sem by (auto intro!: post_mono [OF start] post_mono [OF prov])
qed

lemma probe_out: "inStatus i \<noteq> StatusNormal \<Longrightarrow> out_of_service (bindO (probeAndReport i) (\<lambda>_ j. Ret b j))"
  using probeAndReport_stays [of i] by (auto elim: post_mono)

lemma ensure_out:
  assumes "inStatus i \<noteq> StatusNormal" and "\<And>a j. inStatus j \<noteq> StatusNormal \<Longrightarrow> out_of_service (f a j)"
  shows "out_of_service (bindO (ensureClient k d i) f)"
  by (rule stays_out [OF ensureClient_stays [OF refl] assms(1)]) (use assms in simp)

lemma emit_out:
  assumes "inStatus i \<noteq> StatusNormal" and "\<And>a j. inStatus j \<noteq> StatusNormal \<Longrightarrow> out_of_service (f a j)"
  shows "out_of_service (bindO (emit k eg i) f)"
  by (rule stays_out [OF emit_stays assms(1)]) (use assms in simp)

lemma drainLoop_out: "inStatus i \<noteq> StatusNormal \<Longrightarrow> out_of_service (drainLoop i)"
proof (induction i rule: drainLoop.induct)
  case (1 i)
  have "out_of_service (drainExpired k)" for k
    unfolding drainExpired_def
    by (intro emit_out ensure_out) (auto simp: setStatus_def intro!: probe_out simp del: post_bindO)
  with 1 show ?case
    by (subst drainLoop.simps) (auto split: list.split input.split cmdKind.split)
qed

lemma handle_cmd_out: "out_of_service (handle_cmd c i)"
proof (cases "cKind c")
  case cmdReprobe
  show ?thesis
  proof (cases "inStatus i = StatusProbing")
    case True
    have "stays StatusProbing (waitBackoff (fst (backoffDelay i)) (snd (backoffDelay i)))"
      using waitBackoff_stays [of "snd (backoffDelay i)" "fst (backoffDelay i)"] True by simp
    then show ?thesis
      using cmdReprobe True
      by (auto simp: handle_cmd_def intro!: stays_out [OF \<open>stays StatusProbing _\<close>] probe_out
          simp del: post_bindO split: if_split)
  qed (simp add: handle_cmd_def cmdReprobe)
next
  case cmdDrain
  then show ?thesis
    using drainLoop_out by (auto simp: handle_cmd_def drain_def setStatus_def)
next
  case cmdReplay
  have "out_of_service (bindO (ensureClient False d j) (\<lambda>ok i2.
     if \<not> ok then Ret True i2
     else bindO (emit evReplayed zeroEgress i2) (\<lambda>_ i3. bindO (probeAndReport i3) (\<lambda>_ i4. Ret False i4))))"
    if "inStatus j = StatusProbing" for d j
    by (rule ensure_out) (use that in \<open>auto intro!: emit_out probe_out simp del: post_bindO\<close>)
  then show ?thesis
    using cmdReplay by (auto simp: handle_cmd_def Let_def setStatus_def simp del: post_bindO)
next
  case cmdEnable
  have "out_of_service (bindO (ensureClient True 0 (setStatus StatusProbing i)) (\<lambda>ok i1.
     if \<not> ok then Ret True i1 else bindO (probeAndReport i1) (\<lambda>_ i2. Ret False i2)))"
    by (rule ensure_out) (auto simp: setStatus_def intro!: probe_out simp del: post_bindO)
  then show ?thesis using cmdEnable by (auto simp: handle_cmd_def simp del: post_bindO)
next
  case cmdDisable
  have "out_of_service (bindO (emit evDisabled zeroEgress (closeClient (setStatus StatusDisabled i))) (\<lambda>_ i1. Ret False i1))"
    by (rule emit_out) (simp_all add: setStatus_def)
  then show ?thesis using cmdDisable by (auto simp: handle_cmd_def simp del: post_bindO)
qed (auto simp: handle_cmd_def Let_def)

lemma handleLost_out: "out_of_service (handleLost i)"
  unfolding handleLost_def
  by (intro emit_out ensure_out) (auto simp: setStatus_def intro!: probe_out simp del: post_bindO)

text \<open>The main loop: waiting in service is waiting in its \<open>select\<close>, with nothing put aside.\<close>

lemma manageLoop_continues:
  "manageLoop i = Parked j \<Longrightarrow> inputs j = [] \<Longrightarrow> inStatus j = StatusNormal \<Longrightarrow>
   iPending j = [] \<and> (\<forall>u. manageLoop (feed u i) = manageLoop (feed u j))"
proof (induction "load i" arbitrary: i rule: less_induct)
  case less
  have via: ?case
    if f: "resumes (closing NewClientErr ProbePanic) f h" "out_of_service (f h)" "load h < load i"
      and eq: "\<And>u. manageLoop (feed u i) =
        bindO (f (feed u h)) (\<lambda>stop i1. if stop then Ret () i1 else manageLoop i1)" for f h
  proof -
    have run: "bindO (f h) (\<lambda>stop i1. if stop then Ret () i1 else manageLoop i1) = Parked j"
      using less.prems(1) eq [of "[]"] by simp
    show ?thesis
    proof (cases "f h")
      case (Ret stop k)
      with run have k: "\<not> stop" "manageLoop k = Parked j" by (auto split: if_splits)
      note fk = resumes_Ret [OF f(1) Ret]
      then have "load k < load i" using f(3) by simp
      from less.hyps [OF this k(2) less.prems(2,3)] show ?thesis
        using fk k(1) by (simp add: eq)
    qed (use run f(2) less.prems(3) in auto)
  qed
  show ?case
  proof (cases "iPending i")
    case (Cons q qs)
    show ?thesis
      by (rule via [OF handle_cmd_resumes [where q = q] handle_cmd_out, where h = "i\<lparr>iPending := qs\<rparr>"])
         (use Cons in \<open>simp_all add: manageLoop.simps [of "feed u i" for u] load_def\<close>)
  next
    case none: Nil
    note unfolds = manageLoop.simps [of i] manageLoop.simps [of "feed u i" for u] none
    show ?thesis
    proof (cases "inputs i")
      case Nil
      with less.prems none show ?thesis by (simp add: unfolds)
    next
      case (Cons x xs)
      show ?thesis
      proof (cases x)
        case (InCmd q)
        show ?thesis
          by (rule via [OF handle_cmd_resumes [where q = q] handle_cmd_out, where h = "i\<lparr>inputs := xs\<rparr>"])
             (use Cons InCmd in \<open>simp_all add: unfolds load_def feed_inputs\<close>)
      next
        case (InRunExit g)
        let ?h = "i\<lparr>inputs := xs, iWatched := iWatched i - {g}\<rparr>"
        have lt: "load ?h < load i" using Cons by (simp add: load_def)
        have fed: "feed u (i\<lparr>inputs := xs, iWatched := w\<rparr>) = i\<lparr>inputs := xs @ u, iWatched := w\<rparr>" for u w
          by (simp add: feed_def script_first)
        have g: "g \<in> iWatched i"
          using less.prems Cons InRunExit by (auto simp: unfolds split: if_splits)
        show ?thesis
        proof (cases "g = iGen i")
          case True
          show ?thesis
            by (rule via [OF handleLost_resumes handleLost_out lt])
               (use Cons InRunExit g True in \<open>simp_all add: unfolds fed\<close>)
        next
          case False
          have "manageLoop (feed u i) = manageLoop (feed u ?h)" for u
            using Cons InRunExit g False by (simp add: unfolds fed)
          moreover from this [of "[]"] have "manageLoop ?h = Parked j" using less.prems(1) by simp
          ultimately show ?thesis using less.hyps [OF lt _ less.prems(2,3)] by simp
        qed
      qed (use less.prems Cons in \<open>auto simp: unfolds\<close>)
    qed
  qed
qed

text \<open>The goroutine, from the wait in service on.\<close>

definition ended :: "bool \<Rightarrow> unit outcome \<Rightarrow> unit outcome" where
  "ended room out =
     (case out of
        Ret u j \<Rightarrow> Ret u (recoverManage room j)
      | Panic j \<Rightarrow> Ret () (recoverManage room j)
      | Parked j \<Rightarrow> Parked j)"

lemma goroutine_ended: "goroutine room i = ended room (manage i)"
  by (simp add: goroutine_def ended_def)

lemma goroutine_continues:
  assumes "goroutine room (newInstance cfg now f rm s) = Parked j" and "inputs j = []"
    and "inStatus j = StatusNormal"
  shows "iPending j = [] \<and>
    (\<forall>u. goroutine room (newInstance cfg now f rm (s @ u)) = ended room (manageLoop (feed u j)))"
proof -
  let ?i = "newInstance cfg now f rm s"
  let ?C = "closing NewClientErr ProbePanic"
  have st: "inStatus ?i = StatusProbing" by (simp add: newInstance_def newHandle_def handle.extend_def)
  have m: "manage ?i = Parked j" using assms(1) by (simp add: goroutine_def split: outcome.splits)
  note up = ensureClient_stays [OF st, of True 0]
  obtain k where k: "ensureClient True 0 ?i = Ret True k" "bindO (probeAndReport k) (\<lambda>_ i2. manageLoop i2) = Parked j"
  proof (cases "ensureClient True 0 ?i")
    case (Ret ok k)
    with m that show thesis by (auto simp: manage_def split: if_splits)
  qed (use m up assms(3) in \<open>auto simp: manage_def\<close>)
  with up have "inStatus k = StatusProbing" by simp
  then obtain l where l: "probeAndReport k = Ret () l" "manageLoop l = Parked j"
    using k(2) probeAndReport_stays [of k] assms(3) by (cases "probeAndReport k") auto
  note loop = manageLoop_continues [OF l(2) assms(2,3)]
  have "manage (feed u ?i) = manageLoop (feed u j)" for u
    using resumes_Ret [OF ensureClient_resumes [where c = NewClientErr and p = ProbePanic] k(1)]
      resumes_Ret [OF probeAndReport_resumes [where c = NewClientErr and p = ProbePanic] l(1)] loop
    by (simp add: manage_def)
  with loop show ?thesis by (simp add: goroutine_ended feed_newInstance)
qed

section \<open>A lost client\<close>

lemma bindO_assoc: "bindO (bindO m f) g = bindO m (\<lambda>a i. bindO (f a i) g)"
  by (cases m) auto

lemma manageLoop_lost:
  assumes "iPending j = []" "inputs j = []" "iGen j \<in> iWatched j" "list_all fails fs"
    "\<not> iCredSource j" "keeps_backing_off j"
  shows "\<exists>k. manageLoop (feed ([InRunExit (iGen j), InSent] @ retries fs @
        [InSem, InClient (Started f), InProbe (ProbeReturns eg), InSent, InCmd (cmd cmdConfirm)]) j) = Parked k \<and>
     inStatus k = StatusNormal \<and> iClient k \<noteq> None \<and> iBackoffN k = 0 \<and> iEpIdx k = iEpIdx j + length fs \<and>
     prefix (trace j @ [SetStatus StatusProbing, Emit evLost zeroEgress]) (trace k) \<and>
     Emit evReady eg \<in> set (trace k)"
proof -
  let ?rest = "[InProbe (ProbeReturns eg), InSent, InCmd (cmd cmdConfirm)]"
  let ?up = "retries fs @ InSem # InClient (Started f) # ?rest"
  let ?l = "act (Emit evLost zeroEgress) ((setStatus StatusProbing
      (j\<lparr>iWatched := iWatched j - {iGen j}\<rparr>))\<lparr>inputs := ?up\<rparr>)"
  have l: "\<not> iCredSource ?l" "keeps_backing_off ?l" "inputs ?l = timer_for 0 @ ?up" "iPending ?l = []"
    "inStatus ?l = StatusProbing" "iEpIdx ?l = iEpIdx j"
    "trace ?l = trace j @ [SetStatus StatusProbing, Emit evLost zeroEgress]"
    using assms by (simp_all add: setStatus_def keeps_backing_off_def)
  from ensureClient_recovers [OF assms(4) l(1-3), of True] l
  obtain m where m: "ensureClient True 0 ?l = Ret True m" "inputs m = ?rest" "iClient m \<noteq> None"
    "iEpIdx m = iEpIdx j + length fs" "inStatus m = StatusProbing" "iPending m = []"
    by (auto simp: same_setup_def)
  have grown: "prefix (trace ?l) (trace m)"
    using grows.ensureClient_kept [of "trace ?l" ?l True 0] m(1) by simp
  have "manageLoop (feed (InRunExit (iGen j) # InSent # ?up) j) =
      bindO (ensureClient True 0 ?l) (\<lambda>ok i2. bindO (if \<not> ok then Ret True i2
          else bindO (probeAndReport i2) (\<lambda>_ i3. Ret False i3)) (\<lambda>stop i2. if stop then Ret () i2 else manageLoop i2))"
    using assms(1-3)
    by (subst manageLoop.simps)
       (simp add: feed_nil handleLost_def emit_def setStatus_def act_def bindO_assoc)
  with m grown l(7) show ?thesis
    by (simp add: probeAndReport_def emit_def manageLoop.simps handle_cmd_def cmd_def setStatus_def act_def Let_def)
qed

text \<open>What the configuration fixes stays.\<close>

interpretation configured: script_invariant "\<lambda>i. iCredSource i = cs \<and> iBackoffMax i = mx" for cs mx
  by unfold_locales
     (auto simp: act_def setStatus_def closeConns_def nextEndpoint_def removeState_def)

section \<open>The coordinator's part\<close>

lemma alignLoop_keys:
  "pKeysByInst (alignLoop iter now mn mx p) = pKeysByInst p \<and>
   pUsedKeys (alignLoop iter now mn mx p) = pUsedKeys p \<and> pOpts (alignLoop iter now mn mx p) = pOpts p"
proof (induction iter now mn mx p rule: alignLoop.induct)
  case (1 iter now mn mx p)
  have e: "pKeysByInst (evictOnce iter p) = pKeysByInst p \<and> pUsedKeys (evictOnce iter p) = pUsedKeys p \<and>
      pOpts (evictOnce iter p) = pOpts p"
    by (cases iter p rule: evictOnce_cases) simp_all
  obtain ok q where c: "createInstance iter now p = (ok, q)" by fastforce
  then have q: "pKeysByInst q = pKeysByInst p \<and> pUsedKeys q = pUsedKeys p \<and> pOpts q = pOpts p"
    by (auto simp: createInstance_def Let_def split: prod.splits bool.splits)
  show ?case
    using "1.IH" [OF _ _ c [symmetric]] c q e
    by (subst (1 2 3) alignLoop.simps) (cases ok; simp)
qed

lemma align_keys:
  "pKeysByInst (align iter now p) = pKeysByInst p \<and> pUsedKeys (align iter now p) = pUsedKeys p \<and>
   pOpts (align iter now p) = pOpts p"
  using alignLoop_keys [of iter now] by (cases iter p rule: evictOnce_cases) (simp_all add: align_def Let_def)

section \<open>Recovery\<close>

text \<open>C6: A lost client is replaced. Take any run of an instance that waits in service, and let
  the \<open>Run\<close> of its client end. The instance reports the loss, and the coordinator takes its
  key back, so that another member may have it. After any number of failed starts the
  instance has a client again (under the same endpoint if the first start succeeds) and
  reports its egress; if the key is still free, the coordinator registers it for the instance
  again and confirms; and with the confirmation the instance is back in service.\<close>

theorem loss_recovers:
  fixes cfg p eg iter now
  assumes "goroutine room (newInstance cfg t disk rm s) = Parked j" and "inputs j = []"
    and "inStatus j = StatusNormal" and "iGen j \<in> iWatched j"
    and "list_all fails fs" and "\<not> icCredSource cfg" and "0 < icBackoffMax cfg"
    and "pool_reach raw p" and "icID cfg \<in> set (pInsts p)"
    and "pKeysByInst p (icID cfg) = Some (keyOf p eg)" and "keyOf p eg \<noteq> ''''"
  defines "p1 \<equiv> handleEvent iter now \<lparr>evInst = icID cfg, evK = evLost, evEgress = zeroEgress\<rparr> p"
  defines "p2 \<equiv> handleEvent iter now \<lparr>evInst = icID cfg, evK = evReady, evEgress = eg\<rparr> p1"
  shows "(\<exists>k. goroutine room (newInstance cfg t disk rm (s @ [InRunExit (iGen j), InSent] @ retries fs @
        [InSem, InClient (Started f), InProbe (ProbeReturns eg), InSent, InCmd (cmd cmdConfirm)])) = Parked k \<and>
      inStatus k = StatusNormal \<and> iClient k \<noteq> None \<and> iEpIdx k = iEpIdx j + length fs \<and>
      prefix (trace j @ [SetStatus StatusProbing, Emit evLost zeroEgress]) (trace k) \<and>
      Emit evReady eg \<in> set (trace k)) \<and>
    pKeysByInst p1 (icID cfg) = None \<and> pUsedKeys p1 (keyOf p eg) = None \<and>
    pKeysByInst p2 (icID cfg) = Some (keyOf p eg) \<and> pUsedKeys p2 (keyOf p eg) = Some (icID cfg) \<and>
    sent (icID cfg) (cmd cmdConfirm) p1 p2"
proof -
  let ?i = "icID cfg"
  note c = goroutine_continues [OF assms(1-3)]
  have "iCredSource j = icCredSource cfg \<and> iBackoffMax j = icBackoffMax cfg"
    using configured.goroutine_kept [of "newInstance cfg t disk rm s" "icCredSource cfg" "icBackoffMax cfg" room]
      assms(1) by (simp add: newInstance_def handle.extend_def)
  with assms(6,7) have "\<not> iCredSource j" "keeps_backing_off j"
    by (auto intro: keeps_backing_off_max)
  with manageLoop_lost [OF _ assms(2,4,5), of f eg] c obtain k where k:
    "manageLoop (feed ([InRunExit (iGen j), InSent] @ retries fs @
        [InSem, InClient (Started f), InProbe (ProbeReturns eg), InSent, InCmd (cmd cmdConfirm)]) j) = Parked k"
    "inStatus k = StatusNormal" "iClient k \<noteq> None" "iEpIdx k = iEpIdx j + length fs"
    "prefix (trace j @ [SetStatus StatusProbing, Emit evLost zeroEgress]) (trace k)"
    "Emit evReady eg \<in> set (trace k)" by blast
  have run: "goroutine room (newInstance cfg t disk rm (s @ [InRunExit (iGen j), InSent] @ retries fs @
        [InSem, InClient (Started f), InProbe (ProbeReturns eg), InSent, InCmd (cmd cmdConfirm)])) = Parked k"
    using c k(1) by (simp add: ended_def)
  note inv = pool_reach_inv [OF assms(8)]
  have p1: "pKeysByInst p1 ?i = None" "pUsedKeys p1 (keyOf p eg) = None" "keyOf p1 = keyOf p"
    using align_keys [of iter now "releaseKey ?i p"] assms(10)
      releaseKey_used [OF pool_inv_keysD [OF inv] member_neq_Nil [OF inv assms(9)], of "keyOf p eg"]
    by (simp_all add: p1_def handleEvent_def)
  then have "p2 = post_cmd ?i (cmd cmdConfirm) (registerKey ?i (keyOf p eg) (clearEmpty ?i (releaseKey ?i p1)))"
    using assms(11)
    by (simp add: p2_def handleEvent_def handleReady_def Let_def whitelistedEmptyKey_def takenByOther_def)
  then show ?thesis
    using run k p1 by (auto simp: registerKey_def clearEmpty_def intro!: sent_post_cmd)
qed

lemma loss_recovers_witness:
  "\<exists>j. goroutine True (newInstance demoConfig 0 None True demoScript) = Parked j \<and>
     (\<exists>k. goroutine True (newInstance demoConfig 0 None True (demoScript @
        [InRunExit (iGen j), InSent] @ retries [NewClientErr] @
        [InSem, InClient (Started None), InProbe (ProbeReturns (demoEgress 7)), InSent, InCmd (cmd cmdConfirm)])) = Parked k \<and>
      inStatus k = StatusNormal \<and> iClient k \<noteq> None) \<and>
     pUsedKeys (handleEvent rev int \<lparr>evInst = seqID 0, evK = evLost, evEgress = zeroEgress\<rparr> demo2)
       (DedupeByBoth (demoEgress 7)) = None"
proof -
  obtain j where j: "goroutine True (newInstance demoConfig 0 None True demoScript) = Parked j"
    "inputs j = []" "inStatus j = StatusNormal" "iGen j \<in> iWatched j"
    by (simp add: run_simps demoConfig_def demoScript_def zeroEgress_def)
  have cfg: "\<not> icCredSource demoConfig" "0 < icBackoffMax demoConfig" "icID demoConfig = seqID 0"
    by (simp_all add: demoConfig_def seqID_demo)
  have keyer: "keyOf demo2 = DedupeByBoth" using demo2_fields by (simp add: demo_keyer)
  have mem: "icID demoConfig \<in> set (pInsts demo2)" using demo2_fields cfg(3) by simp
  have key: "pKeysByInst demo2 (icID demoConfig) = Some (keyOf demo2 (demoEgress 7))"
    using demo2_fields unfolding cfg(3) keyer by simp
  have ne: "keyOf demo2 (demoEgress 7) \<noteq> ''''" unfolding keyer by (rule demoEgress_key)
  have fs: "list_all fails [NewClientErr]" by simp
  note r = loss_recovers [OF j fs cfg(1,2) reach_demo2 mem key ne,
      where f = None and iter = rev and now = int, unfolded cfg(3) keyer]
  show ?thesis
    using j(1) r by blast
qed

end
