(* ===== verification/Directory.thy ===== *)
theory Directory
  imports AlignProps
begin

text \<open>
  What the pool promises, without how it keeps its tables: a directory of members in which
  every egress key has at most one owner. The coordinator's state is mapped to a directory and
  every step of the pool to steps of the directory; what holds of every directory then holds
  of the pool.
\<close>

section \<open>The specification\<close>

record directory =
  dyMembers :: "ID set"
  dyIssued :: nat
  dyOwner :: "string \<rightharpoonup> ID"
  dyMin :: int
  dyMax :: int
  dyOpen :: bool

definition forget :: "ID \<Rightarrow> (string \<rightharpoonup> ID) \<Rightarrow> string \<rightharpoonup> ID" where
  "forget i m = (\<lambda>k. if m k = Some i then None else m k)"

definition new_directory :: "int \<Rightarrow> int \<Rightarrow> directory" where
  "new_directory a b = \<lparr>dyMembers = {}, dyIssued = 0, dyOwner = Map.empty, dyMin = a, dyMax = b, dyOpen = True\<rparr>"

text \<open>A member joins under a new ID while there is room, and leaves with its key; a key is claimed
  by a member that has none while nobody owns it, and given up; the limits change together; the
  directory is shut for good.\<close>

inductive dy_step :: "directory \<Rightarrow> directory \<Rightarrow> bool" where
  join: "int (card (dyMembers d)) < dyMax d \<Longrightarrow>
    dy_step d (d\<lparr>dyMembers := insert (seqID (dyIssued d)) (dyMembers d), dyIssued := dyIssued d + 1\<rparr>)"
| leave: "i \<in> dyMembers d \<Longrightarrow>
    dy_step d (d\<lparr>dyMembers := dyMembers d - {i}, dyOwner := forget i (dyOwner d)\<rparr>)"
| give_up: "i \<in> dyMembers d \<Longrightarrow> dy_step d (d\<lparr>dyOwner := forget i (dyOwner d)\<rparr>)"
| claim: "i \<in> dyMembers d \<Longrightarrow> i \<notin> ran (dyOwner d) \<Longrightarrow> k \<noteq> '''' \<Longrightarrow> dyOwner d k = None \<Longrightarrow>
    dy_step d (d\<lparr>dyOwner := (dyOwner d)(k \<mapsto> i)\<rparr>)"
| resize: "a \<le> b \<Longrightarrow> a = dyMin d \<or> b = dyMax d \<Longrightarrow> dy_step d (d\<lparr>dyMin := a, dyMax := b\<rparr>)"
| shut: "dy_step d (d\<lparr>dyOpen := False\<rparr>)"

text \<open>The promise.\<close>

definition dy_safe :: "directory \<Rightarrow> bool" where
  "dy_safe d \<longleftrightarrow> dyMembers d \<subseteq> seqID ` {..<dyIssued d} \<and> ran (dyOwner d) \<subseteq> dyMembers d \<and>
     inj_on (dyOwner d) (dom (dyOwner d)) \<and> dyOwner d '''' = None \<and> dyMin d \<le> dyMax d"

lemma forget_ran: "ran (forget i m) = ran m - {i}"
  unfolding forget_def ran_def by (auto split: if_splits) (metis option.inject)

lemma forget_inj: "inj_on m (dom m) \<Longrightarrow> inj_on (forget i m) (dom (forget i m))"
  by (auto simp: inj_on_def forget_def dom_def split: if_splits)

lemma dy_step_safe: "dy_step d e \<Longrightarrow> dy_safe d \<Longrightarrow> dy_safe e"
proof (induction rule: dy_step.induct)
  case (join d)
  then show ?case by (auto simp: dy_safe_def lessThan_Suc)
next
  case (leave i d)
  then show ?case using forget_inj [of "dyOwner d" i] by (auto simp: dy_safe_def forget_ran) (auto simp: forget_def)
next
  case (give_up i d)
  then show ?case using forget_inj [of "dyOwner d" i] by (auto simp: dy_safe_def forget_ran) (auto simp: forget_def)
next
  case (claim i d k)
  have "inj_on ((dyOwner d)(k \<mapsto> i)) (dom ((dyOwner d)(k \<mapsto> i)))"
    using claim by (auto simp: dy_safe_def inj_on_def dom_def ran_def)
  moreover have "ran ((dyOwner d)(k \<mapsto> i)) = insert i (ran (dyOwner d))"
    using claim(4) by simp
  ultimately show ?case using claim by (simp add: dy_safe_def)
qed (auto simp: dy_safe_def)

section \<open>The directory of a pool\<close>

definition directory_of :: "pool \<Rightarrow> directory" where
  "directory_of p =
     \<lparr>dyMembers = set (pInsts p), dyIssued = pNextSeq p, dyOwner = pUsedKeys p,
      dyMin = sint (pMin p), dyMax = sint (pMax p), dyOpen = (\<not> pClosed p)\<rparr>"

abbreviation simulates :: "pool \<Rightarrow> pool \<Rightarrow> bool" where
  "simulates p q \<equiv> dy_step\<^sup>*\<^sup>* (directory_of p) (directory_of q)"

lemma directory_of_frame [simp]:
  "directory_of (p\<lparr>pKeysByInst := k\<rparr>) = directory_of p" "directory_of (p\<lparr>pEmptyByInst := e\<rparr>) = directory_of p"
  "directory_of (p\<lparr>pStore := s\<rparr>) = directory_of p" "directory_of (p\<lparr>pEvents := es\<rparr>) = directory_of p"
  "directory_of (p\<lparr>pWake := b\<rparr>) = directory_of p" "directory_of (p\<lparr>pReplays := r\<rparr>) = directory_of p"
  "directory_of (p\<lparr>pCursor := c\<rparr>) = directory_of p" "directory_of (p\<lparr>pDialTotal := t\<rparr>) = directory_of p"
  "directory_of (p\<lparr>pDialFailures := f\<rparr>) = directory_of p" "directory_of (p\<lparr>pPorts := a\<rparr>) = directory_of p"
  "directory_of (p\<lparr>pPortOf := po\<rparr>) = directory_of p" "directory_of (post_cmd i cm p) = directory_of p"
  "directory_of (publish iter p) = directory_of p" "directory_of (storeEgress i eg p) = directory_of p"
  "directory_of (evictOnce iter p) = directory_of p"
  by (simp_all add: directory_of_def post_cmd_eq publish_def storeEgress_def)
     (cases iter p rule: evictOnce_cases; simp add: post_cmd_eq)

lemma directory_of_dial [simp]:
  "directory_of (snd (dialLoop ctxErr through k vs err p)) = directory_of p"
  by (induction vs arbitrary: k err p) (auto simp: dialView_def Let_def split: option.split sum.split)

lemma directory_of_calls [simp]:
  "directory_of (snd (pool_setStatus i s p)) = directory_of p"
  "directory_of (snd (DialContext ctxErr through p)) = directory_of p"
  "directory_of (snd (DialContextWithKey ctxErr through key p)) = directory_of p"
  "directory_of (snd (conn_Close closeErr c p)) = directory_of p"
  by (simp_all add: pool_setStatus_def Let_def pool_send_eq DialContext_def DialContextWithKey_def
      nextStart_def dial_def dialKey_def conn_Close_def)

section \<open>Keys\<close>

lemma released_owner:
  assumes "keys_inv p" and "i \<noteq> ''''"
  shows "pUsedKeys (releaseKey i p) = forget i (pUsedKeys p)"
proof
  fix k
  have "pUsedKeys p '''' = None" using assms(1) unfolding keys_inv_def by (metis not_Some_eq)
  then show "pUsedKeys (releaseKey i p) k = forget i (pUsedKeys p) k"
    using keys_inv_used [OF assms(1), of k i] by (auto simp: releaseKey_used [OF assms] forget_def)
qed

lemma directory_of_released:
  assumes "pool_inv p" and "i \<in> set (pInsts p)"
  shows "directory_of (releaseKey i p) = (directory_of p)\<lparr>dyOwner := forget i (pUsedKeys p)\<rparr>"
proof -
  have "pClosed (releaseKey i p) = pClosed p" by (simp add: releaseKey_def Let_def split: option.split)
  then show ?thesis
    using released_owner [OF pool_inv_keysD [OF assms(1)] member_neq_Nil [OF assms]]
      same_but_keysD [OF releaseKey_same [of p i]]
    by (simp add: directory_of_def)
qed

lemma release_simulates: "pool_inv p \<Longrightarrow> i \<in> set (pInsts p) \<Longrightarrow> simulates p (releaseKey i p)"
  using dy_step.give_up [of i "directory_of p"]
  by (auto simp: directory_of_released) (simp add: directory_of_def r_into_rtranclp)

lemma register_simulates:
  assumes inv: "pool_inv p" and i: "i \<in> set (pInsts p)" and k: "k \<noteq> ''''" "\<not> takenByOther p k i"
    and same: "directory_of q = directory_of (releaseKey i p)"
  shows "simulates p (registerKey i k q)"
proof -
  let ?d = "directory_of (releaseKey i p)"
  have owner: "dyOwner ?d = pUsedKeys (releaseKey i p)" "dyMembers ?d = set (pInsts p)"
    by (simp_all add: directory_of_def)
  have "pUsedKeys (releaseKey i p) k = None"
    by (rule releaseKey_frees [OF pool_inv_keysD [OF inv] member_neq_Nil [OF inv i] k(2)])
  moreover have "i \<notin> ran (pUsedKeys (releaseKey i p))"
    unfolding released_owner [OF pool_inv_keysD [OF inv] member_neq_Nil [OF inv i]] forget_ran by simp
  ultimately have "dy_step ?d (?d\<lparr>dyOwner := (dyOwner ?d)(k \<mapsto> i)\<rparr>)"
    using i k(1) by (intro dy_step.claim) (simp_all add: owner)
  moreover have "directory_of (registerKey i k q) = (directory_of q)\<lparr>dyOwner := (dyOwner (directory_of q))(k \<mapsto> i)\<rparr>"
    by (simp add: directory_of_def registerKey_def)
  ultimately have "dy_step ?d (directory_of (registerKey i k q))" by (simp add: same)
  with release_simulates [OF inv i] show ?thesis by (rule rtranclp.rtrancl_into_rtrancl)
qed

lemma handleReady_simulates:
  assumes "pool_inv p" and "i \<in> set (pInsts p)"
  shows "simulates p (handleReady i eg p)"
  using release_simulates [OF assms] register_simulates [OF assms]
  by (auto simp: handleReady_def Let_def)

lemma applyKey_simulates:
  assumes "pool_inv p" and "i \<in> set (pInsts p)"
  shows "simulates p (applyKey i key eg p)"
  using release_simulates [OF assms] register_simulates [OF assms, of key "releaseKey i p"]
  by (auto simp: applyKey_def)

section \<open>Members\<close>

lemma createInstance_simulates:
  assumes inv: "pool_inv p" and room: "int (length (pInsts p)) < sint (pMax p)"
    and new: "createInstance iter now p = (ok, q)"
  shows "simulates p q"
proof -
  note ids = pool_inv_ids [OF inv]
  obtain addr off ports where acq: "pa_acquire (pPorts p) = ((addr, off, ok), ports)"
    using new by (auto simp: createInstance_eq [OF ids] split: prod.splits if_splits)
  show ?thesis
  proof (cases ok)
    case True
    then have q: "q = publish iter (added now addr off ports p)"
      using new acq by (simp add: createInstance_eq [OF ids])
    have "int (card (dyMembers (directory_of p))) < dyMax (directory_of p)"
      using room distinct_card [OF ids_inv_distinct [OF ids]] by (simp add: directory_of_def)
    from dy_step.join [OF this] show ?thesis
      by (intro r_into_rtranclp) (simp add: q directory_of_def added_def publish_def)
  next
    case False
    then have "q = p\<lparr>pPorts := ports\<rparr>" using new acq by (simp add: createInstance_eq [OF ids])
    then show ?thesis by simp
  qed
qed

lemma alignLoop_simulates:
  assumes iter: "perm_iter iter"
  shows "pool_inv p \<Longrightarrow> mx = sint (pMax p) \<Longrightarrow> simulates p (alignLoop iter now mn mx p)"
proof (induction "pa_room (pPorts p)" arbitrary: p rule: less_induct)
  case less
  show ?case
  proof (cases rule: alignLoop_cases [of mn p iter now mx])
    case (3 q)
    then show ?thesis using createInstance_simulates [OF less.prems(1) _ 3(3)] less.prems(2) by simp
  next
    case (4 q)
    have "pMax q = pMax p"
      using 4(3) by (auto simp: createInstance_def Let_def split: prod.splits bool.splits)
    then have "simulates q (alignLoop iter now mn mx q)"
      using less.prems pool_inv_createInstance [OF less.prems(1) iter 4(3)] createInstance_room [OF 4(3)]
      by (intro less.hyps) simp_all
    moreover have "simulates p q"
      using createInstance_simulates [OF less.prems(1) _ 4(3)] less.prems(2) 4(2) by simp
    ultimately show ?thesis unfolding 4(4) by (rule rtranclp_trans [rotated])
  qed simp_all
qed

lemma align_simulates: "perm_iter iter \<Longrightarrow> pool_inv p \<Longrightarrow> simulates p (align iter now p)"
  by (simp add: align_def Let_def alignLoop_simulates)

lemma removeInstance_simulates:
  assumes "pool_inv p" and "i \<in> set (pInsts p)"
  shows "simulates p (removeInstance iter i p)"
proof -
  have used: "pUsedKeys (dropMember i p) = forget i (pUsedKeys p)"
    using released_owner [OF pool_inv_keysD [OF assms(1)] member_neq_Nil [OF assms]] by simp
  have rest: "pMin (dropMember i p) = pMin p" "pMax (dropMember i p) = pMax p" "pClosed (dropMember i p) = pClosed p"
    by (simp_all add: dropMember_def releaseKey_def Let_def split: option.split)
  have "directory_of (removeInstance iter i p) = directory_of (dropMember i p)"
    by (simp add: removeInstance_steps dropPort_def split: option.split)
  also have "\<dots> = (directory_of p)\<lparr>dyMembers := set (pInsts p) - {i}, dyOwner := forget i (pUsedKeys p)\<rparr>"
    using used rest by (simp add: directory_of_def)
  finally show ?thesis
    using dy_step.leave [of i "directory_of p"] assms(2) by (simp add: directory_of_def r_into_rtranclp)
qed

section \<open>Steps\<close>

lemma fold_simulates:
  assumes "\<And>i q. i \<in> A \<Longrightarrow> pool_inv q \<Longrightarrow> pInsts q = xs \<Longrightarrow>
      pool_inv (f i q) \<and> pInsts (f i q) = xs \<and> simulates q (f i q)"
  shows "set is \<subseteq> A \<Longrightarrow> pool_inv p \<Longrightarrow> pInsts p = xs \<Longrightarrow> simulates p (fold f is p)"
proof (induction "is" arbitrary: p)
  case (Cons i "is")
  have f: "pool_inv (f i p) \<and> pInsts (f i p) = xs \<and> simulates p (f i p)"
    using Cons.prems by (intro assms) simp_all
  then have "simulates (f i p) (fold f is (f i p))" using Cons.prems by (intro Cons.IH) simp_all
  with f show ?case by (auto intro: rtranclp_trans)
qed simp

lemma egressResult_simulates:
  assumes "i \<in> set (pInsts p)" and "pool_inv p"
  shows "simulates p (egressResult answer i p)"
proof -
  have "simulates p (applyEgress i eg err p)" for eg err
    using applyKey_simulates [OF assms(2,1)] applyKey_simulates [OF storeEgress_inv [OF assms]] assms(1)
    by (auto simp: applyEgress_def)
  then show ?thesis by (auto split: task.split)
qed

lemma checks_simulate:
  assumes inv: "pool_inv p" and iter: "perm_iter iter" "perm_iter arrive"
  shows "store_ext (pStore p) later \<Longrightarrow> simulates p (healthCheck iter arrive answer later p)"
    and "store_ext (pStore p) later \<Longrightarrow> simulates p (egressCheck iter arrive answer' later p)"
    and "simulates p (reconfirmProbing iter p)"
proof -
  have mem: "set (arrive (normalInsts iter p)) \<subseteq> set (pInsts p)"
    using normalInsts_members [OF iter(1)] by (simp add: perm_iter_set [OF iter(2)])
  have "directory_of (fold (healthResult answer) is q) = directory_of q" for "is" q
    by (induction "is" arbitrary: q) (auto split: task.split bool.split)
  then show "simulates p (healthCheck iter arrive answer later p)" by (simp add: healthCheck_def)
  have "directory_of (fold reconfirmOne is q) = directory_of q" for "is" q
    by (induction "is" arbitrary: q) auto
  then show "simulates p (reconfirmProbing iter p)" by (simp add: reconfirmProbing_def)
  assume later: "store_ext (pStore p) later"
  have "simulates (p\<lparr>pStore := later\<rparr>) (egressCheck iter arrive answer' later p)"
    unfolding egressCheck_def
    by (rule fold_simulates [where A = "set (pInsts p)" and xs = "pInsts p"])
       (use mem egressResult_inv egressResult_simulates pool_inv_store [OF inv later] in simp_all)
  then show "simulates p (egressCheck iter arrive answer' later p)" by simp
qed

lemma handleEvent_simulates:
  assumes "pool_inv p" and "perm_iter iter" and "pEvents p = ev # es"
  shows "simulates p (handleEvent iter now ev (p\<lparr>pEvents := es\<rparr>))"
proof -
  let ?p = "p\<lparr>pEvents := es\<rparr>" and ?i = "evInst ev"
  note pop = pool_inv_pop [OF assms(1,3)]
  have i: "?i \<in> set (pInsts ?p)" using pop(2) by simp
  have rel: "simulates ?p (align iter now (releaseKey ?i ?p))"
    using release_simulates [OF pop(1) i] align_simulates [OF assms(2) pool_inv_releaseKey [OF pop(1) i]]
    by (rule rtranclp_trans)
  have "simulates ?p (align iter now (removeInstance iter ?i ?p))" if "evK ev = evStopped"
  proof -
    have "pool_inv (removeInstance iter ?i ?p)"
      using pop(3) [OF that] by (intro pool_inv_removeInstance [OF pop(1) assms(2) i]) simp_all
    with removeInstance_simulates [OF pop(1) i] align_simulates [OF assms(2)] show ?thesis
      by (blast intro: rtranclp_trans)
  qed
  with rel handleReady_simulates [OF pop(1) i] have "simulates ?p (handleEvent iter now ev ?p)"
    by (simp add: handleEvent_def split: evKind.split)
  then show ?thesis by simp
qed

lemma limits_simulate:
  assumes "sint (pMin p) \<le> sint (pMax p)"
  shows "simulates p (snd (setMin n p))" and "simulates p (snd (setMax n p))"
proof -
  have "dy_step\<^sup>*\<^sup>* (directory_of p) ((directory_of p)\<lparr>dyMin := a, dyMax := b\<rparr>)"
    if "a \<le> b" "a = sint (pMin p) \<or> b = sint (pMax p)" for a b
    using dy_step.resize [OF that(1), of "directory_of p"] that(2)
    by (intro r_into_rtranclp) (simp add: directory_of_def)
  from this [of "sint (int32 n)" "sint (pMax p)"] this [of "sint (pMin p)" "sint (int32 n)"]
  show "simulates p (snd (setMin n p))" "simulates p (snd (setMax n p))"
    using assms by (simp_all add: setMin_def setMax_def wakeup_def directory_of_def)
qed

lemma pool_step_simulates:
  assumes "pool_step p q" and "pool_inv p" and "sint (pMin p) \<le> sint (pMax p)"
  shows "simulates p q"
  using assms
proof (induction rule: pool_step.induct)
  case (event iter p ev es now)
  then show ?case by (simp add: reconcile_tick_def handleEvent_simulates)
next
  case (health iter arrive p later now answer)
  let ?q = "healthCheck iter arrive answer later p"
  have inv: "pool_inv ?q" "pool_inv (reconfirmProbing iter ?q)"
    using health by (simp_all add: pool_inv_healthCheck pool_inv_reconfirmProbing)
  have "simulates p ?q" by (rule checks_simulate(1)) (use health in simp_all)
  also have "simulates ?q (reconfirmProbing iter ?q)" by (rule checks_simulate(3) [OF inv(1)]) (use health in simp_all)
  also have "simulates (reconfirmProbing iter ?q) (align iter now (reconfirmProbing iter ?q))"
    by (rule align_simulates [OF health(1) inv(2)])
  finally show ?case by (simp add: reconcile_tick_def)
next
  case (egress iter arrive p later now answer')
  let ?q = "egressCheck iter arrive answer' later p"
  have "simulates p ?q" by (rule checks_simulate(2)) (use egress in simp_all)
  also have "simulates ?q (align iter now ?q)"
    by (rule align_simulates [OF egress(1)]) (use egress in \<open>simp add: pool_inv_egressCheck\<close>)
  finally show ?case by (simp add: reconcile_tick_def)
next
  case (wake iter p now)
  then have "simulates (p\<lparr>pWake := False\<rparr>) (align iter now (p\<lparr>pWake := False\<rparr>))"
    by (intro align_simulates pool_inv_limits)
  then show ?case by (simp add: reconcile_tick_def)
next
  case (instances p s r)
  have "directory_of (p\<lparr>pStore := s, pReplays := r\<rparr>) = directory_of p" by (simp add: directory_of_def)
  then show ?case by simp
next
  case (close p)
  have "simulates p (p\<lparr>pCloseOnce := True, pClosed := True, pCancelled := True\<rparr>)"
    using dy_step.shut [of "directory_of p"] by (intro r_into_rtranclp) (simp add: directory_of_def)
  then show ?case by (simp add: Close_def)
qed (simp_all add: limits_simulate)

text \<open>C2: The pool is a directory. Every state of a pool is a state the directory can reach from
  an empty one with the configured limits, and every further step of the pool, whatever its
  instances and callers do, is a sequence of steps of the directory: members join under new
  IDs below the upper limit, leave with their keys, and claim keys nobody owns. So every
  key has at most one owner, a member, and every member at most one key.\<close>

theorem pool_refines_directory:
  assumes "pool_reach raw p"
  shows "dy_step\<^sup>*\<^sup>* (new_directory (oMin raw) (oMax raw)) (directory_of p) \<and>
    (\<forall>q. pool_step p q \<longrightarrow> dy_step\<^sup>*\<^sup>* (directory_of p) (directory_of q)) \<and> dy_safe (directory_of p)"
proof -
  note sim = pool_step_simulates [OF _ pool_reach_inv limits_ordered]
  have run: "dy_step\<^sup>*\<^sup>* (new_directory (oMin raw) (oMax raw)) (directory_of p)"
    using assms
  proof (induction rule: pool_reach.induct)
    case (init dirOk p)
    have "directory_of p = new_directory (oMin raw) (oMax raw)"
      using newPool_fields [OF init] newPool_limits(1,2) [OF init] by (simp add: directory_of_def new_directory_def)
    then show ?case by simp
  next
    case (step p q)
    from step(3) sim [OF step(2,1,1)] show ?case by (rule rtranclp_trans)
  qed
  obtain p0 dirOk where "newPool raw dirOk = Inr p0"
    using assms by (induction rule: pool_reach.induct) blast+
  then have "oMin raw \<le> oMax raw" by (rule newPool_limits(4))
  then have "dy_safe (new_directory (oMin raw) (oMax raw))" by (simp add: dy_safe_def new_directory_def)
  with run have "dy_safe (directory_of p)"
    by (induction rule: rtranclp_induct) (auto intro: dy_step_safe)
  with run sim [OF _ assms assms] show ?thesis by blast
qed

lemma pool_refines_directory_witness:
  "dy_safe (directory_of demo3) \<and> dyMembers (directory_of demo2) = {seqID 0, seqID 1} \<and>
   dyOwner (directory_of demo2) (DedupeByBoth (demoEgress 7)) = Some (seqID 0) \<and>
   dy_step\<^sup>*\<^sup>* (new_directory 2 3) (directory_of demo2)"
proof -
  have "oMin demoOptions = 2" "oMax demoOptions = 3" by (simp_all add: demoOptions_def)
  then show ?thesis
    using pool_refines_directory [OF reach_demo2] pool_refines_directory [OF reach_demo3] demo2_fields
    by (simp add: directory_of_def)
qed

end
