(* ===== verification/Members.thy ===== *)
theory Members
  imports InstanceProps AlignProps
begin

text \<open>
  What the tables of a reachable pool consist of: every instance that was ever created has a
  configuration, made from the completed and validated options of the pool; and what its
  goroutine does with the endpoints it was given.
\<close>

section \<open>Configurations\<close>

text \<open>The configuration of the \<open>n\<close>-th instance at a proxy address.\<close>

definition config_of :: "Options \<Rightarrow> nat \<Rightarrow> string \<Rightarrow> instConfig" where
  "config_of o1 n addr =
     \<lparr>icID = seqID n, icProxyAddr = addr, icEndpoints = oEndpoints o1, icEndpointIdx = n,
      icCredSource = oCredentialSource o1, icBackoffStart = oReplayBackoffStart o1,
      icBackoffMax = oReplayBackoffMax o1, icDrainTimeout = oDrainTimeout o1\<rparr>"

definition configs_ok :: "pool \<Rightarrow> bool" where
  "configs_ok p \<longleftrightarrow> dom (pConfigs p) = seqID ` {..<pNextSeq p} \<and>
     (\<forall>n < pNextSeq p. pConfigs p (seqID n) =
        Some (config_of (pOpts p) n (inProxyAddr (handleOf p (seqID n)))))"

lemma configs_created:
  assumes "configs_ok p" and "createInstance iter now p = (ok, q)"
  shows "configs_ok q"
proof (cases ok)
  case False
  with assms(2) obtain ports where "q = p\<lparr>pPorts := ports\<rparr>"
    by (auto simp: createInstance_def Let_def split: prod.splits bool.splits)
  with assms(1) show ?thesis by (simp add: configs_ok_def)
next
  case True
  then obtain cfg t where q: "pNextSeq q = Suc (pNextSeq p)" "pOpts q = pOpts p"
      "pConfigs q = (pConfigs p)(seqID (pNextSeq p) \<mapsto> cfg)"
      "pStore q = (pStore p)(seqID (pNextSeq p) \<mapsto> newHandle cfg t)"
      "cfg = config_of (pOpts p) (pNextSeq p) (icProxyAddr cfg)"
    using assms(2)
    by (auto simp: createInstance_def config_of_def publish_def Let_def split: prod.splits bool.splits)
  then have "pConfigs q (seqID n) = Some (config_of (pOpts q) n (inProxyAddr (handleOf q (seqID n))))"
    if "n < pNextSeq q" for n
    using assms(1) that by (cases "n = pNextSeq p") (simp_all add: configs_ok_def)
  moreover have "dom (pConfigs q) = seqID ` {..<pNextSeq q}"
    using assms(1) q by (simp add: configs_ok_def lessThan_Suc)
  ultimately show ?thesis by (simp add: configs_ok_def)
qed

interpretation configs: pool_invariant configs_ok
proof
  show "configs_ok (p\<lparr>pStore := s\<rparr>)" if "configs_ok p" "\<And>i. face (the (s i)) = face (handleOf p i)" for p s
    using that by (simp add: configs_ok_def face_def)
  show "configs_ok q" if "configs_ok p" "createInstance iter now p = (ok, q)" for iter now ok p q
    by (rule configs_created [OF that])
qed (simp_all add: configs_ok_def setMin_def setMax_def wakeup_def)

lemma pool_reach_configs:
  assumes "pool_reach raw p"
  shows "configs_ok p"
proof (rule configs.reach_kept [OF assms])
  fix dirOk q
  assume new: "newPool raw dirOk = Inr q"
  have "pConfigs q = Map.empty" "pNextSeq q = 0" using newPool_fields [OF new] by blast+
  then show "configs_ok q" by (simp add: configs_ok_def)
qed

section \<open>Endpoints\<close>

lemma endpoint_at_mem: "endpoint_at eps n \<in> set eps \<or> eps = [] \<and> endpoint_at eps n = ''''"
  by (cases "eps = []") (simp_all add: endpoint_at_def)

lemma endpoints_ok_mem:
  "endpoints_ok eps n as \<Longrightarrow> NewClient ep file \<in> set as \<Longrightarrow> \<exists>m. ep = endpoint_at eps m"
  by (induction eps n as rule: endpoints_ok.induct) auto

lemma run_endpoints:
  assumes "goroutine room (newInstance cfg t disk rm script) = Parked j" and "NewClient ep file \<in> set (trace j)"
  shows "ep \<in> set (icEndpoints cfg) \<or> icEndpoints cfg = [] \<and> ep = ''''"
proof -
  have "rotates (icEndpoints cfg) (icEndpointIdx cfg) (newInstance cfg t disk rm script)"
    by (simp add: rotates_def newInstance_def handle.extend_def newHandle_def drops_def)
  with endpoints.goroutine_kept [OF this, of room] assms(1)
  have "endpoints_ok (icEndpoints cfg) (icEndpointIdx cfg) (trace j)" by (simp add: rotates_def)
  from endpoints_ok_mem [OF this assms(2)] endpoint_at_mem show ?thesis by metis
qed

section \<open>Well-formed pools\<close>


lemma demo3_next: "pNextSeq demo3 = 2"
  using demo2_fields same_but_keysD [OF releaseKey_same] same_but_keysD [OF registerKey_same]
  by (simp add: demo3_def handleReady_def Let_def)


end
