(* ===== verification/Closing.thy ===== *)
theory Closing
  imports Shutdown Members
begin

text \<open>
  Closing a pool: what \<open>Close\<close> does to the pool and, through the context it cancels, to every
  instance it waits for.
\<close>

interpretation named: script_invariant "\<lambda>j. inID j = n" for n
  by unfold_locales (auto simp: act_def setStatus_def closeConns_def nextEndpoint_def removeState_def)

lemma run_named:
  assumes "goroutine room (newInstance cfg t disk rm s) = Ret () k"
  shows "inID k = icID cfg"
  using named.goroutine_kept [of "newInstance cfg t disk rm s" "icID cfg" room] assms
  by (auto simp: newInstance_def newHandle_def handle.extend_def recoverManage_handle)



end
