(* ===== verification/EvictionRef.thy ===== *)
theory EvictionRef
  imports AlignProps "HOL-Library.Product_Lexorder"
begin

text \<open>
  The victim of an eviction, by a stable sort: the single pass of \<open>EvictOldest\<close> over the
  candidates and the step of the coordinator that sends the stop agree with sorting what can
  be evicted by status and age and taking the first.
\<close>

section \<open>The head of a stable sort\<close>

lemma hd_sort_key:
  assumes "\<forall>c \<in> set pre. f v < f c" and "\<forall>c \<in> set suf. f v \<le> f c"
  shows "\<exists>rest. sort_key f (pre @ v # suf) = v # rest"
  using assms
proof (induction pre)
  case Nil
  then have "\<forall>c \<in> set (sort_key f suf). f v \<le> f c" by simp
  then show ?case by (cases "sort_key f suf") auto
next
  case (Cons c pre)
  then obtain rest where "sort_key f (pre @ v # suf) = v # rest" by auto
  moreover have "\<not> f c \<le> f v" using Cons.prems(1) by (simp add: not_le)
  ultimately show ?case by simp
qed

section \<open>The reference\<close>

text \<open>The documented order: disabled instances first, then draining, then normal ones; a probing
  instance is never evicted.\<close>

fun eviction_rank :: "Status \<Rightarrow> nat option" where
  "eviction_rank StatusDisabled = Some 0"
| "eviction_rank StatusDraining = Some 1"
| "eviction_rank StatusNormal = Some 2"
| "eviction_rank _ = None"

definition eviction_order :: "InstanceView list \<Rightarrow> InstanceView list" where
  "eviction_order cs =
     sort_key (\<lambda>c. (the (eviction_rank (ivStatus c)), ivCreatedAt c))
       (filter (\<lambda>c. eviction_rank (ivStatus c) \<noteq> None) cs)"

lemma evictable_rank: "evictable c \<longleftrightarrow> eviction_rank (ivStatus c) \<noteq> None"
  by (cases "ivStatus c") (simp_all add: evictable_def)

lemma evict_before_rank:
  "evictable a \<Longrightarrow> evictable b \<Longrightarrow> evict_before a b \<longleftrightarrow>
     (the (eviction_rank (ivStatus a)), ivCreatedAt a) < (the (eviction_rank (ivStatus b)), ivCreatedAt b)"
  by (cases "ivStatus a"; cases "ivStatus b") (simp_all add: evictable_def evict_before_def)

lemma EvictOldest_order:
  "EvictOldest cs = (case eviction_order cs of [] \<Rightarrow> ('''', False) | v # _ \<Rightarrow> (ivID v, True))"
proof (cases "snd (EvictOldest cs)")
  case False
  then have "\<forall>c \<in> set cs. \<not> evictable c" using EvictOldest_ok_iff by blast
  then have "filter (\<lambda>c. eviction_rank (ivStatus c) \<noteq> None) cs = []"
    by (simp add: filter_empty_conv evictable_rank)
  moreover have "EvictOldest cs = ('''', False)"
    using EvictOldest_None_iff [of cs] \<open>\<forall>c \<in> set cs. \<not> evictable c\<close> by blast
  ultimately show ?thesis unfolding eviction_order_def by simp
next
  case True
  then have "EvictOldest cs = (fst (EvictOldest cs), True)" by (metis prod.collapse)
  then obtain k where k: "k < length cs" "fst (EvictOldest cs) = ivID (cs ! k)" "evictable (cs ! k)"
    "\<forall>c \<in> set cs. evictable c \<longrightarrow> \<not> evict_before c (cs ! k)"
    "\<forall>j < k. evictable (cs ! j) \<longrightarrow> evict_before (cs ! k) (cs ! j)"
    by (rule EvictOldest_SomeE)
  let ?f = "\<lambda>c. (the (eviction_rank (ivStatus c)), ivCreatedAt c)"
  let ?F = "filter (\<lambda>c. eviction_rank (ivStatus c) \<noteq> None)"
  have "cs = take k cs @ cs ! k # drop (Suc k) cs" using k(1) by (rule id_take_nth_drop)
  then have "?F cs = ?F (take k cs) @ ?F (cs ! k # drop (Suc k) cs)" by (metis filter_append)
  then have split: "?F cs = ?F (take k cs) @ cs ! k # ?F (drop (Suc k) cs)"
    using k(3) by (simp add: evictable_rank)
  have "?f (cs ! k) < ?f c" if "c \<in> set (?F (take k cs))" for c
  proof -
    from that have "evictable c" "c \<in> set (take k cs)" by (simp_all add: evictable_rank)
    then obtain j where "j < k" "c = cs ! j" by (auto simp: in_set_conv_nth)
    with k(5) \<open>evictable c\<close> have "evict_before (cs ! k) c" by simp
    then show ?thesis using evict_before_rank [OF k(3) \<open>evictable c\<close>] by simp
  qed
  moreover have "?f (cs ! k) \<le> ?f c" if "c \<in> set (?F (drop (Suc k) cs))" for c
  proof -
    from that have "evictable c" "c \<in> set cs" by (auto simp: evictable_rank dest: in_set_dropD)
    with k(4) have "\<not> evict_before c (cs ! k)" by simp
    then show ?thesis using evict_before_rank [OF \<open>evictable c\<close> k(3)] by (simp only: not_less)
  qed
  ultimately obtain rest where "sort_key ?f (?F cs) = cs ! k # rest"
    unfolding split using hd_sort_key [of "?F (take k cs)" ?f "cs ! k" "?F (drop (Suc k) cs)"] by blast
  then have "eviction_order cs = cs ! k # rest" unfolding eviction_order_def .
  then show ?thesis using k(2) True by (cases "EvictOldest cs") simp
qed

section \<open>The pool\<close>

text \<open>C17: Eviction against its reference. Over any list of candidates \<open>EvictOldest\<close> names the
  first of those that are not probing, in the stable order by status (disabled, draining,
  normal) and then by creation time. The evictor of a reachable pool is the configured one,
  \<open>EvictNone\<close> by default. With \<open>EvictOldest\<close> an eviction sends one stop, to the first member in
  that order of whatever the runtime iterates, and does nothing when all members are probing;
  with \<open>EvictNone\<close> it never does anything.\<close>

theorem eviction_reference:
  assumes "pool_reach raw p" and "\<And>xs. mset (iter xs) = mset xs"
  shows "EvictOldest cs = (case eviction_order cs of [] \<Rightarrow> ('''', False) | v # _ \<Rightarrow> (ivID v, True)) \<and>
    (oEvictor (pOpts p) = (if oEvictor raw = None then Some EvictNone else oEvictor raw)) \<and>
    (oEvictor raw \<in> {None, Some EvictNone} \<longrightarrow> evictOnce iter p = p) \<and>
    (oEvictor raw = Some EvictOldest \<longrightarrow>
      evictOnce iter p =
        (case eviction_order (views iter p) of
           [] \<Rightarrow> p
         | v # _ \<Rightarrow> post_cmd (ivID v) (cmd cmdStop) p) \<and>
      (\<forall>v \<in> set (eviction_order (views iter p)). ivID v \<in> set (pInsts p) \<and> ivStatus v = statusOf p (ivID v)))"
proof -
  have iter: "perm_iter iter" using assms(2) by (simp add: perm_iter_def)
  note ids = pool_inv_ids [OF pool_reach_inv [OF assms(1)]]
  have "pOpts p = withDefaults raw" by (rule pool_reach_options(1) [OF assms(1)])
  then have opt: "oEvictor (pOpts p) = (if oEvictor raw = None then Some EvictNone else oEvictor raw)"
    by (auto simp: withDefaults_def if_nil_def split: option.split)
  have known: "ivID v \<in> set (pInsts p) \<and> ivStatus v = statusOf p (ivID v)"
    if "v \<in> set (views iter p)" for v
    using that ids ids_inv_dom [OF ids] by (auto simp: views_def perm_iter_set [OF iter] ids_inv_def)
  have sub: "set (eviction_order cs) \<subseteq> set cs" for cs by (auto simp: eviction_order_def)
  have "evictOnce iter p = (case eviction_order (views iter p) of [] \<Rightarrow> p | v # _ \<Rightarrow> post_cmd (ivID v) (cmd cmdStop) p)"
    if ev: "oEvictor raw = Some EvictOldest"
  proof (cases "eviction_order (views iter p)")
    case Nil
    then show ?thesis by (simp add: evictOnce_def opt ev EvictOldest_order)
  next
    case (Cons v rest)
    then have "ivID v \<in> set (pInsts p)" using known [of v] sub [of "views iter p"] by auto
    with Cons show ?thesis by (simp add: evictOnce_def opt ev EvictOldest_order)
  qed
  moreover have "evictOnce iter p = p" if "oEvictor raw \<in> {None, Some EvictNone}"
    using that opt by (auto simp: evictOnce_def EvictNone_def)
  ultimately show ?thesis using EvictOldest_order opt known sub by blast
qed

lemma eviction_reference_witness:
  "evictOnce rev demoServing = post_cmd (seqID 1) (cmd cmdStop) demoServing"
proof -
  have "oEvictor demoOptions = Some EvictOldest" by (simp add: demoOptions_def)
  moreover have "map ivID (eviction_order (views rev demoServing)) = [seqID 1, seqID 0]"
    by (simp add: eviction_order_def views_def demoServing_fields demoHandle_def)
  ultimately show ?thesis
    using eviction_reference [OF reach_demoServing, of rev "[]"] by (auto split: list.splits)
qed

end
