(* ===== verification/RunExit.thy ===== *)
theory RunExit
  imports InstanceProps
begin

text \<open>
  The channel on which an instance learns that the \<open>Run\<close> of a client has returned
  (\<open>runExit\<close>, capacity 2): the goroutines that \<open>watchRun\<close> starts send their generation and
  never wait, so a signal that finds the channel full is lost. The steps are those of the
  management goroutine that concern clients (a client is built and watched, closed, a signal is
  read) and the return of a watched \<open>Run\<close>, in any order. Here \<open>iWatched\<close> are the generations
  whose \<open>Run\<close> has not returned.
\<close>

section \<open>The steps\<close>

definition runExitCap :: nat where "runExitCap = 2"

text \<open>\<open>sgRead\<close> and \<open>sgDropped\<close> record what became of the signals that left.\<close>

record signals =
  sgInst :: inst
  sgChan :: "nat list"
  sgRead :: "nat set"
  sgDropped :: "nat set"

text \<open>The goroutine of \<open>watchRun\<close> after \<open>c.Run()\<close>: \<open>select { case in.runExit <- gen: default: }\<close>.\<close>

definition run_returned :: "nat \<Rightarrow> signals \<Rightarrow> signals" where
  "run_returned g s =
     (let s1 = s\<lparr>sgInst := (sgInst s)\<lparr>iWatched := iWatched (sgInst s) - {g}\<rparr>\<rparr>
      in if length (sgChan s) < runExitCap then s1\<lparr>sgChan := sgChan s @ [g]\<rparr>
         else s1\<lparr>sgDropped := insert g (sgDropped s)\<rparr>)"

inductive signal_step :: "signals \<Rightarrow> signals \<Rightarrow> bool" where
  built: "iClient (sgInst s) = None \<Longrightarrow>
    signal_step s (s\<lparr>sgInst := watchRun ((sgInst s)\<lparr>iClient := Some c\<rparr>)\<rparr>)"
| closed: "signal_step s (s\<lparr>sgInst := closeClient (sgInst s)\<rparr>)"
| returned: "g \<in> iWatched (sgInst s) \<Longrightarrow> signal_step s (run_returned g s)"
| "read": "sgChan s = g # gs \<Longrightarrow> signal_step s (s\<lparr>sgChan := gs, sgRead := insert g (sgRead s)\<rparr>)"

definition no_signals :: "inst \<Rightarrow> signals" where
  "no_signals i = \<lparr>sgInst = i, sgChan = [], sgRead = {}, sgDropped = {}\<rparr>"

inductive signal_reach :: "signals \<Rightarrow> bool" where
  start: "signal_reach (no_signals (newInstance cfg now f rm script))"
| step: "signal_reach s \<Longrightarrow> signal_step s s' \<Longrightarrow> signal_reach s'"

section \<open>The invariant\<close>

text \<open>The generations whose \<open>Run\<close> has ended.\<close>

definition ended_runs :: "signals \<Rightarrow> nat set" where
  "ended_runs s = set (sgChan s) \<union> sgRead s \<union> sgDropped s"

definition signals_inv :: "signals \<Rightarrow> bool" where
  "signals_inv s \<longleftrightarrow>
     length (sgChan s) \<le> runExitCap \<and> distinct (sgChan s) \<and>
     set (sgChan s) \<inter> sgRead s = {} \<and> set (sgChan s) \<inter> sgDropped s = {} \<and> sgRead s \<inter> sgDropped s = {} \<and>
     iWatched (sgInst s) \<inter> ended_runs s = {} \<and>
     (\<forall>g \<in> iWatched (sgInst s) \<union> ended_runs s. g \<le> iGen (sgInst s)) \<and>
     (iClient (sgInst s) \<noteq> None \<longleftrightarrow> iGen (sgInst s) \<in> iWatched (sgInst s) \<union> ended_runs s)"

lemma closeClient_signals [simp]:
  "iClient (closeClient i) = None" "iGen (closeClient i) = iGen i + 1" "iWatched (closeClient i) = iWatched i"
  by (simp_all add: closeClient_def Let_def split: option.split)

lemma watchRun_signals [simp]:
  "iClient (watchRun i) = iClient i" "iGen (watchRun i) = iGen i + 1"
  "iWatched (watchRun i) = insert (iGen i + 1) (iWatched i)"
  by (simp_all add: watchRun_def)

lemma signals_inv_step:
  assumes "signal_step s s'" and "signals_inv s"
  shows "signals_inv s'"
  using assms
proof (cases rule: signal_step.cases)
  case (built c)
  have "Suc (iGen (sgInst s)) \<notin> ended_runs s" "Suc (iGen (sgInst s)) \<notin> iWatched (sgInst s)"
    using assms(2) unfolding signals_inv_def by (metis Un_iff not_less_eq_eq le_refl)+
  with assms(2) built show ?thesis
    by (auto simp: signals_inv_def ended_runs_def intro: le_SucI)
next
  case closed
  have "Suc (iGen (sgInst s)) \<notin> ended_runs s" "Suc (iGen (sgInst s)) \<notin> iWatched (sgInst s)"
    using assms(2) unfolding signals_inv_def by (metis Un_iff not_less_eq_eq le_refl)+
  with assms(2) closed show ?thesis
    by (auto simp: signals_inv_def ended_runs_def intro: le_SucI)
next
  case (returned g)
  with assms(2) show ?thesis
    by (auto simp: signals_inv_def ended_runs_def run_returned_def Let_def)
next
  case (read g gs)
  with assms(2) show ?thesis by (auto simp: signals_inv_def ended_runs_def)
qed

lemma signals_inv: "signal_reach s \<Longrightarrow> signals_inv s"
proof (induction rule: signal_reach.induct)
  case (start cfg now f rm script)
  show ?case
    by (simp add: signals_inv_def ended_runs_def no_signals_def newInstance_def handle.extend_def)
qed (rule signals_inv_step)

section \<open>What becomes of a loss\<close>

text \<open>C29: The loss of the current client. In every reachable state in which an instance has a
  client, exactly one of four things holds of it: it still runs, the signal of its end waits in
  the channel, the signal has been read, or it has been dropped. It is dropped only when the
  channel is full of signals of two clients replaced before, which nobody has read; so it gets
  through whenever at most one such signal waits.\<close>

theorem loss_signal:
  assumes "signal_reach s" and "iClient (sgInst s) \<noteq> None"
  defines "g \<equiv> iGen (sgInst s)"
  shows "(g \<in> iWatched (sgInst s) \<or> g \<in> set (sgChan s) \<or> g \<in> sgRead s \<or> g \<in> sgDropped s) \<and>
    \<not> (g \<in> iWatched (sgInst s) \<and> (g \<in> set (sgChan s) \<or> g \<in> sgRead s \<or> g \<in> sgDropped s)) \<and>
    \<not> (g \<in> set (sgChan s) \<and> (g \<in> sgRead s \<or> g \<in> sgDropped s)) \<and> \<not> (g \<in> sgRead s \<and> g \<in> sgDropped s) \<and>
    (g \<in> iWatched (sgInst s) \<longrightarrow>
      (if length (sgChan s) < 2 then sgChan (run_returned g s) = sgChan s @ [g]
       else (\<exists>h k. sgChan s = [h, k] \<and> h \<noteq> k \<and> h < g \<and> k < g) \<and> g \<in> sgDropped (run_returned g s)))"
proof -
  note inv = signals_inv [OF assms(1)]
  have fate: "(g \<in> iWatched (sgInst s) \<or> g \<in> set (sgChan s) \<or> g \<in> sgRead s \<or> g \<in> sgDropped s) \<and>
    \<not> (g \<in> iWatched (sgInst s) \<and> (g \<in> set (sgChan s) \<or> g \<in> sgRead s \<or> g \<in> sgDropped s)) \<and>
    \<not> (g \<in> set (sgChan s) \<and> (g \<in> sgRead s \<or> g \<in> sgDropped s)) \<and> \<not> (g \<in> sgRead s \<and> g \<in> sgDropped s)"
    using inv assms(2) unfolding g_def signals_inv_def ended_runs_def by blast
  have "if length (sgChan s) < 2 then sgChan (run_returned g s) = sgChan s @ [g]
       else (\<exists>h k. sgChan s = [h, k] \<and> h \<noteq> k \<and> h < g \<and> k < g) \<and> g \<in> sgDropped (run_returned g s)"
    if w: "g \<in> iWatched (sgInst s)"
  proof (cases "length (sgChan s) < 2")
    case False
    with inv have len: "length (sgChan s) = 2" by (simp add: signals_inv_def runExitCap_def)
    then obtain h k where c: "sgChan s = [h, k]" by (auto simp: length_Suc_conv numeral_2_eq_2)
    have "h \<noteq> k" "h \<le> g" "k \<le> g" using inv c by (auto simp: signals_inv_def ended_runs_def g_def)
    moreover have "g \<notin> {h, k}" using fate w c by auto
    ultimately show ?thesis using c by (auto simp: run_returned_def runExitCap_def Let_def)
  qed (simp add: run_returned_def runExitCap_def Let_def)
  with fate show ?thesis by blast
qed

text \<open>And it can be dropped: three clients are built one after the other, the commands in between
  being taken before the signals of the first two; then the third one ends unnoticed.\<close>

lemma loss_signal_witness:
  "\<exists>s. signal_reach s \<and> iClient (sgInst s) \<noteq> None \<and> iGen (sgInst s) \<in> iWatched (sgInst s) \<and>
     signal_reach (run_returned (iGen (sgInst s)) s) \<and>
     iGen (sgInst s) \<in> sgDropped (run_returned (iGen (sgInst s)) s)"
proof -
  let ?up = "\<lambda>s. s\<lparr>sgInst := watchRun ((sgInst s)\<lparr>iClient := Some 0\<rparr>)\<rparr>"
  let ?down = "\<lambda>s. s\<lparr>sgInst := closeClient (sgInst s)\<rparr>"
  let ?next = "\<lambda>s. ?up (run_returned (iGen (sgInst s)) (?down s))"
  have up: "signal_reach (?up s)" if "signal_reach s" "iClient (sgInst s) = None" for s
    using signal_reach.step [OF that(1) signal_step.built [OF that(2)]] by blast
  have ret: "signal_reach (run_returned g s)" if "signal_reach s" "g \<in> iWatched (sgInst s)" for g s
    using signal_reach.step [OF that(1) signal_step.returned [OF that(2)]] .
  have sel [simp]: "iClient (sgInst (run_returned g s)) = iClient (sgInst s)"
    "iGen (sgInst (run_returned g s)) = iGen (sgInst s)"
    "iWatched (sgInst (run_returned g s)) = iWatched (sgInst s) - {g}"
    "sgChan (run_returned g s) = (if length (sgChan s) < 2 then sgChan s @ [g] else sgChan s)"
    "sgDropped (run_returned g s) = (if length (sgChan s) < 2 then sgDropped s else insert g (sgDropped s))" for g s
    by (simp_all add: run_returned_def runExitCap_def Let_def)
  have nxt: "signal_reach (?next s)" if "signal_reach s" "iGen (sgInst s) \<in> iWatched (sgInst s)" for s
    by (intro up ret signal_reach.step [OF that(1) signal_step.closed]) (use that(2) in simp_all)
  obtain s0 where s0: "signal_reach s0" "iClient (sgInst s0) = None" "iGen (sgInst s0) = 0"
    "iWatched (sgInst s0) = {}" "sgChan s0 = []" "sgDropped s0 = {}"
    using signal_reach.start [of undefined 0 None True "[]"]
    by (auto simp: no_signals_def newInstance_def handle.extend_def)
  let ?s = "?next (?next (?up s0))"
  have s: "signal_reach ?s" by (intro nxt up s0(1,2)) (simp_all add: s0)
  have w: "iGen (sgInst ?s) \<in> iWatched (sgInst ?s)" and c: "iClient (sgInst ?s) \<noteq> None"
    and l: "\<not> length (sgChan ?s) < 2"
    by (simp_all add: s0)
  have "iGen (sgInst ?s) \<in> sgDropped (run_returned (iGen (sgInst ?s)) ?s)"
    using loss_signal [OF s c] w l by meson
  with s c w ret [OF s w] show ?thesis by blast
qed

text \<open>The goroutine can be so slow to read: its \<open>select\<close> may take two replay commands in a row, and
  each of them builds a new client. In this run three clients have been built, the third one is
  in use, and no signal of the first two has been read.\<close>

abbreviation replayed :: "Egress \<Rightarrow> input list" where
  "replayed eg \<equiv> [InCmd (cmd cmdReplay), InTimer, InSem, InClient (Started None), InSent,
     InProbe (ProbeReturns eg), InSent]"

lemma three_clients_unread:
  "\<exists>j. goroutine True (newInstance demoConfig 0 None True
       ([InSem, InClient (Started None), InProbe (ProbeReturns eg), InSent] @ replayed eg @ replayed eg)) = Parked j \<and>
     iClient j = Some 2 \<and> {ClientUp 0, ClientUp 1, ClientUp 2} \<subseteq> set (trace j) \<and>
     iGen j \<in> iWatched j \<and> card (iWatched j) = 3"
  by (simp add: run_simps demoConfig_def countReplay_def zeroEgress_def)

end
