(* ===== verification/Relay.thy ===== *)
theory Relay
  imports Prelude "HOL-Library.Sublist"
begin

text \<open>
  The relay between two connections (\<^verbatim>\<open>cmd/proxy\<close> and \<^verbatim>\<open>internal/testutil\<close>): one goroutine
  per direction copies until its source ends or an operation fails and then sends on a channel
  of capacity 2; the relay waits for the first of them and both connections are closed, by the
  relay itself or by the deferred calls of its caller. Bytes are of any type; how they are cut
  into reads and when an operation fails is open.
\<close>

section \<open>The steps\<close>

datatype copy_state = Copying | AtEnd | Broken

text \<open>One direction: what its source will still send, what its target has received.\<close>

record 'b direction =
  drLeft :: "'b list"
  drOut :: "'b list"
  drState :: copy_state

datatype relay_phase = AwaitDone | RelayReturned | BothClosed

record 'b relaying =
  rlThere :: "'b direction"
  rlBack :: "'b direction"
  rlDone :: nat
  rlPhase :: relay_phase

definition doneCap :: nat where "doneCap = 2"

definition relay :: "'b list \<Rightarrow> 'b list \<Rightarrow> 'b relaying" where
  "relay xs ys =
     \<lparr>rlThere = \<lparr>drLeft = xs, drOut = [], drState = Copying\<rparr>,
      rlBack = \<lparr>drLeft = ys, drOut = [], drState = Copying\<rparr>, rlDone = 0, rlPhase = AwaitDone\<rparr>"

text \<open>\<open>io.Copy\<close> moves a chunk.\<close>

inductive copy_step :: "'b direction \<Rightarrow> 'b direction \<Rightarrow> bool" where
  chunk: "drState d = Copying \<Longrightarrow> drLeft d = xs @ ys \<Longrightarrow> xs \<noteq> [] \<Longrightarrow>
    copy_step d (d\<lparr>drLeft := ys, drOut := drOut d @ xs\<rparr>)"

text \<open>It returns at the end of its source, or when reading or writing fails, as it does at the
  latest when the connections have been closed.\<close>

inductive copy_end :: "'b direction \<Rightarrow> 'b direction \<Rightarrow> bool" where
  eof: "drState d = Copying \<Longrightarrow> drLeft d = [] \<Longrightarrow> copy_end d (d\<lparr>drState := AtEnd\<rparr>)"
| failure: "drState d = Copying \<Longrightarrow> copy_end d (d\<lparr>drState := Broken\<rparr>)"

inductive relay_step :: "'b relaying \<Rightarrow> 'b relaying \<Rightarrow> bool" where
  there: "rlPhase r \<noteq> BothClosed \<Longrightarrow> copy_step (rlThere r) d \<Longrightarrow> relay_step r (r\<lparr>rlThere := d\<rparr>)"
| reply: "rlPhase r \<noteq> BothClosed \<Longrightarrow> copy_step (rlBack r) d \<Longrightarrow> relay_step r (r\<lparr>rlBack := d\<rparr>)"
| there_ends: "rlDone r < doneCap \<Longrightarrow> copy_end (rlThere r) d \<Longrightarrow>
    relay_step r (r\<lparr>rlThere := d, rlDone := rlDone r + 1\<rparr>)"
| reply_ends: "rlDone r < doneCap \<Longrightarrow> copy_end (rlBack r) d \<Longrightarrow>
    relay_step r (r\<lparr>rlBack := d, rlDone := rlDone r + 1\<rparr>)"
| returns: "rlPhase r = AwaitDone \<Longrightarrow> 0 < rlDone r \<Longrightarrow>
    relay_step r (r\<lparr>rlDone := rlDone r - 1, rlPhase := RelayReturned\<rparr>)"
| closes: "rlPhase r = RelayReturned \<Longrightarrow> relay_step r (r\<lparr>rlPhase := BothClosed\<rparr>)"

section \<open>The invariant\<close>

definition direction_inv :: "'b list \<Rightarrow> 'b direction \<Rightarrow> bool" where
  "direction_inv xs d \<longleftrightarrow> drOut d @ drLeft d = xs \<and> (drState d = AtEnd \<longrightarrow> drLeft d = [])"

definition stopped :: "'b direction \<Rightarrow> nat" where
  "stopped d = (if drState d = Copying then 0 else 1)"

definition relay_inv :: "'b list \<Rightarrow> 'b list \<Rightarrow> 'b relaying \<Rightarrow> bool" where
  "relay_inv xs ys r \<longleftrightarrow> direction_inv xs (rlThere r) \<and> direction_inv ys (rlBack r) \<and>
     rlDone r + (if rlPhase r = AwaitDone then 0 else 1) = stopped (rlThere r) + stopped (rlBack r)"

lemma copy_step_inv: "copy_step d e \<Longrightarrow> direction_inv xs d \<Longrightarrow> direction_inv xs e \<and> stopped e = stopped d"
  by (induction rule: copy_step.induct) (auto simp: direction_inv_def stopped_def)

lemma copy_end_inv: "copy_end d e \<Longrightarrow> direction_inv xs d \<Longrightarrow> direction_inv xs e \<and> stopped e = Suc (stopped d)"
  by (induction rule: copy_end.induct) (auto simp: direction_inv_def stopped_def)

lemma relay_step_inv: "relay_step r s \<Longrightarrow> relay_inv xs ys r \<Longrightarrow> relay_inv xs ys s"
  by (induction rule: relay_step.induct)
     (auto simp: relay_inv_def dest: copy_step_inv copy_end_inv split: if_splits)

lemma relay_inv:
  assumes "relay_step\<^sup>*\<^sup>* (relay xs ys) r"
  shows "relay_inv xs ys r"
  using assms
proof (induction rule: rtranclp_induct)
  case base
  show ?case by (simp add: relay_inv_def direction_inv_def stopped_def relay_def)
qed (rule relay_step_inv)

section \<open>What a relay does\<close>

text \<open>What has arrived is a beginning of what was sent, and all of it in a direction that ended
  without an error. A goroutine that is done never waits for the channel. The relay returns only
  when one direction has ended.\<close>

lemma relay_delivers:
  assumes "relay_step\<^sup>*\<^sup>* (relay xs ys) r"
  shows "prefix (drOut (rlThere r)) xs \<and> prefix (drOut (rlBack r)) ys \<and>
    (drState (rlThere r) = AtEnd \<longrightarrow> drOut (rlThere r) = xs) \<and>
    (drState (rlBack r) = AtEnd \<longrightarrow> drOut (rlBack r) = ys) \<and>
    (drState (rlThere r) = Copying \<or> drState (rlBack r) = Copying \<longrightarrow> rlDone r < doneCap) \<and>
    (rlPhase r \<noteq> AwaitDone \<longrightarrow> drState (rlThere r) \<noteq> Copying \<or> drState (rlBack r) \<noteq> Copying)"
  using relay_inv [OF assms]
  by (auto simp: relay_inv_def direction_inv_def stopped_def doneCap_def split: if_splits)

text \<open>Every step consumes something.\<close>

fun phase_load :: "relay_phase \<Rightarrow> nat" where
  "phase_load AwaitDone = 2"
| "phase_load RelayReturned = 1"
| "phase_load BothClosed = 0"

definition relay_load :: "'b relaying \<Rightarrow> nat" where
  "relay_load r = length (drLeft (rlThere r)) + length (drLeft (rlBack r)) + phase_load (rlPhase r) +
     (2 - (stopped (rlThere r) + stopped (rlBack r)))"

lemma copy_step_load: "copy_step d e \<Longrightarrow> length (drLeft e) < length (drLeft d) \<and> stopped e = stopped d"
  by (induction rule: copy_step.induct) (auto simp: stopped_def)

lemma copy_end_load: "copy_end d e \<Longrightarrow> drLeft e = drLeft d \<and> stopped d = 0 \<and> stopped e = 1"
  by (induction rule: copy_end.induct) (auto simp: stopped_def)

lemma stopped_le: "stopped d \<le> 1"
  by (simp add: stopped_def)

lemma relay_step_load: "relay_step r s \<Longrightarrow> relay_load s < relay_load r"
proof (induction rule: relay_step.induct)
  case (there_ends r d)
  then show ?case using copy_end_load [of "rlThere r" d] stopped_le [of "rlBack r"] by (simp add: relay_load_def)
next
  case (reply_ends r d)
  then show ?case using copy_end_load [of "rlBack r" d] stopped_le [of "rlThere r"] by (simp add: relay_load_def)
qed (auto simp: relay_load_def dest: copy_step_load)



end
