(* ===== verification/EgressProps.thy ===== *)
theory EgressProps
  imports Egress
begin

text \<open>
  What an HTTP probe tells about an instance: the address a service prints is the address
  the prober returns, surrounding blanks or not, and the deduplication keys of two probes
  agree exactly when the egresses do.
\<close>

section \<open>Trimming\<close>

abbreviation code :: "char \<Rightarrow> nat" where
  "code c \<equiv> of_char c"

definition blank :: "char \<Rightarrow> bool" where
  "blank c \<longleftrightarrow> code c \<in> {9, 10, 11, 12, 13, 32}"

definition plain :: "char \<Rightarrow> bool" where
  "plain c \<longleftrightarrow> 32 < code c \<and> code c < 127"

text \<open>All the trimming needs to know of the list of space encodings, read forwards or backwards.\<close>

definition space_list :: "string list \<Rightarrow> bool" where
  "space_list sp \<longleftrightarrow>
     (\<forall>p \<in> set sp. p \<noteq> [] \<and> \<not> plain (hd p) \<and> (code (hd p) \<le> 32 \<longrightarrow> length p = 1)) \<and>
     (\<forall>n \<in> {9 :: nat, 10, 11, 12, 13, 32}. [char_of n] \<in> set sp)"

lemma space_list_spaces: "space_list spaces" "space_list (map rev spaces)"
  by (simp_all add: space_list_def spaces_def plain_def of_char_of upt_rec)

lemma hd_match: "p \<noteq> [] \<Longrightarrow> take (length p) (c # s) = p \<Longrightarrow> hd p = c"
  by (induction p) auto

lemma trimLeft_blank:
  assumes "space_list sp" and "blank c"
  shows "trimLeft sp (c # s) = trimLeft sp s"
proof -
  let ?P = "\<lambda>p. p \<noteq> [] \<and> take (length p) (c # s) = p"
  have "c = char_of (code c)" by simp
  with assms have "[c] \<in> set sp" by (metis blank_def space_list_def)
  moreover have "?P [c]" by simp
  ultimately obtain p where p: "find ?P sp = Some p" by (cases "find ?P sp") (auto simp: find_None_iff)
  then have "p \<in> set sp" "?P p" by (auto simp: find_Some_iff)
  then have "hd p = c" using hd_match [of p c s] by simp
  with \<open>p \<in> set sp\<close> assms have "length p = 1" by (auto simp: space_list_def blank_def)
  with p show ?thesis by (simp add: trimLeft.simps [of sp "c # s"])
qed

lemma trimLeft_blanks:
  "space_list sp \<Longrightarrow> list_all blank w \<Longrightarrow> trimLeft sp (w @ s) = trimLeft sp s"
  by (induction w) (simp_all add: trimLeft_blank)

lemma trimLeft_plain:
  assumes "space_list sp" and "plain c"
  shows "trimLeft sp (c # s) = c # s"
proof -
  have "find (\<lambda>p. p \<noteq> [] \<and> take (length p) (c # s) = p) sp = None"
  proof (subst find_None_iff, intro notI, elim exE conjE)
    fix p
    assume p: "p \<in> set sp" "p \<noteq> []" "take (length p) (c # s) = p"
    then have "hd p = c" using hd_match [of p c s] by simp
    with p(1) assms show False by (auto simp: space_list_def)
  qed
  then show ?thesis by (simp add: trimLeft.simps [of sp "c # s"])
qed

lemma TrimSpace_blanks:
  assumes "list_all blank w" and "list_all blank w'" and "list_all plain s" and "s \<noteq> []"
  shows "TrimSpace (w @ s @ w') = s"
proof -
  have left: "trimLeft spaces (w @ s @ w') = s @ w'"
    using assms by (cases s) (simp_all add: trimLeft_blanks trimLeft_plain space_list_spaces)
  obtain c t where "rev s = c # t" using assms(4) by (cases "rev s") auto
  moreover from this have "plain c" using assms(3) by (metis list.set_intros(1) list_all_iff set_rev)
  ultimately have "trimLeft (map rev spaces) (rev w' @ rev s) = rev s"
    using assms(2) by (simp add: trimLeft_blanks trimLeft_plain space_list_spaces)
  with left show ?thesis by (simp add: TrimSpace_def)
qed

section \<open>Printed addresses\<close>

fun zone_free :: "Addr \<Rightarrow> bool" where
  "zone_free (AddrV6 _ _ _ _ _ _ _ _ z) = (z = '''')"
| "zone_free _ = True"

lemma hex_plain: "is_hex c \<Longrightarrow> plain c"
  by (auto simp: is_hex_def hex_val_def plain_def Let_def split: if_splits)

lemma plain_seps [simp]: "plain (CHR ''.'')" "plain (CHR '':'')" "plain (CHR ''f'')"
  by (simp_all add: plain_def)

lemma itoa_nat_plain: "list_all plain (itoa_nat n)"
  using itoa_nat_digits [of n] by (auto simp: list_all_iff intro: hex_plain is_hex_digit)

lemma dotted_plain: "list_all plain (dotted a b c d)"
  by (simp add: dotted_def itoa_nat_plain)

lemma join_groups_plain: "list_all plain (join_groups gs)"
  by (induction gs rule: join_groups.induct) (auto simp: list_all_iff intro: hex_plain hex_group_hex)

lemma string6_plain: "list_all plain (string6 gs)"
  by (auto simp: string6_def join_groups_plain split: option.split)

lemma Addr_String_plain: "IsValid a \<Longrightarrow> zone_free a \<Longrightarrow> list_all plain (Addr_String a)"
  by (cases a) (auto simp: IsValid_def dotted_plain string6_plain zone_suffix_def)

section \<open>A probe\<close>

text \<open>A service that answers with an address, in a body that is not too long.\<close>

definition answers :: "probe_net \<Rightarrow> string \<Rightarrow> string \<Rightarrow> Addr \<Rightarrow> bool" where
  "answers net proxyAddr url a \<longleftrightarrow> IsValid a \<and> zone_free a \<and>
     (\<exists>w w'. list_all blank w \<and> list_all blank w' \<and> length (w @ Addr_String a @ w') \<le> maxProbeBodyBytes \<and>
        net proxyAddr url = (ContextDialer, Response 200 (w @ Addr_String a @ w') False))"

text \<open>A service that gives no usable answer: not reachable, not 200, cut off, or too long.\<close>

definition unanswered :: "probe_net \<Rightarrow> string \<Rightarrow> string \<Rightarrow> bool" where
  "unanswered net proxyAddr url \<longleftrightarrow>
     (case net proxyAddr url of
        (ContextDialer, NoRequest) \<Rightarrow> True
      | (ContextDialer, NoResponse) \<Rightarrow> True
      | (ContextDialer, Response st body failed) \<Rightarrow> st \<noteq> 200 \<or> failed \<or> maxProbeBodyBytes < length body
      | _ \<Rightarrow> True)"


lemma probeStack_answered:
  assumes "answers net pa url a"
  shows "case_prod probeStack (net pa url) (Is4 a) = Inr a"
    and "\<exists>b. case_prod probeStack (net pa url) (\<not> Is4 a) = Inl (WrongFamily b)"
proof -
  obtain w w' where w: "list_all blank w" "list_all blank w'" "length (w @ Addr_String a @ w') \<le> maxProbeBodyBytes"
      "net pa url = (ContextDialer, Response 200 (w @ Addr_String a @ w') False)"
    and a: "IsValid a" "zone_free a" using assms unfolding answers_def by blast
  have "TrimSpace (w @ Addr_String a @ w') = Addr_String a"
    using w a by (intro TrimSpace_blanks Addr_String_plain) simp_all
  moreover have "fetchBody (snd (net pa url)) = Inr (w @ Addr_String a @ w')"
    using w(3,4) by (simp add: fetchBody_def Let_def)
  ultimately show "case_prod probeStack (net pa url) (Is4 a) = Inr a"
    and "\<exists>b. case_prod probeStack (net pa url) (\<not> Is4 a) = Inl (WrongFamily b)"
    using w(4) ParseAddr_String [OF a(1)] by (simp_all add: probeStack_def)
qed

lemma probeStack_unanswered:
  "unanswered net pa url \<Longrightarrow> \<exists>e. case_prod probeStack (net pa url) v4 = Inl e"
  by (auto simp: unanswered_def probeStack_def fetchBody_def Let_def
      split: prod.splits socks_dialer.splits http_result.splits)

text \<open>What the service of one stack tells: its address, or nothing (no answer, or an address
  of the other family, as from a service that is reachable over both).\<close>

definition tells :: "probe_net \<Rightarrow> string \<Rightarrow> string \<Rightarrow> bool \<Rightarrow> Addr \<Rightarrow> bool" where
  "tells net proxyAddr url v4 a \<longleftrightarrow>
     (answers net proxyAddr url a \<and> Is4 a = v4) \<or>
     (a = AddrZero \<and> (unanswered net proxyAddr url \<or> (\<exists>b. answers net proxyAddr url b \<and> Is4 b \<noteq> v4)))"

lemma tells_probeStack:
  assumes "tells net pa url v4 a"
  shows "if a = AddrZero then \<exists>e. case_prod probeStack (net pa url) v4 = Inl e
     else case_prod probeStack (net pa url) v4 = Inr a"
  using assms unfolding tells_def
proof (elim disjE conjE exE)
  assume "answers net pa url a" "Is4 a = v4"
  then show ?thesis using probeStack_answered(1) [of net pa url a] by (auto simp: answers_def IsValid_def)
next
  assume "a = AddrZero" "unanswered net pa url"
  then show ?thesis using probeStack_unanswered by simp
next
  fix b
  assume "a = AddrZero" "answers net pa url b" "Is4 b \<noteq> v4"
  moreover from this have "v4 = (\<not> Is4 b)" by simp
  ultimately show ?thesis using probeStack_answered(2) [of net pa url b] by auto
qed

text \<open>C24: A probe identifies the egress. When the two services tell the addresses \<open>a4\<close> and \<open>a6\<close>,
  printed with any blanks around them, the prober returns exactly these, and fails exactly
  when neither tells one; and whatever other instance is probed over whatever network, its
  key under \<open>DedupeByBoth\<close> is the same exactly when its egress is, and never empty.\<close>

theorem probe_identifies:
  assumes "tells net pa (V4URL pr) True a4" and "tells net pa (V6URL pr) False a6"
  shows "if a4 = AddrZero \<and> a6 = AddrZero then \<exists>e4 e6. HTTPProber_Probe pr net pa = Inl (BothFailed e4 e6)
    else HTTPProber_Probe pr net pa = Inr \<lparr>eV4 = a4, eV6 = a6\<rparr> \<and>
      (\<forall>pr' net' pa' f. HTTPProber_Probe pr' net' pa' = Inr f \<longrightarrow> DedupeByBoth f \<noteq> '''' \<and>
         (DedupeByBoth f = DedupeByBoth \<lparr>eV4 = a4, eV6 = a6\<rparr> \<longleftrightarrow> f = \<lparr>eV4 = a4, eV6 = a6\<rparr>))"
proof -
  have key: "DedupeByBoth e \<noteq> '''' \<and> effective e = (eV4 e, eV6 e)"
    if "HTTPProber_Probe q n x = Inr e" for q n x e
    using Probe_wf [OF that] wf_effective
    by (auto simp: wf_egress_def anyValid_def IsValid_def)
  note t = tells_probeStack [OF assms(1)] tells_probeStack [OF assms(2)]
  show ?thesis
  proof (cases "a4 = AddrZero \<and> a6 = AddrZero")
    case True
    with t show ?thesis by (auto simp: HTTPProber_Probe_def Let_def)
  next
    case False
    with t have r: "HTTPProber_Probe pr net pa = Inr \<lparr>eV4 = a4, eV6 = a6\<rparr>"
      by (auto simp: HTTPProber_Probe_def Let_def split: if_splits)
    moreover have "DedupeByBoth f \<noteq> '''' \<and>
         (DedupeByBoth f = DedupeByBoth \<lparr>eV4 = a4, eV6 = a6\<rparr> \<longleftrightarrow> f = \<lparr>eV4 = a4, eV6 = a6\<rparr>)"
      if "HTTPProber_Probe pr' net' pa' = Inr f" for pr' net' pa' f
      using key [OF that] key [OF r] byBoth.same_key_iff [of f] by auto
    ultimately show ?thesis using False by auto
  qed
qed

lemma probe_identifies_witness:
  "HTTPProber_Probe \<lparr>V4URL = ''u4'', V6URL = ''u6''\<rparr>
     (\<lambda>pa url. if url = ''u4'' then (ContextDialer, Response 200 (''192.0.2.7'' @ [CHR 0x0A]) False)
        else (ContextDialer, NoResponse)) ''127.0.0.1:51367'' =
     Inr \<lparr>eV4 = AddrV4 192 0 2 7, eV6 = AddrZero\<rparr>"
proof -
  let ?net = "\<lambda>pa url. if url = ''u4'' then (ContextDialer, Response 200 (''192.0.2.7'' @ [CHR 0x0A]) False)
        else (ContextDialer, NoResponse)"
  let ?pr = "\<lparr>V4URL = ''u4'', V6URL = ''u6''\<rparr>"
  have "Addr_String (AddrV4 192 0 2 7) = ''192.0.2.7''"
    by (simp add: dotted_def itoa_nat.simps digit_char_def char_of_def bit_0)
  then have "tells ?net ''127.0.0.1:51367'' (V4URL ?pr) True (AddrV4 192 0 2 7)"
    unfolding tells_def answers_def
    by (intro disjI1 conjI exI [of _ "[]"] exI [of _ "[CHR 0x0A]"])
       (simp_all add: IsValid_def blank_def maxProbeBodyBytes_def del: Addr_String.simps)
  moreover have "tells ?net ''127.0.0.1:51367'' (V6URL ?pr) False AddrZero"
    by (simp add: tells_def unanswered_def)
  ultimately show ?thesis using probe_identifies by fastforce
qed

end
