(* ===== verification/CredentialProps.thy ===== *)
theory CredentialProps
  imports Credential
begin

text \<open>
  The state file determines the credential: a reader of JSON strings recovers every field
  that is valid UTF-8 from the text the encoder wrote, so no two credentials share a file.
\<close>

section \<open>Reading a JSON string\<close>

fun valid_utf8 :: "nat \<Rightarrow> string \<Rightarrow> bool" where
  "valid_utf8 n [] = True"
| "valid_utf8 0 (c # cs) = False"
| "valid_utf8 (Suc n) (c # cs) =
     (if byte c < 128 then valid_utf8 n cs
      else utf8_len (c # cs) \<noteq> 0 \<and> valid_utf8 n (drop (utf8_len (c # cs)) (c # cs)))"

text \<open>Encoded text as a whole: as many steps as bytes are enough.\<close>

definition utf8_text :: "string \<Rightarrow> bool" where
  "utf8_text s \<longleftrightarrow> valid_utf8 (length s) s"

definition unhex :: "char \<Rightarrow> nat" where
  "unhex c = (if byte c < 58 then byte c - 48 else byte c - 87)"

text \<open>The reader: the text up to the closing quote, and what follows it. A back-slash starts an
  escape; \<open>u00xx\<close> is an ASCII byte, \<open>u2028\<close> and \<open>u2029\<close> the line separators.\<close>

fun read_string :: "string \<Rightarrow> (string \<times> string) option" where
  "read_string [] = None"
| "read_string [c] = (if byte c = 34 then Some ([], []) else None)"
| "read_string (c # e # cs) =
     (if byte c = 34 then Some ([], e # cs)
      else if byte c \<noteq> 92 then map_option (apfst ((#) c)) (read_string (e # cs))
      else if byte e = 117 then
        (case cs of
           h1 # h2 # h3 # h4 # rest \<Rightarrow>
             (if byte h1 = 48
              then map_option (apfst ((#) (char_of (unhex h3 * 16 + unhex h4)))) (read_string rest)
              else if byte h1 = 50
              then map_option (apfst ((@) [char_of (0xE2 :: nat), char_of (0x80 :: nat),
                     char_of (byte h4 + 0x70)])) (read_string rest)
              else None)
         | _ \<Rightarrow> None)
      else
        (let x = (if byte e = 98 then char_of (8 :: nat) else if byte e = 102 then char_of (12 :: nat)
                  else if byte e = 110 then char_of (10 :: nat) else if byte e = 114 then char_of (13 :: nat)
                  else if byte e = 116 then char_of (9 :: nat) else e)
         in map_option (apfst ((#) x)) (read_string cs)))"

lemma byte_eq_iff: "byte c = byte d \<longleftrightarrow> c = d"
  by simp

lemma read_plain:
  "byte c \<noteq> 34 \<Longrightarrow> byte c \<noteq> 92 \<Longrightarrow> read_string (c # s) = map_option (apfst ((#) c)) (read_string s)"
  by (cases s) auto

lemma unhex_hex_digit: "d < 16 \<Longrightarrow> unhex (hex_digit d) = d"
  by (auto simp: unhex_def hex_digit_def)

lemma read_escape: "byte c < 128 \<Longrightarrow> 
   read_string (escape_ascii c @ s) = map_option (apfst ((#) c)) (read_string s)"
proof -
  assume c: "byte c < 128"
  have c': "char_of (byte c) = c" by simp
  consider "byte c \<in> {34, 92}" | "byte c \<in> {8, 9, 10, 12, 13}"
    | "byte c \<notin> {34, 92, 8, 9, 10, 12, 13}" "byte c < 32 \<or> byte c \<in> {60, 62, 38}"
    | "byte c \<notin> {34, 92}" "\<not> (byte c < 32 \<or> byte c \<in> {60, 62, 38})" by blast
  then show ?thesis
  proof cases
    case 1
    then show ?thesis by (auto simp: escape_ascii_def Let_def)
  next
    case 2
    have cc: "char_of n = c" if "byte c = n" for n :: nat using that c' by simp
    from 2 show ?thesis by (auto simp: escape_ascii_def Let_def cc)
  next
    case 3
    have "byte c div 16 < 16" "byte c mod 16 < 16" using c by simp_all
    then have "char_of (unhex (hex_digit (byte c div 16)) * 16 + unhex (hex_digit (byte c mod 16))) = c"
      using c' by (simp add: unhex_hex_digit)
    with 3 show ?thesis
      by (auto simp: escape_ascii_def unicode_escape_def)
  next
    case 4
    then show ?thesis by (auto simp: escape_ascii_def read_plain)
  qed
qed

lemma utf8_len_bytes:
  assumes "utf8_len s \<noteq> 0" and "c \<in> set (take (utf8_len s) s)"
  shows "128 \<le> byte c"
proof -
  obtain a b rest where s: "s = a # b # rest" using assms(1) by (cases s rule: utf8_len.cases) auto
  show ?thesis
  proof (cases rest)
    case Nil
    with assms s show ?thesis by (auto simp: Let_def cont_def split: if_splits)
  next
    case (Cons x xs)
    show ?thesis
    proof (cases xs)
      case Nil
      with assms s Cons show ?thesis by (auto simp: Let_def cont_def split: if_splits)
    next
      case (Cons y ys)
      with assms s \<open>rest = x # xs\<close> show ?thesis by (auto simp: Let_def cont_def split: if_splits)
    qed
  qed
qed

lemma utf8_len_le: "utf8_len s \<le> length s"
proof (cases s rule: utf8_len.cases)
  case (1 a b rest)
  then show ?thesis by (cases rest) (auto simp: Let_def)
qed auto

lemma apfst_apfst [simp]: "apfst f (apfst g a) = apfst (\<lambda>x. f (g x)) a"
  by (cases a) simp

lemma read_bytes:
  "(\<And>c. c \<in> set t \<Longrightarrow> 128 \<le> byte c) \<Longrightarrow>
   read_string (t @ s) = map_option (apfst ((@) t)) (read_string s)"
proof (induction t)
  case Nil
  then show ?case by (cases "read_string s") (auto simp: apfst_def)
next
  case (Cons c t)
  have "byte c \<noteq> 34" "byte c \<noteq> 92" using Cons.prems [of c] by auto
  moreover have "read_string (t @ s) = map_option (apfst ((@) t)) (read_string s)"
    using Cons.prems by (intro Cons.IH) simp
  ultimately show ?case by (cases "read_string s") (simp_all add: read_plain)
qed

lemma line_sep_text:
  assumes "is_line_sep (c # cs)"
  shows "c # cs = [char_of (0xE2 :: nat), char_of (0x80 :: nat), cs ! 1] @ drop 3 (c # cs) \<and>
     byte (cs ! 1) \<in> {0xA8, 0xA9} \<and> utf8_len (c # cs) = 3"
proof -
  obtain x y zs where cs: "cs = x # y # zs"
    using assms by (cases cs rule: utf8_len.cases) (auto simp: is_line_sep_def)
  have b: "byte c = 0xE2" "byte x = 0x80" "byte y \<in> {0xA8, 0xA9}"
    using assms by (auto simp: is_line_sep_def cs)
  have "char_of (byte c) = c" "char_of (byte x) = x" by simp_all
  with b show ?thesis by (auto simp: cs cont_def)
qed

lemma read_json_body:
  "valid_utf8 n s \<Longrightarrow> read_string (json_body s @ t) = map_option (apfst ((@) s)) (read_string t)"
proof (induction n s rule: valid_utf8.induct)
  case (1 n)
  show ?case by (cases "read_string t") (auto simp: apfst_def)
next
  case (2 c cs)
  then show ?case by simp
next
  case (3 n c cs)
  show ?case
  proof (cases "byte c < 128")
    case True
    with 3 show ?thesis
      by (cases "read_string t") (simp_all add: json_body.simps(2) read_escape)
  next
    case False
    with "3.prems" have len: "utf8_len (c # cs) \<noteq> 0"
      and v: "valid_utf8 n (drop (utf8_len (c # cs)) (c # cs))" by simp_all
    note ih = "3.IH"(2) [OF False v]
    show ?thesis
    proof (cases "is_line_sep (c # cs)")
      case True
      note sep = line_sep_text [OF True]
      have "json_body (c # cs) = (CHR 0x5C # ''u202'') @ [if byte (cs ! 1) = 0xA8 then CHR ''8'' else CHR ''9''] @
           json_body (drop 3 (c # cs))"
        using False len True by (simp add: json_body.simps(2))
      moreover have "char_of (byte (if byte (cs ! 1) = 0xA8 then CHR ''8'' else CHR ''9'') + 0x70) = cs ! 1"
      proof -
        have "char_of n = cs ! 1" if "byte (cs ! 1) = n" for n :: nat using that by auto
        from this [of 168] this [of 169] sep show ?thesis by auto
      qed
      ultimately have "read_string (json_body (c # cs) @ t) =
          map_option (apfst ((@) [char_of (0xE2 :: nat), char_of (0x80 :: nat), cs ! 1]))
            (read_string (json_body (drop 3 (c # cs)) @ t))"
        by simp
      also have "\<dots> = map_option (apfst ((@) ([char_of (0xE2 :: nat), char_of (0x80 :: nat), cs ! 1] @ drop 3 (c # cs)))) (read_string t)"
        using ih sep by (cases "read_string t") simp_all
      finally show ?thesis by (simp only: conjunct1 [OF sep, symmetric])
    next
      case no_sep: False
      let ?t = "take (utf8_len (c # cs)) (c # cs)" and ?d = "drop (utf8_len (c # cs)) (c # cs)"
      have "json_body (c # cs) = ?t @ json_body ?d"
        using False len no_sep by (simp add: json_body.simps(2))
      moreover have "read_string (?t @ u) = map_option (apfst ((@) ?t)) (read_string u)" for u
        using utf8_len_bytes [OF len] by (rule read_bytes)
      ultimately have "read_string (json_body (c # cs) @ t) =
          map_option (apfst ((@) ?t)) (read_string (json_body ?d @ t))"
        by (simp only: append_assoc)
      also have "\<dots> = map_option (apfst (\<lambda>u. ?t @ ?d @ u)) (read_string t)"
        unfolding ih by (cases "read_string t") simp_all
      also have "(\<lambda>u. ?t @ ?d @ u) = (@) (c # cs)"
        by (rule ext) (metis append_assoc append_take_drop_id)
      finally show ?thesis .
    qed
  qed
qed

text \<open>The reader undoes the encoder.\<close>

lemma read_json_string:
  "utf8_text s \<Longrightarrow> read_string (tl (json_string s @ rest)) = Some (s, rest)"
  using read_json_body [of "length s" s "[CHR 0x22] @ rest"]
  by (cases rest) (simp_all add: json_string_def utf8_text_def)

lemma json_string_inj:
  assumes "utf8_text s" and "utf8_text s'" and "json_string s @ r = json_string s' @ r'"
  shows "s = s' \<and> r = r'"
proof -
  have "Some (s, r) = Some (s', r')"
    unfolding read_json_string [OF assms(1), of r, symmetric] read_json_string [OF assms(2), of r', symmetric]
      assms(3) by (rule refl)
  then show ?thesis by simp
qed

section \<open>The file\<close>

lemma MarshalIndent_complete:
  assumes "\<not> incomplete c"
  shows "MarshalIndent (state_of_credential c) =
     ''{'' @ newline @ ''  '' @ json_string ''version'' @ '': '' @ json_string ''1'' @ '','' @ newline @
     ''  '' @ json_string ''device_id'' @ '': '' @ json_string (DeviceID c) @ '','' @ newline @
     ''  '' @ json_string ''token'' @ '': '' @ json_string (Token c) @ '','' @ newline @
     ''  '' @ json_string ''certificate'' @ '': '' @ ''{'' @ newline @
     ''    '' @ json_string ''private_key'' @ '': '' @ json_string (PrivateKey c) @ newline @ ''  '' @ ''}'' @
     newline @ '''' @ ''}''"
proof -
  have o: "opt_field ind key v = [json_field ind key (json_string v)]"
    if "v \<in> {DeviceID c, Token c, PrivateKey c}" for ind key v
    using assms that by (auto simp: opt_field_def incomplete_def)
  have object: "json_object ind (f # fs) = ''{'' @ newline @ commas (f # fs) @ newline @ ind @ ''}''" for ind f fs
    by (simp add: json_object_def)
  have fields: "[a] @ [b] @ [d] @ [e] = [a, b, d, e]" for a b d e :: string by simp
  have "MarshalIndent (state_of_credential c) = json_object ''''
      [json_field ''  '' ''version'' (json_string ''1''), json_field ''  '' ''device_id'' (json_string (DeviceID c)),
       json_field ''  '' ''token'' (json_string (Token c)),
       json_field ''  '' ''certificate'' (json_object ''  '' [json_field ''    '' ''private_key'' (json_string (PrivateKey c))])]"
    unfolding MarshalIndent_def state_of_credential_def amzStateFile.select_convs amzStateCredential.select_convs
      amzStateCurrentVersion_def by (simp only: o insert_iff simp_thms fields)
  then show ?thesis
    unfolding object commas.simps json_field_def append_assoc by (rule trans) (rule refl)
qed

text \<open>C25: Writing a credential. An incomplete one is refused before anything is touched; a
  failed write is reported; and a complete one is written in full, so that the file content
  determines the credential: two credentials of valid UTF-8 with the same file are the same.\<close>

theorem credential_file_determines:
  "case writeCredentialState fs c before of
     (None, after) \<Rightarrow> \<not> incomplete c \<and> mkdirOk fs \<and> after \<noteq> None \<and>
       (\<forall>fs' c' before'. list_all utf8_text [DeviceID c, Token c, PrivateKey c, DeviceID c', Token c', PrivateKey c'] \<and>
          writeCredentialState fs' c' before' = (None, after) \<longrightarrow> c' = c)
   | (Some ErrIncompleteCredential, after) \<Rightarrow> incomplete c \<and> after = before
   | (Some MkdirErr, after) \<Rightarrow> \<not> mkdirOk fs \<and> after = before
   | (Some WriteErr, after) \<Rightarrow> (\<exists>left. writeResult fs = WriteFails left \<and> after = left)"
proof -
  have same: "c' = c" if t: "list_all utf8_text [DeviceID c, Token c, PrivateKey c, DeviceID c', Token c', PrivateKey c']"
      and n: "\<not> incomplete c" "\<not> incomplete c'"
      and eq: "MarshalIndent (state_of_credential c') @ newline = MarshalIndent (state_of_credential c) @ newline" for c'
  proof -
    from t have u: "utf8_text (DeviceID c)" "utf8_text (Token c)" "utf8_text (PrivateKey c)"
      "utf8_text (DeviceID c')" "utf8_text (Token c')" "utf8_text (PrivateKey c')" by simp_all
    note eq1 = eq [unfolded MarshalIndent_complete [OF n(1)] MarshalIndent_complete [OF n(2)] append_assoc same_append_eq]
    note d = json_string_inj [OF u(4,1) eq1]
    note eq2 = conjunct2 [OF d, unfolded same_append_eq]
    note e = json_string_inj [OF u(5,2) eq2]
    note eq3 = conjunct2 [OF e, unfolded same_append_eq]
    note f = json_string_inj [OF u(6,3) eq3]
    show ?thesis using d e f by (cases c; cases c') simp
  qed
  show ?thesis
    using same by (auto simp: writeCredentialState_def Let_def split: write_result.splits if_splits)
qed

lemma credential_file_determines_witness:
  "fst (writeCredentialState \<lparr>mkdirOk = True, writeResult = WriteOk\<rparr>
       \<lparr>DeviceID = ''d'', Token = ''t'', PrivateKey = ''k''\<rparr> None) = None \<and>
   snd (writeCredentialState \<lparr>mkdirOk = True, writeResult = WriteOk\<rparr>
       \<lparr>DeviceID = ''d'', Token = ''t'', PrivateKey = ''k''\<rparr> None) \<noteq>
   snd (writeCredentialState \<lparr>mkdirOk = True, writeResult = WriteOk\<rparr>
       \<lparr>DeviceID = ''d'', Token = ''t'', PrivateKey = ''l''\<rparr> None)"
proof -
  let ?ok = "\<lparr>mkdirOk = True, writeResult = WriteOk\<rparr>"
  let ?c = "\<lparr>DeviceID = ''d'', Token = ''t'', PrivateKey = ''k''\<rparr>"
  let ?d = "\<lparr>DeviceID = ''d'', Token = ''t'', PrivateKey = ''l''\<rparr>"
  obtain s where c: "writeCredentialState ?ok ?c None = (None, s)"
    by (simp add: writeCredentialState_def incomplete_def Let_def)
  obtain s' where d: "writeCredentialState ?ok ?d None = (None, s')"
    by (simp add: writeCredentialState_def incomplete_def Let_def)
  have "list_all utf8_text [''d'', ''t'', ''k'', ''d'', ''t'', ''l'']"
    by (simp add: utf8_text_def)
  moreover have "\<forall>fs' c' before'. list_all utf8_text [''d'', ''t'', ''k'', DeviceID c', Token c', PrivateKey c'] \<and>
      writeCredentialState fs' c' before' = (None, s) \<longrightarrow> c' = ?c"
    using credential_file_determines [where fs = ?ok and c = ?c and before = None] unfolding c by simp blast
  ultimately have "?d = ?c" if "s' = s"
    using d unfolding that by (elim allE [of _ ?ok] allE [of _ ?d] allE [of _ None]) simp
  then have "s' \<noteq> s" by auto
  with c d show ?thesis by simp
qed

end
