(* ===== verification/TestServers.thy ===== *)
theory TestServers
  imports NetAddr "HOL-Library.Word"
begin

text \<open>
  The two proxy servers of the test kit (\<^verbatim>\<open>internal/testutil\<close>): the SOCKS5 handshake byte for
  byte, the HTTP CONNECT server over a parsed request, and the bookkeeping both share. A
  connection is what its peer will send, what was written to it and which writes fail.
\<close>

section \<open>Connections\<close>

type_synonym byte = "8 word"

record netconn =
  ncIn :: "byte list"
  ncOut :: "byte list list"
  ncWriteErr :: "nat \<Rightarrow> bool"

datatype handshake_error = UnexpectedEOF | WriteError | NotSocks5 | OnlyConnect | BadAtyp

type_synonym 'a io = "netconn \<Rightarrow> (handshake_error + 'a) \<times> netconn"

fun bindIO :: "'a io \<Rightarrow> ('a \<Rightarrow> 'b io) \<Rightarrow> 'b io" where
  "bindIO m f c = (case m c of (Inl e, c') \<Rightarrow> (Inl e, c') | (Inr a, c') \<Rightarrow> f a c')"

declare bindIO.simps [simp del]

definition returnIO :: "'a \<Rightarrow> 'a io" where
  "returnIO a c = (Inr a, c)"

definition failIO :: "handshake_error \<Rightarrow> 'a io" where
  "failIO e c = (Inl e, c)"

text \<open>\<open>readFull\<close>: all the bytes asked for, or an error with everything consumed.\<close>

definition readFull :: "nat \<Rightarrow> byte list io" where
  "readFull n c =
     (if length (ncIn c) < n then (Inl UnexpectedEOF, c\<lparr>ncIn := []\<rparr>)
      else (Inr (take n (ncIn c)), c\<lparr>ncIn := drop n (ncIn c)\<rparr>))"

definition writeConn :: "byte list \<Rightarrow> unit io" where
  "writeConn bs c =
     (if ncWriteErr c (length (ncOut c)) then (Inl WriteError, c)
      else (Inr (), c\<lparr>ncOut := ncOut c @ [bs]\<rparr>))"

section \<open>The SOCKS5 handshake\<close>

definition socks5Version :: byte where "socks5Version = 5"
definition socks5CmdConnect :: byte where "socks5CmdConnect = 1"
definition socks5AtypIPv4 :: byte where "socks5AtypIPv4 = 1"
definition socks5AtypDomain :: byte where "socks5AtypDomain = 3"
definition socks5AtypIPv6 :: byte where "socks5AtypIPv6 = 4"
definition socks5NoAuthMethod :: byte where "socks5NoAuthMethod = 0"

lemmas socks5_defs = socks5Version_def socks5CmdConnect_def socks5AtypIPv4_def
  socks5AtypDomain_def socks5AtypIPv6_def socks5NoAuthMethod_def

definition socks5ReplySuccess :: "byte list" where
  "socks5ReplySuccess = [socks5Version, 0, 0, socks5AtypIPv4, 0, 0, 0, 0, 0, 0]"

text \<open>\<open>net.IP.String\<close>: dotted for four bytes and for IPv4-mapped ones; other lengths print
  in hexadecimal.\<close>

definition hexString :: "byte list \<Rightarrow> string" where
  "hexString bs = concat (map (\<lambda>b. [hex_char (unat b div 16), hex_char (unat b mod 16)]) bs)"

fun groups_of :: "byte list \<Rightarrow> 16 word list" where
  "groups_of (a # b # bs) = word_of_bytes a b # groups_of bs"
| "groups_of _ = []"

definition To4 :: "byte list \<Rightarrow> byte list option" where
  "To4 ip =
     (if length ip = 4 then Some ip
      else if length ip = 16 \<and> take 12 ip = replicate 10 0 @ [255, 255] then Some (drop 12 ip)
      else None)"

definition IP_String :: "byte list \<Rightarrow> string" where
  "IP_String ip =
     (if ip = [] then ''<nil>''
      else if length ip \<noteq> 4 \<and> length ip \<noteq> 16 then CHR ''?'' # hexString ip
      else case To4 ip of
        Some q \<Rightarrow> dotted (q ! 0) (q ! 1) (q ! 2) (q ! 3)
      | None \<Rightarrow> string6 (groups_of ip))"

text \<open>\<open>string(b)\<close>: the same bytes.\<close>

definition string_of :: "byte list \<Rightarrow> string" where
  "string_of bs = map (\<lambda>b. char_of (unat b)) bs"

definition readHost :: "byte \<Rightarrow> string io" where
  "readHost atyp =
     (if atyp = socks5AtypIPv4 then bindIO (readFull 4) (\<lambda>b. returnIO (IP_String b))
      else if atyp = socks5AtypDomain then
        bindIO (readFull 1) (\<lambda>l. bindIO (readFull (unat (l ! 0))) (\<lambda>b. returnIO (string_of b)))
      else if atyp = socks5AtypIPv6 then bindIO (readFull 16) (\<lambda>b. returnIO (IP_String b))
      else failIO BadAtyp)"

definition Uint16 :: "byte list \<Rightarrow> nat" where
  "Uint16 b = 256 * unat (b ! 0) + unat (b ! 1)"

definition handshake :: "string io" where
  "handshake =
     bindIO (readFull 2) (\<lambda>header.
     if header ! 0 \<noteq> socks5Version then failIO NotSocks5
     else bindIO (readFull (unat (header ! 1))) (\<lambda>_.
     bindIO (writeConn [socks5Version, socks5NoAuthMethod]) (\<lambda>_.
     bindIO (readFull 4) (\<lambda>req.
     if req ! 0 \<noteq> socks5Version \<or> req ! 1 \<noteq> socks5CmdConnect then failIO OnlyConnect
     else bindIO (readHost (req ! 3)) (\<lambda>host.
     bindIO (readFull 2) (\<lambda>portBytes.
     returnIO (JoinHostPort host (Itoa (int (Uint16 portBytes))))))))))"

section \<open>The servers\<close>

text \<open>What both servers keep; \<open>svClosed\<close> are the connections the server has closed. The CONNECT
  server adds the injected status code and the data to send ahead.\<close>

record server =
  svDone :: bool
  svListening :: bool
  svConns :: "nat set"
  svClosed :: "nat set"
  svTargets :: "string list"

record connectServer = server +
  svStatus :: int
  svPreamble :: "byte list"

definition newServer :: server where
  "newServer = \<lparr>svDone = False, svListening = True, svConns = {}, svClosed = {}, svTargets = []\<rparr>"

definition newConnectServer :: connectServer where
  "newConnectServer = server.extend newServer \<lparr>svStatus = 200, svPreamble = []\<rparr>"

definition track :: "nat \<Rightarrow> 'a server_scheme \<Rightarrow> 'a server_scheme" where
  "track c s = s\<lparr>svConns := insert c (svConns s)\<rparr>"

definition untrack :: "nat \<Rightarrow> 'a server_scheme \<Rightarrow> 'a server_scheme" where
  "untrack c s = s\<lparr>svConns := svConns s - {c}\<rparr>"

definition record_target :: "string \<Rightarrow> 'a server_scheme \<Rightarrow> 'a server_scheme" where
  "record_target t s = s\<lparr>svTargets := svTargets s @ [t]\<rparr>"

definition SetInjectedStatus :: "int \<Rightarrow> connectServer \<Rightarrow> connectServer" where
  "SetInjectedStatus code s = s\<lparr>svStatus := code\<rparr>"

text \<open>\<open>Close\<close> up to its wait.\<close>

definition server_Close :: "'a server_scheme \<Rightarrow> 'a server_scheme" where
  "server_Close s =
     (if svDone s then s
      else s\<lparr>svDone := True, svListening := False, svClosed := svClosed s \<union> svConns s\<rparr>)"

text \<open>The end of the goroutine of a connection: it is closed, then forgotten.\<close>

definition end_conn :: "nat \<Rightarrow> 'a server_scheme \<Rightarrow> 'a server_scheme" where
  "end_conn c s = untrack c (s\<lparr>svClosed := insert c (svClosed s)\<rparr>)"

definition Targets :: "'a server_scheme \<Rightarrow> string list" where
  "Targets s = svTargets s"

text \<open>The CONNECT server has its own copies of these methods, with the same code.\<close>

definition connect_Targets :: "connectServer \<Rightarrow> string list" where "connect_Targets = Targets"
definition connect_track :: "nat \<Rightarrow> connectServer \<Rightarrow> connectServer" where "connect_track = track"
definition connect_untrack :: "nat \<Rightarrow> connectServer \<Rightarrow> connectServer" where "connect_untrack = untrack"
definition connect_record :: "string \<Rightarrow> connectServer \<Rightarrow> connectServer" where "connect_record = record_target"
definition connect_Close :: "connectServer \<Rightarrow> connectServer" where "connect_Close = server_Close"
definition connect_end :: "nat \<Rightarrow> connectServer \<Rightarrow> connectServer" where "connect_end = end_conn"
definition currentStatus :: "connectServer \<Rightarrow> int" where "currentStatus s = svStatus s"

text \<open>How the handling of a connection ends: dropped, or relayed to a target together with
  the bytes the client has still to send.\<close>

datatype handled = Dropped | Relayed string "byte list"

text \<open>\<open>SOCKS5Server.handle\<close>; \<open>reach\<close> says whether a target can be dialled.\<close>

definition socks_handle :: "(string \<Rightarrow> bool) \<Rightarrow> netconn \<Rightarrow> server \<Rightarrow> handled \<times> netconn \<times> server" where
  "socks_handle reach c s =
     (case handshake c of
        (Inl e, c1) \<Rightarrow> (Dropped, c1, s)
      | (Inr target, c1) \<Rightarrow>
          if \<not> reach target then (Dropped, c1, s)
          else case writeConn socks5ReplySuccess c1 of
            (Inl e, c2) \<Rightarrow> (Dropped, c2, s)
          | (Inr _, c2) \<Rightarrow> (Relayed target (ncIn c2), c2, record_target target s))"

text \<open>\<open>writeConnectResponse\<close>, with the reason phrase of the standard library as an argument.\<close>

definition crlf :: string where "crlf = [CHR 0x0D, CHR 0x0A]"

definition bytes_of :: "string \<Rightarrow> byte list" where
  "bytes_of s = map of_char s"

definition writeConnectResponse :: "(int \<Rightarrow> string) \<Rightarrow> int \<Rightarrow> unit io" where
  "writeConnectResponse StatusText code =
     writeConn (bytes_of (''HTTP/1.1 '' @ Itoa code @ '' '' @ StatusText code @ crlf @
       ''Content-Length: 0'' @ crlf @ crlf))"

text \<open>\<open>HTTPConnectServer.handle\<close> over the request \<open>http.ReadRequest\<close> gave: method, URL host and
  what the connection still holds.\<close>

definition connect_handle ::
  "(int \<Rightarrow> string) \<Rightarrow> (string \<Rightarrow> bool) \<Rightarrow> (string \<times> string) option \<Rightarrow> netconn \<Rightarrow> connectServer \<Rightarrow>
   handled \<times> netconn \<times> connectServer" where
  "connect_handle StatusText reach req c s =
     (case req of
        None \<Rightarrow> (Dropped, c, s)
      | Some (meth, target) \<Rightarrow>
          if meth \<noteq> ''CONNECT'' then (Dropped, c, s)
          else if svStatus s \<noteq> 200
            then (Dropped, snd (writeConnectResponse StatusText (svStatus s) c), s)
          else if \<not> reach target
            then (Dropped, snd (writeConnectResponse StatusText 502 c), s)
          else case writeConnectResponse StatusText 200 c of
            (Inl e, c1) \<Rightarrow> (Dropped, c1, s)
          | (Inr _, c1) \<Rightarrow>
              let s1 = record_target target s
              in if svPreamble s = [] then (Relayed target (ncIn c1), c1, s1)
                 else case writeConn (svPreamble s) c1 of
                   (Inl e, c2) \<Rightarrow> (Dropped, c2, s1)
                 | (Inr _, c2) \<Rightarrow> (Relayed target (ncIn c2), c2, s1))"

section \<open>The messages the handshake accepts\<close>

text \<open>Specification: the CONNECT request of RFC 1928, with any list of methods.\<close>

datatype dest = DestV4 byte byte byte byte | DestDomain "byte list" | DestV6 "byte list"

fun dest_ok :: "dest \<Rightarrow> bool" where
  "dest_ok (DestV4 a b c d) = True"
| "dest_ok (DestDomain bs) = (length bs < 256)"
| "dest_ok (DestV6 bs) = (length bs = 16)"

fun dest_type :: "dest \<Rightarrow> byte" where
  "dest_type (DestV4 a b c d) = 1"
| "dest_type (DestDomain bs) = 3"
| "dest_type (DestV6 bs) = 4"

fun dest_body :: "dest \<Rightarrow> byte list" where
  "dest_body (DestV4 a b c d) = [a, b, c, d]"
| "dest_body (DestDomain bs) = of_nat (length bs) # bs"
| "dest_body (DestV6 bs) = bs"

fun dest_text :: "dest \<Rightarrow> string" where
  "dest_text (DestV4 a b c d) = dotted a b c d"
| "dest_text (DestDomain bs) = string_of bs"
| "dest_text (DestV6 bs) = IP_String bs"

definition connect_message :: "byte list \<Rightarrow> byte \<Rightarrow> dest \<Rightarrow> byte \<Rightarrow> byte \<Rightarrow> byte list" where
  "connect_message methods reserved d p0 p1 =
     [5, of_nat (length methods)] @ methods @ [5, 1, reserved, dest_type d] @ dest_body d @ [p0, p1]"

lemma bindIO_Inr:
  "bindIO m f c = (Inr b, c') \<longleftrightarrow> (\<exists>a c1. m c = (Inr a, c1) \<and> f a c1 = (Inr b, c'))"
  by (auto simp: bindIO.simps split: prod.splits sum.splits)

lemma readFull_Inr:
  "readFull n c = (Inr bs, c1) \<longleftrightarrow>
   length bs = n \<and> ncIn c = bs @ ncIn c1 \<and> c1 = c\<lparr>ncIn := ncIn c1\<rparr>"
  by (auto simp: readFull_def)

lemma readFull_InrE:
  assumes "readFull n c = (Inr bs, c1)"
  obtains rest where "length bs = n" "ncIn c = bs @ rest" "c1 = c\<lparr>ncIn := rest\<rparr>"
proof (rule that)
  show "length bs = n" "ncIn c = bs @ drop n (ncIn c)" "c1 = c\<lparr>ncIn := drop n (ncIn c)\<rparr>"
    using assms by (auto simp: readFull_def split: if_splits)
qed

lemma writeConn_Inr:
  "writeConn bs c = (Inr u, c1) \<longleftrightarrow>
   \<not> ncWriteErr c (length (ncOut c)) \<and> c1 = c\<lparr>ncOut := ncOut c @ [bs]\<rparr>"
  by (auto simp: writeConn_def)

lemma returnIO_Inr: "returnIO a c = (Inr b, c1) \<longleftrightarrow> b = a \<and> c1 = c"
  by (auto simp: returnIO_def)

lemma failIO_Inr: "failIO e c \<noteq> (Inr b, c1)"
  by (simp add: failIO_def)

lemmas io_simps = bindIO_Inr readFull_Inr writeConn_Inr returnIO_Inr failIO_Inr

lemma length_numeral_Cons: "length xs = 4 \<longleftrightarrow> (\<exists>a b c d. xs = [a, b, c, d])"
  "length xs = 2 \<longleftrightarrow> (\<exists>a b. xs = [a, b])" "length xs = 1 \<longleftrightarrow> (\<exists>a. xs = [a])"
  by (auto simp: numeral_eq_Suc length_Suc_conv)

lemma byte_length: "length bs < 256 \<Longrightarrow> unat (of_nat (length bs) :: byte) = length bs"
  by (simp add: unat_of_nat)

lemma byte_length_unat: "length bs = unat (b :: byte) \<Longrightarrow> b = of_nat (length bs) \<and> length bs < 256"
  using unsigned_less [of b, where 'a = nat] by simp

lemma IP_String_4: "IP_String [a, b, c, d] = dotted a b c d"
  by (simp add: IP_String_def To4_def)

lemma readHost_Inr:
  "readHost atyp c = (Inr h, c1) \<longleftrightarrow>
   (\<exists>d. dest_ok d \<and> atyp = dest_type d \<and> h = dest_text d \<and> ncIn c = dest_body d @ ncIn c1 \<and>
      c1 = c\<lparr>ncIn := ncIn c1\<rparr>)"
  (is "?l \<longleftrightarrow> ?r")
proof
  assume ?l
  then consider "atyp = 1" "readHost 1 c = (Inr h, c1)" | "atyp = 3" "readHost 3 c = (Inr h, c1)"
    | "atyp = 4" "readHost 4 c = (Inr h, c1)"
    by (auto simp: readHost_def socks5_defs failIO_Inr split: if_splits)
  then show ?r
  proof cases
    case 1
    then obtain b where b: "length b = 4" "ncIn c = b @ ncIn c1" "c1 = c\<lparr>ncIn := ncIn c1\<rparr>"
      "h = IP_String b"
      by (auto simp: readHost_def socks5_defs io_simps)
    then obtain w x y z where "b = [w, x, y, z]" by (auto simp: length_numeral_Cons)
    with b 1 show ?thesis by (intro exI [of _ "DestV4 w x y z"]) (auto simp: IP_String_4)
  next
    case 2
    then obtain l b where b: "length b = unat l" "ncIn c = l # b @ ncIn c1"
      "c1 = c\<lparr>ncIn := ncIn c1\<rparr>" "h = string_of b"
      by (auto simp: readHost_def socks5_defs io_simps length_Suc_conv)
    with byte_length_unat [OF b(1)] 2 show ?thesis by (intro exI [of _ "DestDomain b"]) auto
  next
    case 3
    then obtain b where b: "length b = 16" "ncIn c = b @ ncIn c1" "c1 = c\<lparr>ncIn := ncIn c1\<rparr>"
      "h = IP_String b"
      by (auto simp: readHost_def socks5_defs io_simps)
    with 3 show ?thesis by (intro exI [of _ "DestV6 b"]) auto
  qed
next
  assume ?r
  then obtain d where d: "dest_ok d" "atyp = dest_type d" "h = dest_text d"
    "ncIn c = dest_body d @ ncIn c1" "c1 = c\<lparr>ncIn := ncIn c1\<rparr>" by blast
  show ?l
  proof (cases d)
    case (DestV4 w x y z)
    have "readFull 4 c = (Inr [w, x, y, z], c1)"
      unfolding readFull_Inr using d DestV4 by simp
    with DestV4 d(2,3) show ?thesis
      by (simp add: readHost_def socks5_defs bindIO.simps returnIO_def IP_String_4)
  next
    case (DestDomain b)
    let ?c = "c\<lparr>ncIn := b @ ncIn c1\<rparr>"
    have "readFull 1 c = (Inr [of_nat (length b)], ?c)"
      unfolding readFull_Inr using d DestDomain by simp
    moreover have "readFull (length b) ?c = (Inr b, c1)"
      unfolding readFull_Inr using d(5) by simp
    ultimately show ?thesis
      using DestDomain d(1-3) by (simp add: readHost_def socks5_defs bindIO.simps returnIO_def byte_length)
  next
    case (DestV6 b)
    have "readFull 16 c = (Inr b, c1)"
      unfolding readFull_Inr using d DestV6 by simp
    with DestV6 d(2,3) show ?thesis by (simp add: readHost_def socks5_defs bindIO.simps returnIO_def)
  qed
qed

definition target_text :: "dest \<Rightarrow> byte \<Rightarrow> byte \<Rightarrow> string" where
  "target_text d p0 p1 = JoinHostPort (dest_text d) (Itoa (int (256 * unat p0 + unat p1)))"

lemma handshake_Inr:
  "handshake c = (Inr t, c') \<longleftrightarrow>
   (\<exists>methods reserved d p0 p1. length methods < 256 \<and> dest_ok d \<and>
      \<not> ncWriteErr c (length (ncOut c)) \<and> t = target_text d p0 p1 \<and>
      ncIn c = connect_message methods reserved d p0 p1 @ ncIn c' \<and>
      c' = c\<lparr>ncIn := ncIn c', ncOut := ncOut c @ [[5, 0]]\<rparr>)"
  (is "?l \<longleftrightarrow> ?r")
proof
  assume ?l
  then obtain header c1 methods c2 c3 req c4 host c5 ports where
    h: "readFull 2 c = (Inr header, c1)" "header ! 0 = 5"
      "readFull (unat (header ! 1)) c1 = (Inr methods, c2)"
      "writeConn [5, 0] c2 = (Inr (), c3)" "readFull 4 c3 = (Inr req, c4)"
      "req ! 0 = 5" "req ! 1 = 1" "readHost (req ! 3) c4 = (Inr host, c5)"
      "readFull 2 c5 = (Inr ports, c')" "t = JoinHostPort host (Itoa (int (Uint16 ports)))"
    by (auto simp: handshake_def socks5_defs bindIO_Inr returnIO_Inr failIO_Inr split: if_splits)
  obtain d i5 where d: "dest_ok d" "req ! 3 = dest_type d" "host = dest_text d"
      "ncIn c4 = dest_body d @ i5" "c5 = c4\<lparr>ncIn := i5\<rparr>"
    using h(8) readHost_Inr by blast
  obtain i1 where 1: "length header = 2" "ncIn c = header @ i1" "c1 = c\<lparr>ncIn := i1\<rparr>"
    by (rule readFull_InrE [OF h(1)])
  then obtain n where header: "header = [5, n]" using h(2) by (auto simp: length_numeral_Cons)
  obtain i2 where 2: "length methods = unat n" "i1 = methods @ i2" "c2 = c\<lparr>ncIn := i2\<rparr>"
    by (rule readFull_InrE [OF h(3)]) (simp add: 1 header)
  have 3: "\<not> ncWriteErr c (length (ncOut c))" "c3 = c\<lparr>ncIn := i2, ncOut := ncOut c @ [[5, 0]]\<rparr>"
    using h(4) by (simp_all add: writeConn_Inr 2(3))
  obtain i4 where 4: "length req = 4" "i2 = req @ i4" "c4 = c3\<lparr>ncIn := i4\<rparr>"
    by (rule readFull_InrE [OF h(5)]) (simp add: 3)
  then obtain r where req: "req = [5, 1, r, dest_type d]"
    using h(6,7) d(2) by (auto simp: length_numeral_Cons)
  have 5: "i4 = dest_body d @ i5" using d(4) by (simp add: 4(3))
  obtain i6 where 6: "length ports = 2" "i5 = ports @ i6" "c' = c5\<lparr>ncIn := i6\<rparr>"
    by (rule readFull_InrE [OF h(9)]) (simp add: d(5))
  then obtain p0 p1 where ports: "ports = [p0, p1]" by (auto simp: length_numeral_Cons)
  have n: "n = of_nat (length methods)" "length methods < 256"
    using byte_length_unat [OF 2(1)] by blast+
  have "c' = c\<lparr>ncIn := ncIn c', ncOut := ncOut c @ [[5, 0]]\<rparr>" "ncIn c' = i6"
    by (simp_all add: 6(3) d(5) 4(3) 3(2))
  moreover have "ncIn c = connect_message methods r d p0 p1 @ i6"
    by (simp add: connect_message_def 1(2) 2(2) 4(2) 5 6(2) header req ports n(1))
  ultimately show ?r
    using n(2) d(1,3) h(10) 3(1) ports
    by (intro exI [of _ methods] exI [of _ r] exI [of _ d] exI [of _ p0] exI [of _ p1])
       (simp add: target_text_def Uint16_def)
next
  assume ?r
  then obtain methods reserved d p0 p1 where m: "length methods < 256" "dest_ok d"
      "\<not> ncWriteErr c (length (ncOut c))" "t = target_text d p0 p1"
      "ncIn c = connect_message methods reserved d p0 p1 @ ncIn c'"
      "c' = c\<lparr>ncIn := ncIn c', ncOut := ncOut c @ [[5, 0]]\<rparr>"
    by blast
  obtain rest where rest: "ncIn c = connect_message methods reserved d p0 p1 @ rest"
      "c' = c\<lparr>ncIn := rest, ncOut := ncOut c @ [[5, 0]]\<rparr>"
    using m(5,6) by blast
  let ?tail = "dest_body d @ [p0, p1] @ rest"
  let ?at = "\<lambda>bs. c\<lparr>ncIn := bs\<rparr>" and ?at' = "\<lambda>bs. c\<lparr>ncIn := bs, ncOut := ncOut c @ [[5, 0]]\<rparr>"
  have steps: "readFull 2 c = (Inr [5, of_nat (length methods)],
        ?at (methods @ [5, 1, reserved, dest_type d] @ ?tail))"
      "readFull (length methods) (?at (methods @ [5, 1, reserved, dest_type d] @ ?tail)) =
        (Inr methods, ?at ([5, 1, reserved, dest_type d] @ ?tail))"
      "writeConn [5, 0] (?at ([5, 1, reserved, dest_type d] @ ?tail)) =
        (Inr (), ?at' ([5, 1, reserved, dest_type d] @ ?tail))"
      "readFull 4 (?at' ([5, 1, reserved, dest_type d] @ ?tail)) =
        (Inr [5, 1, reserved, dest_type d], ?at' ?tail)"
      "readHost (dest_type d) (?at' ?tail) = (Inr (dest_text d), ?at' ([p0, p1] @ rest))"
      "readFull 2 (?at' ([p0, p1] @ rest)) = (Inr [p0, p1], ?at' (rest))"
    using m(1-3) rest by (auto simp: readFull_Inr writeConn_Inr readHost_Inr connect_message_def)
  show ?l
    using m(1,4) steps
    by (simp add: rest(2) handshake_def bindIO.simps socks5_defs byte_length returnIO_def target_text_def
        Uint16_def)
qed

section \<open>The target\<close>

text \<open>The address a destination names, when it is one; IPv4-mapped ones count as IPv4.\<close>

fun addr_of_bytes :: "byte list \<Rightarrow> Addr option" where
  "addr_of_bytes [a, b, c, d] = Some (AddrV4 a b c d)"
| "addr_of_bytes bs =
     (case groups_of bs of
        [g0, g1, g2, g3, g4, g5, g6, g7] \<Rightarrow> Some (AddrV6 g0 g1 g2 g3 g4 g5 g6 g7 '''')
      | _ \<Rightarrow> None)"

definition dest_addr :: "dest \<Rightarrow> Addr option" where
  "dest_addr d =
     (case d of
        DestV4 a b c e \<Rightarrow> Some (AddrV4 a b c e)
      | DestDomain bs \<Rightarrow> None
      | DestV6 bs \<Rightarrow> addr_of_bytes (case To4 bs of Some q \<Rightarrow> q | None \<Rightarrow> bs))"

fun no_zone :: "Addr \<Rightarrow> bool" where
  "no_zone (AddrV6 g0 g1 g2 g3 g4 g5 g6 g7 z) = (z = '''')"
| "no_zone _ = True"

lemma unat_word_of_bytes: "unat (word_of_bytes a b) = unat a * 256 + unat b"
proof -
  have "unat a < 256" "unat b < 256"
    using unsigned_less [of a, where 'a = nat] unsigned_less [of b, where 'a = nat] by simp_all
  then show ?thesis unfolding word_of_bytes_def by (subst unat_of_nat) simp
qed

lemma digits_256:
  assumes "x * 256 + y = u * 256 + (v :: nat)" "y < 256" "v < 256"
  shows "x = u \<and> y = v"
  using arg_cong [OF assms(1), of "\<lambda>n. n div 256"] arg_cong [OF assms(1), of "\<lambda>n. n mod 256"] assms(2,3)
  by simp

lemma word_of_bytes_inj: "word_of_bytes a b = word_of_bytes c d \<longleftrightarrow> a = c \<and> b = d"
proof
  assume "word_of_bytes a b = word_of_bytes c d"
  then have "unat a * 256 + unat b = unat c * 256 + unat d"
    by (simp only: unat_word_of_bytes [symmetric])
  moreover have "unat b < 256" "unat d < 256"
    using unsigned_less [of b, where 'a = nat] unsigned_less [of d, where 'a = nat] by simp_all
  ultimately have "unat a = unat c \<and> unat b = unat d" by (rule digits_256)
  then show "a = c \<and> b = d" by (simp add: word_unat_eq_iff)
qed simp

lemma word_of_bytes_const:
  "word_of_bytes a b = 0 \<longleftrightarrow> a = 0 \<and> b = 0"
  "word_of_bytes a b = 0xffff \<longleftrightarrow> a = 255 \<and> b = 255"
proof -
  have "word_of_bytes 0 0 = 0" "word_of_bytes 255 255 = 0xffff" by (simp_all add: word_of_bytes_def)
  with word_of_bytes_inj show "word_of_bytes a b = 0 \<longleftrightarrow> a = 0 \<and> b = 0"
    "word_of_bytes a b = 0xffff \<longleftrightarrow> a = 255 \<and> b = 255" by metis+
qed

lemma length_16:
  assumes "length xs = 16"
  obtains a b c d e f g h i j k l m n p q
    where "xs = [a, b, c, d, e, f, g, h, i, j, k, l, m, n, p, q]"
proof (rule that)
  have "xs = map ((!) xs) [0..<16]" using map_nth [of xs] assms by simp
  also have "[0..<16] = [0, 1, 2, 3, 4, 5, 6, 7, 8, 9, 10, 11, 12, 13, 14, 15 :: nat]"
    by (simp add: upt_rec)
  finally show "xs = [xs ! 0, xs ! 1, xs ! 2, xs ! 3, xs ! 4, xs ! 5, xs ! 6, xs ! 7, xs ! 8,
      xs ! 9, xs ! 10, xs ! 11, xs ! 12, xs ! 13, xs ! 14, xs ! 15]"
    by (simp only: list.map)
qed

lemma IP_String_addr: "length bs = 16 \<Longrightarrow> \<exists>a. dest_addr (DestV6 bs) = Some a \<and> IsValid a \<and>
    no_zone a \<and> IP_String bs = Addr_String a"
proof -
  assume "length bs = 16"
  then obtain a b c d e f g h i j k l m n p q
    where bs: "bs = [a, b, c, d, e, f, g, h, i, j, k, l, m, n, p, q]"
    by (rule length_16)
  show ?thesis
  proof (cases "take 12 bs = replicate 10 0 @ [255, 255]")
    case True
    then have "To4 bs = Some [m, n, p, q]" by (simp add: bs To4_def)
    then show ?thesis by (simp add: bs dest_addr_def IP_String_def IsValid_def)
  next
    case False
    then have none: "To4 bs = None" by (simp add: bs To4_def numeral_eq_Suc)
    from False have "\<not> ([word_of_bytes a b, word_of_bytes c d, word_of_bytes e f, word_of_bytes g h,
        word_of_bytes i j] = [0, 0, 0, 0, 0] \<and> word_of_bytes k l = 0xffff)"
      by (auto simp: bs word_of_bytes_const numeral_eq_Suc)
    with none show ?thesis by (auto simp: bs dest_addr_def IP_String_def IsValid_def zone_suffix_def)
  qed
qed

lemma not_is_hex_bracket: "\<not> is_hex (CHR ''['')" "\<not> is_hex (CHR '']'')"
  by (simp_all add: is_hex_def hex_val_def Let_def)

lemma plain_join_groups: "plain_text (join_groups gs)"
  by (induction gs rule: join_groups.induct)
     (auto simp: plain_text_def not_is_hex_bracket dest: hex_group_hex)

lemma plain_dotted: "plain_text (dotted a b c d)"
  using itoa_nat_digits digit_not_special by (auto simp: dotted_def plain_text_def)

lemma plain_append: "plain_text (s @ t) \<longleftrightarrow> plain_text s \<and> plain_text t"
  by (auto simp: plain_text_def)

lemma plain_literals: "plain_text ''::''" "plain_text ''::ffff:''" "plain_text ''invalid IP''" "plain_text ''''"
  by (simp_all add: plain_text_def)

lemmas plain_parts = plain_append plain_literals plain_join_groups plain_dotted

lemma plain_string6: "plain_text (string6 gs)"
  unfolding string6_def by (simp only: plain_parts split: option.split prod.split) simp

lemma plain_Addr_String: "no_zone a \<Longrightarrow> plain_text (Addr_String a)"
  by (cases a) (simp_all only: Addr_String.simps no_zone.simps zone_suffix_def plain_parts plain_string6
      split: if_split, simp_all)

text \<open>C35: Round trip of the SOCKS5 handshake. The message of a well-formed CONNECT request, with
  any methods, is accepted; exactly that message is consumed and the method answer 5, 0 is
  all that is written. The target the server dials splits into a host and the decimal port,
  and an address destination is what parsing the host gives back (a domain without brackets
  is the host itself).\<close>

theorem socks_roundtrip:
  assumes "ncIn c = connect_message methods reserved d p0 p1 @ rest"
    and "length methods < 256" and "dest_ok d" and "\<not> ncWriteErr c (length (ncOut c))"
    and "dest_addr d = None \<Longrightarrow> plain_text (dest_text d)"
  shows "\<exists>t h. handshake c = (Inr t, c\<lparr>ncIn := rest, ncOut := ncOut c @ [[5, 0]]\<rparr>) \<and>
    SplitHostPort t = Some (h, Itoa (int (256 * unat p0 + unat p1))) \<and>
    (case dest_addr d of None \<Rightarrow> h = dest_text d | Some a \<Rightarrow> ParseAddr h = Some a)"
proof -
  let ?port = "Itoa (int (256 * unat p0 + unat p1))"
  have "handshake c = (Inr (target_text d p0 p1), c\<lparr>ncIn := rest, ncOut := ncOut c @ [[5, 0]]\<rparr>)"
    unfolding handshake_Inr using assms(1-4)
    by (intro exI [of _ methods] exI [of _ reserved] exI [of _ d] exI [of _ p0] exI [of _ p1]) simp
  moreover have host: "plain_text (dest_text d) \<and>
      (case dest_addr d of None \<Rightarrow> True | Some a \<Rightarrow> ParseAddr (dest_text d) = Some a)"
  proof (cases d)
    case (DestV4 x y z w)
    then show ?thesis
      using plain_dotted ParseAddr_String [of "AddrV4 x y z w"] by (simp add: dest_addr_def IsValid_def)
  next
    case (DestDomain bs)
    with assms(5) show ?thesis by (simp add: dest_addr_def)
  next
    case (DestV6 bs)
    with assms(3) obtain a where "dest_addr d = Some a" "IsValid a" "no_zone a"
        "IP_String bs = Addr_String a"
      using IP_String_addr by auto
    with DestV6 show ?thesis using ParseAddr_String plain_Addr_String by simp
  qed
  moreover have "SplitHostPort (target_text d p0 p1) = Some (dest_text d, ?port)"
    unfolding target_text_def using host plain_text_Itoa by (intro SplitHostPort_JoinHostPort) auto
  ultimately show ?thesis by (auto split: option.splits)
qed

lemma socks_roundtrip_witness:
  "\<exists>c'. handshake \<lparr>ncIn = [5, 1, 0, 5, 1, 0, 1, 192, 0, 2, 7, 1, 187, 22, 3], ncOut = [],
      ncWriteErr = \<lambda>_. False\<rparr> = (Inr ''192.0.2.7:443'', c') \<and> ncIn c' = [22, 3]"
proof -
  let ?c = "\<lparr>ncIn = [5, 1, 0, 5, 1, 0, 1, 192, 0, 2, 7, 1, 187, 22, 3], ncOut = [],
      ncWriteErr = \<lambda>_. False\<rparr>"
  have "ncIn ?c = connect_message [0] 0 (DestV4 192 0 2 7) 1 187 @ [22, 3]"
    by (simp add: connect_message_def)
  from socks_roundtrip [OF this] obtain t where t: "handshake ?c = (Inr t, ?c\<lparr>ncIn := [22, 3], ncOut := [[5, 0]]\<rparr>)"
    by (auto simp: dest_addr_def)
  have "t = target_text (DestV4 192 0 2 7) 1 187"
    using t by (simp add: handshake_def readFull_def bindIO.simps socks5_defs writeConn_def readHost_def
        returnIO_def IP_String_4 target_text_def Uint16_def)
  moreover have "target_text (DestV4 192 0 2 7) 1 187 = ''192.0.2.7:443''" by code_simp
  ultimately show ?thesis using t by auto
qed

end
