(* ===== verification/ServerLife.thy ===== *)
theory ServerLife
  imports TestServers
begin

text \<open>
  The life of a test proxy (\<^verbatim>\<open>internal/testutil\<close>; both servers have the same code): the accept
  loop, the goroutine of each connection and a call of \<open>Close\<close>, interleaved. A handler may end
  at any time; one whose connection is still open ends only when its peer, or the target,
  closes. Two results: once \<open>Close\<close> has returned nothing is left, and \<open>Close\<close> may wait for a
  connection it has missed.
\<close>

section \<open>The steps\<close>

datatype loop = Accepting | Accepted nat | LoopEnded

datatype closing_phase = NotClosing | DoneClosed | ListenerClosed | Waiting | Returned

text \<open>\<open>lvRunning\<close>: the connections whose goroutine is counted by the wait group; \<open>lvSeen\<close>: all
  the connections accepted so far.\<close>

record life =
  lvServer :: server
  lvLoop :: loop
  lvRunning :: "nat set"
  lvSeen :: "nat set"
  lvPhase :: closing_phase

definition started_server :: life where
  "started_server = \<lparr>lvServer = newServer, lvLoop = Accepting, lvRunning = {}, lvSeen = {}, lvPhase = NotClosing\<rparr>"

abbreviation on_server :: "(server \<Rightarrow> server) \<Rightarrow> life \<Rightarrow> life" where
  "on_server f l \<equiv> l\<lparr>lvServer := f (lvServer l)\<rparr>"

text \<open>\<open>acceptLoop\<close>: a connection, the goroutine it starts, and the end with the listener.\<close>

inductive accept_step :: "life \<Rightarrow> life \<Rightarrow> bool" where
  accept: "lvLoop l = Accepting \<Longrightarrow> svListening (lvServer l) \<Longrightarrow> c \<notin> lvSeen l \<Longrightarrow>
    accept_step l (l\<lparr>lvLoop := Accepted c, lvSeen := insert c (lvSeen l)\<rparr>)"
| spawn: "lvLoop l = Accepted c \<Longrightarrow>
    accept_step l (on_server (track c) l\<lparr>lvLoop := Accepting, lvRunning := insert c (lvRunning l)\<rparr>)"
| stop: "lvLoop l = Accepting \<Longrightarrow> \<not> svListening (lvServer l) \<Longrightarrow> accept_step l (l\<lparr>lvLoop := LoopEnded\<rparr>)"

text \<open>The goroutine of a connection: it may record a target, and it ends.\<close>

inductive conn_step :: "life \<Rightarrow> life \<Rightarrow> bool" where
  target: "c \<in> lvRunning l \<Longrightarrow> conn_step l (on_server (record_target t) l)"
| finish: "c \<in> lvRunning l \<Longrightarrow> conn_step l (on_server (end_conn c) l\<lparr>lvRunning := lvRunning l - {c}\<rparr>)"

text \<open>\<open>Close\<close>, step by step; the connections are closed under the lock, at once.\<close>

inductive close_step :: "life \<Rightarrow> life \<Rightarrow> bool" where
  mark: "lvPhase l = NotClosing \<Longrightarrow>
    close_step l (on_server (svDone_update (\<lambda>_. True)) l\<lparr>lvPhase := DoneClosed\<rparr>)"
| unlisten: "lvPhase l = DoneClosed \<Longrightarrow>
    close_step l (on_server (svListening_update (\<lambda>_. False)) l\<lparr>lvPhase := ListenerClosed\<rparr>)"
| closeAll: "lvPhase l = ListenerClosed \<Longrightarrow>
    close_step l (on_server (\<lambda>s. s\<lparr>svClosed := svClosed s \<union> svConns s\<rparr>) l\<lparr>lvPhase := Waiting\<rparr>)"
| leave: "lvPhase l = Waiting \<Longrightarrow> lvLoop l = LoopEnded \<Longrightarrow> lvRunning l = {} \<Longrightarrow>
    close_step l (l\<lparr>lvPhase := Returned\<rparr>)"

inductive life_reach :: "life \<Rightarrow> bool" where
  start: "life_reach started_server"
| step: "life_reach l \<Longrightarrow> accept_step l m \<or> conn_step l m \<or> close_step l m \<Longrightarrow> life_reach m"

inductive_cases accept_stepE: "accept_step l m"
inductive_cases conn_stepE: "conn_step l m"
inductive_cases close_stepE: "close_step l m"

section \<open>The invariant\<close>

definition life_inv :: "life \<Rightarrow> bool" where
  "life_inv l \<longleftrightarrow>
     svConns (lvServer l) = lvRunning l \<and>
     lvSeen l = lvRunning l \<union> svClosed (lvServer l) \<union>
       (case lvLoop l of Accepted c \<Rightarrow> {c} | _ \<Rightarrow> {}) \<and>
     svDone (lvServer l) = (lvPhase l \<noteq> NotClosing) \<and>
     svListening (lvServer l) = (lvPhase l \<in> {NotClosing, DoneClosed}) \<and>
     (lvLoop l = LoopEnded \<longrightarrow> \<not> svListening (lvServer l)) \<and>
     (lvPhase l = Returned \<longrightarrow> lvLoop l = LoopEnded \<and> lvRunning l = {})"

lemma life_inv: "life_reach l \<Longrightarrow> life_inv l"
proof (induction rule: life_reach.induct)
  case start
  show ?case by (simp add: life_inv_def started_server_def newServer_def)
next
  case (step l m)
  from step.hyps(2) step.IH show ?case
    by (elim disjE accept_stepE conn_stepE close_stepE)
       (auto simp: life_inv_def track_def untrack_def record_target_def end_conn_def split: loop.splits)
qed

text \<open>Undisturbed, the first steps of \<open>Close\<close> are \<open>server_Close\<close>.\<close>

lemma Close_uninterrupted:
  assumes "lvPhase l = NotClosing" and "life_inv l"
  shows "close_step\<^sup>*\<^sup>* l (on_server server_Close l\<lparr>lvPhase := Waiting\<rparr>)"
proof -
  let ?a = "on_server (svDone_update (\<lambda>_. True)) l\<lparr>lvPhase := DoneClosed\<rparr>"
  let ?b = "on_server (svListening_update (\<lambda>_. False)) ?a\<lparr>lvPhase := ListenerClosed\<rparr>"
  let ?c = "on_server (\<lambda>s. s\<lparr>svClosed := svClosed s \<union> svConns s\<rparr>) ?b\<lparr>lvPhase := Waiting\<rparr>"
  have "close_step l ?a" "close_step ?a ?b" "close_step ?b ?c"
    using close_step.mark [OF assms(1)] close_step.unlisten [of ?a] close_step.closeAll [of ?b] by simp_all
  then have "close_step\<^sup>*\<^sup>* l ?c"
    by (intro rtranclp.rtrancl_into_rtrancl [OF rtranclp.rtrancl_into_rtrancl [OF r_into_rtranclp]])
  moreover have "\<not> svDone (lvServer l)" using assms by (simp add: life_inv_def)
  moreover have "?c = on_server server_Close l\<lparr>lvPhase := Waiting\<rparr>"
    using calculation(2) by (simp add: server_Close_def)
  ultimately show ?thesis by simp
qed

section \<open>After Close\<close>

text \<open>Once \<open>Close\<close> has returned, the accept loop and every goroutine have ended, no connection is
  registered, and every connection that was ever accepted has been closed.\<close>

theorem close_returned_clean:
  "life_reach l \<Longrightarrow> lvPhase l = Returned \<Longrightarrow>
   lvLoop l = LoopEnded \<and> svConns (lvServer l) = {} \<and> svClosed (lvServer l) = lvSeen l"
  using life_inv [of l] by (simp add: life_inv_def)

text \<open>But it need not return: a connection accepted before the listener is closed and registered
  after the connections have been closed is missed. Then the loop has ended, and the only
  thing that can happen is that the goroutine of this open connection goes on or ends by itself.\<close>

theorem close_can_miss:
  "\<exists>l. life_reach l \<and> lvPhase l = Waiting \<and> lvRunning l = {c} \<and> c \<notin> svClosed (lvServer l) \<and>
     (\<forall>m. \<not> accept_step l m \<and> \<not> close_step l m)"
proof -
  let ?a = "started_server\<lparr>lvLoop := Accepted c, lvSeen := {c}\<rparr>"
  let ?b = "on_server server_Close ?a\<lparr>lvPhase := Waiting\<rparr>"
  let ?d = "on_server (track c) ?b\<lparr>lvLoop := Accepting, lvRunning := {c}\<rparr>"
  let ?e = "?d\<lparr>lvLoop := LoopEnded\<rparr>"
  have "accept_step started_server ?a"
    using accept_step.accept [of started_server c] by (simp add: started_server_def newServer_def)
  then have a: "life_reach ?a" using life_reach.intros by blast
  have "life_reach m" if "close_step\<^sup>*\<^sup>* ?a m" for m
    using that by (induction rule: rtranclp_induct) (use a life_reach.step in blast)+
  then have b: "life_reach ?b"
    using Close_uninterrupted [of ?a] life_inv [OF a] by (simp add: started_server_def)
  have "accept_step ?b ?d"
    using accept_step.spawn [of ?b c] by (simp add: started_server_def)
  then have d: "life_reach ?d" using b life_reach.step by blast
  have "accept_step ?d ?e"
    by (rule accept_step.stop) (simp_all add: track_def server_Close_def started_server_def newServer_def)
  then have e: "life_reach ?e" using d life_reach.step by blast
  show ?thesis
    by (intro exI [of _ ?e] conjI e)
       (auto elim!: accept_stepE close_stepE simp: track_def server_Close_def started_server_def newServer_def)
qed

end
