(* ===== verification/AmzWrap.thy ===== *)
theory AmzWrap
  imports Dial
begin

text \<open>
  The wrapper around the tunnel client (\<^verbatim>\<open>internal/amzwrap\<close>) and its fake
  (\<^verbatim>\<open>internal/fakeamz\<close>): what is handed to the client library and how its errors are wrapped,
  the two ways to dial through an instance's proxy, with every operation on the connection in
  order, and the contract of a client, which the fake fulfils. What the network, the library
  and the response parser answer is an argument.
\<close>

section \<open>The client library\<close>

record clientStatus =
  csRunning :: bool
  csListenAddress :: string

text \<open>The options \<open>DefaultFactory.NewClient\<close> passes: storage, listener, endpoint, and both proxy
  protocols enabled.\<close>

record amzOptions =
  aoStoragePath :: string
  aoListenAddress :: string
  aoEndpoint :: string
  aoHTTP :: bool
  aoSOCKS5 :: bool

datatype 'e amz_error = CreateFailed 'e | StartFailed 'e | RunFailed 'e | CloseFailed 'e

definition DefaultFactory_NewClient ::
  "(amzOptions \<Rightarrow> 'e + 'c) \<Rightarrow> string \<Rightarrow> string \<Rightarrow> string \<Rightarrow> 'e amz_error + 'c" where
  "DefaultFactory_NewClient create storagePath listenAddr endpoint =
     (case create \<lparr>aoStoragePath = storagePath, aoListenAddress = listenAddr, aoEndpoint = endpoint,
                   aoHTTP = True, aoSOCKS5 = True\<rparr> of
        Inl e \<Rightarrow> Inl (CreateFailed e)
      | Inr c \<Rightarrow> Inr c)"

text \<open>The adapter passes the library's answers on, errors wrapped.\<close>

definition amzClient_Start :: "'e option \<Rightarrow> 'e amz_error option" where
  "amzClient_Start err = map_option StartFailed err"

definition amzClient_Run :: "'e option \<Rightarrow> 'e amz_error option" where
  "amzClient_Run err = map_option RunFailed err"

definition amzClient_Close :: "'e option \<Rightarrow> 'e amz_error option" where
  "amzClient_Close err = map_option CloseFailed err"

definition amzClient_Status :: "clientStatus \<Rightarrow> clientStatus" where
  "amzClient_Status s = \<lparr>csRunning = csRunning s, csListenAddress = csListenAddress s\<rparr>"

section \<open>Dialling through SOCKS5\<close>

datatype through_error =
    SocksDialerFailed string
  | NoContext
  | ProxyDialFailed string string string
  | SendConnectFailed string string string
  | BadReply string string
  | Refused string string string

definition DialThroughProxyErr :: "socks_dialer \<Rightarrow> (string + conn) \<Rightarrow> string \<Rightarrow> string \<Rightarrow> through_error + conn" where
  "DialThroughProxyErr dialer dialed proxyAddr addr =
     (case dialer of
        SocksErr \<Rightarrow> Inl (SocksDialerFailed proxyAddr)
      | PlainDialer \<Rightarrow> Inl NoContext
      | ContextDialer \<Rightarrow>
          (case dialed of
             Inl err \<Rightarrow> Inl (ProxyDialFailed proxyAddr addr err)
           | Inr c \<Rightarrow> Inr c))"

section \<open>Dialling through CONNECT\<close>

definition connectStatusMin :: int where "connectStatusMin = 200"
definition connectStatusMax :: int where "connectStatusMax = 299"

text \<open>The steps that touch the connection or the watcher of the context. The dialler never does
  the last one: it is the watcher's, which sets the deadline to the current time when the
  context is cancelled before it sees the stop.\<close>

datatype conn_step =
    SetDeadline "time option"
  | StartWatch
  | StopWatch
  | WriteText string
  | CloseIt
  | WatcherFires time

text \<open>What the context and the network answer. \<open>ceReply\<close>: an error of the response parser, or
  status code, status text and the bytes that arrived behind the response.\<close>

record connect_env =
  ceDeadline :: "time option"
  ceCancellable :: bool
  ceDial :: "string + conn"
  ceWriteErr :: "string option"
  ceReply :: "string + (int \<times> string \<times> string)"

definition crlf2 :: string where
  "crlf2 = [CHR 0x0D, CHR 0x0A]"

definition connect_request :: "string \<Rightarrow> string" where
  "connect_request addr =
     ''CONNECT '' @ addr @ '' HTTP/1.1'' @ crlf2 @ ''Host: '' @ addr @ crlf2 @ crlf2"

text \<open>\<open>sync.OnceFunc\<close>: only the first call closes the channel.\<close>

definition stopWatch :: "conn_step list \<Rightarrow> conn_step list" where
  "stopWatch as = (if StopWatch \<in> set as then as else as @ [StopWatch])"

definition fail :: "through_error \<Rightarrow> conn_step list \<Rightarrow> (through_error + 'c) \<times> conn_step list" where
  "fail err as = (Inl err, stopWatch as @ [CloseIt])"

text \<open>A tunnel: the bare connection, or one with bytes to be read first.\<close>

datatype tunnel = Bare conn | Buffered conn string

definition DialThroughProxyHTTP ::
  "connect_env \<Rightarrow> string \<Rightarrow> string \<Rightarrow> (through_error + tunnel) \<times> conn_step list" where
  "DialThroughProxyHTTP env proxyAddr addr =
     (case ceDial env of
        Inl err \<Rightarrow> (Inl (ProxyDialFailed proxyAddr addr err), [])
      | Inr c \<Rightarrow>
          (let a1 = (case ceDeadline env of Some dl \<Rightarrow> [SetDeadline (Some dl)] | None \<Rightarrow> []);
               a2 = (if ceCancellable env then a1 @ [StartWatch] else stopWatch a1);
               a3 = a2 @ [WriteText (connect_request addr)]
           in case ceWriteErr env of
                Some err \<Rightarrow> fail (SendConnectFailed proxyAddr addr err) a3
              | None \<Rightarrow>
                  (case ceReply env of
                     Inl err \<Rightarrow> fail (BadReply proxyAddr err) a3
                   | Inr (code, status, buffered) \<Rightarrow>
                       if code < connectStatusMin \<or> connectStatusMax < code
                       then fail (Refused proxyAddr addr status) a3
                       else (Inr (if buffered = '''' then Bare c else Buffered c buffered),
                             stopWatch a3 @ [SetDeadline None]))))"

text \<open>What the caller reads when the connection itself still gives \<open>later\<close>.\<close>

fun tunnel_reads :: "tunnel \<Rightarrow> string \<Rightarrow> string" where
  "tunnel_reads (Bare c) later = later"
| "tunnel_reads (Buffered c buf) later = buf @ later"

text \<open>The deadline of the connection after some steps.\<close>

fun deadline_step :: "conn_step \<Rightarrow> time option \<Rightarrow> time option" where
  "deadline_step (SetDeadline d) _ = d"
| "deadline_step (WatcherFires now) _ = Some now"
| "deadline_step _ d = d"

definition deadline_of :: "conn_step list \<Rightarrow> time option" where
  "deadline_of as = fold deadline_step as None"

section \<open>The fake client\<close>

record fakeClient =
  fcStartErr :: "string option"
  fcRunErr :: "string option"
  fcCloseErr :: "string option"
  fcListenAddr :: string
  fcEndpoint :: string
  fcStop :: bool
  fcStarted :: bool
  fcRunning :: bool
  fcClosed :: bool

definition NewFakeClient :: "string \<Rightarrow> string \<Rightarrow> fakeClient" where
  "NewFakeClient listenAddr endpoint =
     \<lparr>fcStartErr = None, fcRunErr = None, fcCloseErr = None, fcListenAddr = listenAddr,
      fcEndpoint = endpoint, fcStop = False, fcStarted = False, fcRunning = False, fcClosed = False\<rparr>"

definition Fake_Start :: "fakeClient \<Rightarrow> string option \<times> fakeClient" where
  "Fake_Start c =
     (case fcStartErr c of
        Some err \<Rightarrow> (Some err, c)
      | None \<Rightarrow> (None, c\<lparr>fcStarted := True, fcRunning := True\<rparr>))"

text \<open>\<open>Run\<close>: \<open>None\<close> while it blocks, otherwise the result it returns.\<close>

definition Fake_Run :: "fakeClient \<Rightarrow> string option option" where
  "Fake_Run c = (if fcStop c then Some (fcRunErr c) else None)"

definition Fake_Close :: "fakeClient \<Rightarrow> string option \<times> fakeClient" where
  "Fake_Close c = (fcCloseErr c, c\<lparr>fcStop := True, fcRunning := False, fcClosed := True\<rparr>)"

definition Fake_Status :: "fakeClient \<Rightarrow> clientStatus" where
  "Fake_Status c = \<lparr>csRunning = fcRunning c, csListenAddress = fcListenAddr c\<rparr>"

definition Fake_ListenAddress :: "fakeClient \<Rightarrow> string" where
  "Fake_ListenAddress c = fcListenAddr c"

definition Fake_Endpoint :: "fakeClient \<Rightarrow> string" where "Fake_Endpoint c = fcEndpoint c"
definition Fake_Started :: "fakeClient \<Rightarrow> bool" where "Fake_Started c = fcStarted c"
definition Fake_Closed :: "fakeClient \<Rightarrow> bool" where "Fake_Closed c = fcClosed c"

definition FakeFactory_NewClient ::
  "(string \<Rightarrow> string \<Rightarrow> string \<Rightarrow> 'e + fakeClient) option \<Rightarrow> string \<Rightarrow> string \<Rightarrow> string \<Rightarrow> 'e + fakeClient" where
  "FakeFactory_NewClient New storagePath listenAddr endpoint =
     (case New of
        Some f \<Rightarrow> f storagePath listenAddr endpoint
      | None \<Rightarrow> Inr (NewFakeClient listenAddr endpoint))"

section \<open>Outcomes of CONNECT\<close>

definition accepted :: "connect_env \<Rightarrow> bool" where
  "accepted env \<longleftrightarrow> ceWriteErr env = None \<and>
     (case ceReply env of Inl err \<Rightarrow> False | Inr (code, status, buffered) \<Rightarrow> code \<in> {200..299})"

definition buffered_of :: "connect_env \<Rightarrow> string" where
  "buffered_of env = (case ceReply env of Inl err \<Rightarrow> '''' | Inr (code, status, buffered) \<Rightarrow> buffered)"

definition fires_after :: "nat \<Rightarrow> time \<Rightarrow> conn_step list \<Rightarrow> conn_step list" where
  "fires_after k now as = take k as @ [WatcherFires now] @ drop k as"

text \<open>The steps up to the end of the request.\<close>

definition prologue :: "connect_env \<Rightarrow> string \<Rightarrow> conn_step list" where
  "prologue env addr =
     (case ceDeadline env of Some dl \<Rightarrow> [SetDeadline (Some dl)] | None \<Rightarrow> []) @
     [if ceCancellable env then StartWatch else StopWatch, WriteText (connect_request addr)]"

lemma connect_cases:
  assumes "ceDial env = Inr c"
  obtains (ok) t where "accepted env"
      "DialThroughProxyHTTP env proxyAddr addr =
         (Inr t, stopWatch (prologue env addr) @ [SetDeadline None])"
      "\<And>later. tunnel_reads t later = buffered_of env @ later"
  | (err) e where "\<not> accepted env"
      "DialThroughProxyHTTP env proxyAddr addr = (Inl e, stopWatch (prologue env addr) @ [CloseIt])"
proof -
  have steps: "(if ceCancellable env then a1 @ [StartWatch] else stopWatch a1) @
      [WriteText (connect_request addr)] = prologue env addr"
    if "a1 = (case ceDeadline env of Some dl \<Rightarrow> [SetDeadline (Some dl)] | None \<Rightarrow> [])" for a1
    by (simp add: that prologue_def stopWatch_def split: option.split)
  have eq: "DialThroughProxyHTTP env proxyAddr addr =
    (case ceWriteErr env of
       Some err \<Rightarrow> fail (SendConnectFailed proxyAddr addr err) (prologue env addr)
     | None \<Rightarrow>
         (case ceReply env of
            Inl err \<Rightarrow> fail (BadReply proxyAddr err) (prologue env addr)
          | Inr (code, status, buffered) \<Rightarrow>
              if code < 200 \<or> 299 < code
              then fail (Refused proxyAddr addr status) (prologue env addr)
              else (Inr (if buffered = '''' then Bare c else Buffered c buffered),
                    stopWatch (prologue env addr) @ [SetDeadline None])))"
    unfolding DialThroughProxyHTTP_def assms Let_def sum.case steps [OF refl]
      connectStatusMin_def connectStatusMax_def ..
  show thesis
  proof (cases "accepted env")
    case True
    then obtain code status buf where r: "ceWriteErr env = None" "ceReply env = Inr (code, status, buf)"
        "200 \<le> code" "code \<le> 299"
      by (auto simp: accepted_def split: sum.splits)
    show thesis
      by (rule ok [OF True, where t = "if buf = '''' then Bare c else Buffered c buf"])
         (use r in \<open>simp_all add: eq buffered_of_def\<close>)
  next
    case False
    then show thesis
      using err [OF False] eq
      by (auto simp: accepted_def fail_def split: option.splits sum.splits if_splits)
  qed
qed

lemma prologue_steps:
  "filter (\<lambda>s. s = StopWatch) (stopWatch (prologue env addr)) = [StopWatch]"
  "filter (\<lambda>s. s = StartWatch) (stopWatch (prologue env addr)) =
     (if ceCancellable env then [StartWatch] else [])"
  "filter (\<lambda>s. \<exists>t. s = WriteText t) (stopWatch (prologue env addr)) = [WriteText (connect_request addr)]"
  "CloseIt \<notin> set (stopWatch (prologue env addr))"
  by (auto simp: prologue_def stopWatch_def split: option.split)

text \<open>C36: Dialling through an HTTP proxy. When the proxy cannot be reached nothing else happens.
  Otherwise the CONNECT request is written exactly once and the watcher of the context, started
  only for a context that can be cancelled, is stopped exactly once. The call succeeds exactly
  for a reply with a status from 200 to 299; then the connection stays open, the caller reads
  first the bytes that came with the reply and then the rest, and no deadline is left, unless
  the watcher fires after the dialler's last step. In every other case the connection is closed,
  once, as the last step.\<close>

theorem connect_outcome:
  "case ceDial env of
     Inl err \<Rightarrow> DialThroughProxyHTTP env proxyAddr addr = (Inl (ProxyDialFailed proxyAddr addr err), [])
   | Inr c \<Rightarrow>
       (case DialThroughProxyHTTP env proxyAddr addr of (result, steps) \<Rightarrow>
          filter (\<lambda>s. \<exists>t. s = WriteText t) steps = [WriteText (connect_request addr)] \<and>
          filter (\<lambda>s. s = StopWatch) steps = [StopWatch] \<and>
          filter (\<lambda>s. s = StartWatch) steps = (if ceCancellable env then [StartWatch] else []) \<and>
          (case result of
             Inr t \<Rightarrow> accepted env \<and> CloseIt \<notin> set steps \<and>
               tunnel_reads t later = buffered_of env @ later \<and> deadline_of steps = None \<and>
               deadline_of (fires_after k now steps) = (if k < length steps then None else Some now)
           | Inl e \<Rightarrow> \<not> accepted env \<and>
               filter (\<lambda>s. s = CloseIt) steps = [last steps] \<and> last steps = CloseIt))"
proof (cases "ceDial env")
  case (Inl err)
  then show ?thesis by (simp add: DialThroughProxyHTTP_def)
next
  case (Inr c)
  from Inr show ?thesis
  proof (cases rule: connect_cases [where proxyAddr = proxyAddr and addr = addr])
    case (ok t)
    have "deadline_of (fires_after k now (as @ [SetDeadline None])) =
        (if k < Suc (length as) then None else Some now)" for as
      by (cases "k \<le> length as") (simp_all add: fires_after_def deadline_of_def)
    with ok Inr show ?thesis by (simp add: prologue_steps deadline_of_def)
  next
    case (err e)
    have "filter (\<lambda>s. s = CloseIt) (stopWatch (prologue env addr)) = []"
      using prologue_steps(4) by (simp add: filter_empty_conv) metis
    with err Inr show ?thesis by (simp add: prologue_steps)
  qed
qed

section \<open>The contract of a client\<close>

datatype client_call = CallStart | CallClose

fun run_calls :: "('c \<Rightarrow> 'e option \<times> 'c) \<Rightarrow> ('c \<Rightarrow> 'e option \<times> 'c) \<Rightarrow> client_call list \<Rightarrow> 'c \<Rightarrow> 'c" where
  "run_calls start close [] c = c"
| "run_calls start close (CallStart # cs) c = run_calls start close cs (snd (start c))"
| "run_calls start close (CallClose # cs) c = run_calls start close cs (snd (close c))"

lemma run_calls_append [simp]:
  "run_calls start close (cs @ ds) c = run_calls start close ds (run_calls start close cs c)"
  by (induction start close cs c rule: run_calls.induct) auto

text \<open>What the instance expects of a client: \<open>Start\<close> makes it run or leaves it alone, \<open>Close\<close>
  stops it, lets \<open>Run\<close> return and can be repeated.\<close>

locale client_contract =
  fixes start :: "'c \<Rightarrow> 'e option \<times> 'c" and close :: "'c \<Rightarrow> 'e option \<times> 'c"
    and running :: "'c \<Rightarrow> bool" and returns :: "'c \<Rightarrow> bool"
  assumes start_runs: "fst (start c) = None \<Longrightarrow> running (snd (start c))"
    and start_fails: "fst (start c) \<noteq> None \<Longrightarrow> snd (start c) = c"
    and start_returns: "returns (snd (start c)) = returns c"
    and close_stops: "\<not> running (snd (close c))"
    and close_returns: "returns (snd (close c))"
    and close_again: "close (snd (close c)) = close c"
begin

lemma returns_iff: "returns (run_calls start close cs c) \<longleftrightarrow> returns c \<or> CallClose \<in> set cs"
proof (induction cs arbitrary: c)
  case (Cons x cs)
  show ?case by (cases x) (auto simp: Cons.IH start_returns close_returns)
qed simp

lemma closes_collapse:
  "run_calls start close (replicate (Suc n) CallClose) c = snd (close c)"
  by (induction n) (simp_all add: close_again)

lemma running_after_close: "\<not> running (run_calls start close (cs @ [CallClose]) c)"
  by (simp add: close_stops)

end

interpretation fake: client_contract Fake_Start Fake_Close fcRunning fcStop
  by unfold_locales (auto simp: Fake_Start_def Fake_Close_def split: option.splits)

lemma Fake_frame:
  "fcRunning (snd (Fake_Start c)) = (fcStartErr c = None \<or> fcRunning c)"
  "fcStarted (snd (Fake_Start c)) = (fcStartErr c = None \<or> fcStarted c)"
  "fcStartErr (snd (Fake_Start c)) = fcStartErr c" "fcRunErr (snd (Fake_Start c)) = fcRunErr c"
  "fcListenAddr (snd (Fake_Start c)) = fcListenAddr c" "fcStop (snd (Fake_Start c)) = fcStop c"
  "fcClosed (snd (Fake_Start c)) = fcClosed c"
  "fcRunning (snd (Fake_Close c)) = False" "fcStarted (snd (Fake_Close c)) = fcStarted c"
  "fcStartErr (snd (Fake_Close c)) = fcStartErr c" "fcRunErr (snd (Fake_Close c)) = fcRunErr c"
  "fcListenAddr (snd (Fake_Close c)) = fcListenAddr c" "fcStop (snd (Fake_Close c)) = True"
  "fcClosed (snd (Fake_Close c)) = True"
  by (simp_all add: Fake_Start_def Fake_Close_def split: option.split)

text \<open>The fake client after any sequence of starts and closes: \<open>Run\<close> returns, with the injected
  error, exactly when a close was among them; it has started exactly when a start was and no
  start error is injected; it reports to be running exactly when, on top of that, the last
  call was a start; and closing again changes nothing.\<close>

theorem fake_lifecycle:
  "let c0 = (NewFakeClient addr ep)\<lparr>fcStartErr := e1, fcRunErr := e2, fcCloseErr := e3\<rparr>;
       c = run_calls Fake_Start Fake_Close cs c0
   in Fake_Run c = (if CallClose \<in> set cs then Some e2 else None) \<and>
      fcClosed c = (CallClose \<in> set cs) \<and> fcStarted c = (e1 = None \<and> CallStart \<in> set cs) \<and>
      Fake_Status c = \<lparr>csRunning = (e1 = None \<and> cs \<noteq> [] \<and> last cs = CallStart),
                       csListenAddress = addr\<rparr> \<and>
      Fake_Close (run_calls Fake_Start Fake_Close (replicate (Suc n) CallClose) c) = Fake_Close c"
proof -
  define c0 where "c0 = (NewFakeClient addr ep)\<lparr>fcStartErr := e1, fcRunErr := e2, fcCloseErr := e3\<rparr>"
  have keep: "fcStartErr (run_calls Fake_Start Fake_Close cs c) = fcStartErr c"
    "fcRunErr (run_calls Fake_Start Fake_Close cs c) = fcRunErr c"
    "fcListenAddr (run_calls Fake_Start Fake_Close cs c) = fcListenAddr c"
    "fcStop (run_calls Fake_Start Fake_Close cs c) = (fcStop c \<or> CallClose \<in> set cs)"
    "fcClosed (run_calls Fake_Start Fake_Close cs c) = (fcClosed c \<or> CallClose \<in> set cs)"
    "fcStarted (run_calls Fake_Start Fake_Close cs c) =
       (fcStarted c \<or> fcStartErr c = None \<and> CallStart \<in> set cs)" for c cs
    by (induction Fake_Start "Fake_Close :: fakeClient \<Rightarrow> _" cs c rule: run_calls.induct)
       (auto simp: Fake_frame)
  have running: "fcRunning (run_calls Fake_Start Fake_Close cs c0) =
      (e1 = None \<and> cs \<noteq> [] \<and> last cs = CallStart)"
  proof (induction cs rule: rev_induct)
    case Nil
    show ?case by (simp add: c0_def NewFakeClient_def)
  next
    case (snoc x cs)
    then show ?case
      using keep(1) [of cs c0]
      by (cases x) (auto simp: Fake_frame c0_def NewFakeClient_def)
  qed
  show ?thesis
    unfolding Let_def c0_def [symmetric] fake.closes_collapse fake.close_again
    using keep [where c = c0] running
    by (simp add: Fake_Run_def Fake_Status_def c0_def NewFakeClient_def)
qed

end
