(* ===== verification/ProxyCmd.thy ===== *)
theory ProxyCmd
  imports DialProps AlignProps Relay
begin

text \<open>
  The command \<^verbatim>\<open>cmd/proxy\<close>: the configuration it builds from its flags, the HTTP handler that
  forwards plain requests and tunnels CONNECT through the pool. Headers are maps from names
  to value lists; a response lists its headers in the order in which the map is iterated. The
  round trip of the HTTP transport and the network are arguments; the log is left out.
\<close>

section \<open>Flags\<close>

definition defaultProxyListen :: string where "defaultProxyListen = ''127.0.0.1:8080''"
definition defaultMin :: int where "defaultMin = 1"
definition defaultMax :: int where "defaultMax = 4"
definition cmdStateDir :: string where "cmdStateDir = ''./warp-state''"

record flags =
  flListen :: string
  flMin :: int
  flMax :: int
  flState :: string
  flTransport :: string
  flEndpoints :: string

definition defaultFlags :: flags where
  "defaultFlags =
     \<lparr>flListen = defaultProxyListen, flMin = defaultMin, flMax = defaultMax, flState = cmdStateDir,
      flTransport = TransportSOCKS5, flEndpoints = ''''\<rparr>"

text \<open>\<open>strings.Split\<close> by one character.\<close>

fun SplitChar :: "char \<Rightarrow> string \<Rightarrow> string list" where
  "SplitChar c [] = [[]]"
| "SplitChar c (x # xs) =
     (if x = c then [] # SplitChar c xs
      else case SplitChar c xs of [] \<Rightarrow> [[x]] | s # ss \<Rightarrow> (x # s) # ss)"

definition flagOptions :: "flags \<Rightarrow> Options" where
  "flagOptions fl =
     \<lparr>oMin = flMin fl, oMax = flMax fl, oListenBase = '''', oStateDir = flState fl, oEvictor = None,
      oDedupeKeyer = Some DedupeByBoth, oEgressProbeV4URL = '''', oEgressProbeV6URL = '''',
      oHealthInterval = 0, oHealthTimeout = 0, oEgressCheckInterval = 0, oDrainTimeout = 0,
      oReplayBackoffStart = 0, oReplayBackoffMax = 0, oReplayConcurrency = 0,
      oDialTransport = flTransport fl,
      oEndpoints = (if flEndpoints fl \<noteq> '''' then SplitChar (CHR '','') (flEndpoints fl) else []),
      oCredentialSource = False, oLogger = Some UserLogger\<rparr>"

section \<open>Headers\<close>

type_synonym header = "string \<Rightarrow> string list option"

definition is_upper :: "char \<Rightarrow> bool" where
  "is_upper c \<longleftrightarrow> (of_char c :: nat) \<in> {65..90}"

definition is_lower :: "char \<Rightarrow> bool" where
  "is_lower c \<longleftrightarrow> (of_char c :: nat) \<in> {97..122}"

definition validHeaderFieldByte :: "char \<Rightarrow> bool" where
  "validHeaderFieldByte c \<longleftrightarrow> is_upper c \<or> is_lower c \<or> is_digit c \<or>
     c \<in> set ''!#$%&*+-.^_`|~'' \<or> (of_char c :: nat) = 39"

text \<open>\<open>textproto.CanonicalMIMEHeaderKey\<close>: an upper-case letter at the start and after each
  hyphen, lower case elsewhere; a name with a byte that is not allowed stays as it is.\<close>

fun canonical_case :: "bool \<Rightarrow> string \<Rightarrow> string" where
  "canonical_case up [] = []"
| "canonical_case up (c # cs) =
     (if up \<and> is_lower c then char_of (of_char c - 32 :: nat)
      else if \<not> up \<and> is_upper c then char_of (of_char c + 32 :: nat) else c)
     # canonical_case (c = CHR ''-'') cs"

definition CanonicalKey :: "string \<Rightarrow> string" where
  "CanonicalKey s = (if list_all validHeaderFieldByte s then canonical_case True s else s)"

definition Header_Del :: "string \<Rightarrow> header \<Rightarrow> header" where
  "Header_Del name h = h(CanonicalKey name := None)"

definition Header_Add :: "string \<Rightarrow> string \<Rightarrow> header \<Rightarrow> header" where
  "Header_Add name v h =
     h(CanonicalKey name := Some ((case h (CanonicalKey name) of None \<Rightarrow> [] | Some vs \<Rightarrow> vs) @ [v]))"

definition hopByHopHeaders :: "string list" where
  "hopByHopHeaders = [''Connection'', ''Keep-Alive'', ''Proxy-Authenticate'',
     ''Proxy-Authorization'', ''Te'', ''Trailer'', ''Transfer-Encoding'', ''Upgrade'']"

section \<open>Forwarding\<close>

record request =
  rqMethod :: string
  rqHost :: string
  rqURLHost :: string
  rqRequestURI :: string
  rqHeader :: header

record response =
  rsStatus :: int
  rsHeader :: "(string \<times> string list) list"
  rsBody :: string

text \<open>What the client gets: an error page of the handler, or a response.\<close>

datatype page_error = NotProxyForm | NoHijack | TransportError string | DialFailed "dial_error option"

datatype reply = HttpError int page_error | Sent int header string

definition addValues :: "string \<times> string list \<Rightarrow> header \<Rightarrow> header" where
  "addValues nv h = fold (Header_Add (fst nv)) (snd nv) h"

text \<open>\<open>forward\<close>; \<open>w\<close> is the header the writer holds already. The second component is the
  request handed to the transport, if any.\<close>

definition forward ::
  "(request \<Rightarrow> string + response) \<Rightarrow> header \<Rightarrow> request \<Rightarrow> reply \<times> request option" where
  "forward roundTrip w r =
     (if rqURLHost r = '''' then (HttpError 400 NotProxyForm, None)
      else
        (let r' = r\<lparr>rqRequestURI := '''', rqHeader := fold Header_Del hopByHopHeaders (rqHeader r)\<rparr>
         in (case roundTrip r' of
               Inl err \<Rightarrow> HttpError 502 (TransportError err)
             | Inr resp \<Rightarrow> Sent (rsStatus resp) (fold addValues (rsHeader resp) w) (rsBody resp),
             Some r')))"

section \<open>Tunnels\<close>

text \<open>How a CONNECT request ends. \<open>Relaying\<close> is the relay between the client and the target
  until one direction ends.\<close>

datatype tunnel_end = Refuse reply | HijackFailed | EstablishFailed | Relaying instanceConn

text \<open>\<open>tunnelConnect\<close>: \<open>hijackable\<close> says whether the writer can be hijacked, \<open>hijackErr\<close> and
  \<open>writeErr\<close> whether hijacking and the answer to the client fail, \<open>during\<close> what the rest of
  the program does to the pool before the target is closed.\<close>

definition tunnelConnect ::
  "bool \<Rightarrow> ctx_errs \<Rightarrow> dial_net \<Rightarrow> bool \<Rightarrow> bool \<Rightarrow> (pool \<Rightarrow> pool) \<Rightarrow> (conn \<Rightarrow> string option) \<Rightarrow>
   pool \<Rightarrow> tunnel_end \<times> pool" where
  "tunnelConnect hijackable ctxErr through hijackErr writeErr during closeErr p =
     (if \<not> hijackable then (Refuse (HttpError 500 NoHijack), p)
      else case DialContext ctxErr through p of
        (Inl err, p1) \<Rightarrow> (Refuse (HttpError 502 (DialFailed err)), p1)
      | (Inr target, p1) \<Rightarrow>
          (let finish = (\<lambda>q. snd (conn_Close closeErr target q))
           in if hijackErr then (HijackFailed, finish (during p1))
              else if writeErr then (EstablishFailed, finish (during p1))
              else (Relaying target, finish (during p1))))"

text \<open>\<open>ServeHTTP\<close>\<close>

datatype served = Tunnelled tunnel_end | Forwarded reply "request option"

definition ServeHTTP ::
  "(pool \<Rightarrow> tunnel_end \<times> pool) \<Rightarrow> (request \<Rightarrow> string + response) \<Rightarrow> header \<Rightarrow> request \<Rightarrow> pool \<Rightarrow>
   served \<times> pool" where
  "ServeHTTP connect roundTrip w r p =
     (if rqMethod r = ''CONNECT'' then (case connect p of (e, p') \<Rightarrow> (Tunnelled e, p'))
      else (case forward roundTrip w r of (rep, out) \<Rightarrow> (Forwarded rep out, p)))"

section \<open>What is forwarded\<close>

abbreviation values_of :: "header \<Rightarrow> string \<Rightarrow> string list" where
  "values_of h n \<equiv> (case h n of None \<Rightarrow> [] | Some vs \<Rightarrow> vs)"

lemma canonical_hop: "map CanonicalKey hopByHopHeaders = hopByHopHeaders"
  by code_simp

lemma fold_Del: "fold Header_Del ns h n = (if n \<in> set (map CanonicalKey ns) then None else h n)"
  by (induction ns arbitrary: h) (auto simp: Header_Del_def)

lemma strip_hop: "fold Header_Del hopByHopHeaders h n = (if n \<in> set hopByHopHeaders then None else h n)"
  unfolding fold_Del canonical_hop ..

lemma fold_Add:
  "values_of (fold (Header_Add m) vs h) n = values_of h n @ (if CanonicalKey m = n then vs else [])"
  by (induction vs arbitrary: h) (auto simp: Header_Add_def)

lemma fold_addValues:
  "values_of (fold addValues nvs h) n =
     values_of h n @ concat (map snd (filter (\<lambda>nv. CanonicalKey (fst nv) = n) nvs))"
proof (induction nvs arbitrary: h)
  case (Cons nv nvs)
  have "values_of (addValues nv h) n = values_of h n @ (if CanonicalKey (fst nv) = n then snd nv else [])"
    unfolding addValues_def by (rule fold_Add)
  then show ?case by (simp add: Cons.IH)
qed simp

text \<open>C38: Forwarding a plain request. One that is not in proxy form is answered 400 and not sent.
  Otherwise the transport gets the same request without the hop-by-hop headers and with no
  other header touched; its failure is answered 502; its response reaches the client with
  the same status and body, each header keeping the values the writer had, followed by all
  the values the response has under a spelling of that name, in order.\<close>

theorem forward_outcome:
  "case forward roundTrip w r of (rep, out) \<Rightarrow>
     (case out of
        None \<Rightarrow> rqURLHost r = '''' \<and> rep = HttpError 400 NotProxyForm
      | Some r' \<Rightarrow> rqURLHost r \<noteq> '''' \<and>
          r' = r\<lparr>rqRequestURI := '''', rqHeader := (\<lambda>n.
            if n \<in> {''Connection'', ''Keep-Alive'', ''Proxy-Authenticate'', ''Proxy-Authorization'',
              ''Te'', ''Trailer'', ''Transfer-Encoding'', ''Upgrade''} then None else rqHeader r n)\<rparr> \<and>
          (case roundTrip r' of
             Inl err \<Rightarrow> rep = HttpError 502 (TransportError err)
           | Inr resp \<Rightarrow>
               (\<exists>h. rep = Sent (rsStatus resp) h (rsBody resp) \<and>
                  (\<forall>n. values_of h n = values_of w n @
                     concat (map snd (filter (\<lambda>nv. CanonicalKey (fst nv) = n) (rsHeader resp)))))))"
proof (cases "rqURLHost r = ''''")
  case False
  have "fold Header_Del hopByHopHeaders (rqHeader r) = (\<lambda>n.
      if n \<in> set hopByHopHeaders then None else rqHeader r n)"
    by (rule ext) (rule strip_hop)
  then show ?thesis
    using False fold_addValues
    by (auto simp: forward_def Let_def hopByHopHeaders_def split: sum.split)
qed (simp add: forward_def)

section \<open>Tunnels\<close>

lemma DialContext_failed:
  assumes "pool_reach raw p" and "DialContext ctxErr through p = (Inl err, q)"
  shows "pStore q = pStore p"
proof -
  let ?cs = "normalCandidates p (snapshot p)" and ?p1 = "p\<lparr>pCursor := pCursor p + 1\<rparr>"
  have cs: "normalCandidates ?p1 (snapshot ?p1) = ?cs" by (simp add: normalCandidates_def snapshot_def)
  consider "pClosed p" | "?cs = []" "\<not> pClosed p" | "?cs \<noteq> []" "\<not> pClosed p" by blast
  then show ?thesis
  proof cases
    case 1
    with assms(2) show ?thesis by (simp add: DialContext_def)
  next
    case 2
    with assms(2) cs show ?thesis
      by (simp add: DialContext_def nextStart_def dial_def Let_def) auto
  next
    case 3
    with assms(2) cs have loop: "dialLoop ctxErr through 0 (rotation (pCursor p) ?cs) None ?p1 = (Inl err, q)"
      by (simp add: DialContext_def nextStart_def dial_def Let_def)
    obtain j where "dial_outcome ctxErr through ?p1 (rotation (pCursor p) ?cs) 0 None (Inl err, q) j"
      using dialLoop_outcome [of ctxErr through ?p1 "rotation (pCursor p) ?cs" 0 None] unfolding loop by blast
    then show ?thesis by (auto simp: dial_outcome_def split: if_splits option.splits)
  qed
qed

text \<open>C37: A CONNECT request leaves nothing registered in the pool. Whatever becomes of it (no
  hijacking, no instance, a failed dial, a failed hijack or answer, or a relay that ended),
  the connections in flight of every instance are afterwards what they were before, if
  nobody else changed the pool and the connection the network gave was a new one; and a
  target that was dialled is taken off its instance whatever others did meanwhile.\<close>

theorem tunnel_releases:
  assumes "pool_reach raw p"
    and "\<And>c q. DialContext ctxErr through p = (Inr c, q) \<Longrightarrow>
      \<forall>i \<in> set (pInsts p). icConn c \<notin> inConns (handleOf p i)"
  shows "pStore (snd (tunnelConnect hij ctxErr through he we (\<lambda>q. q) closeErr p)) = pStore p \<and>
    (case tunnelConnect hij ctxErr through he we during closeErr p of (e, q) \<Rightarrow>
       (case e of
          Relaying c \<Rightarrow> icConn c \<notin> inConns (handleOf q (icInst c)) \<and> icInst c \<in> set (pInsts p) \<and>
            statusOf p (icInst c) = StatusNormal
        | _ \<Rightarrow> True))"
proof (cases "fst (DialContext ctxErr through p)")
  case (Inl err)
  then obtain q where "DialContext ctxErr through p = (Inl err, q)" by (metis prod.collapse)
  with DialContext_failed [OF assms(1) this] show ?thesis by (simp add: tunnelConnect_def)
next
  case (Inr c)
  then obtain q where d: "DialContext ctxErr through p = (Inr c, q)" by (metis prod.collapse)
  then have "\<not> pClosed p" by (auto simp: DialContext_def)
  note reg = dial_registers [OF assms(1) this d]
  have "icInst c \<in> dom (pStore p)"
    using reg pool_inv_member [OF pool_reach_inv [OF assms(1)]] by blast
  then have "pStore (snd (conn_Close closeErr c q)) = pStore p"
    using reg assms(2) [OF d] by (simp add: conn_Close_def untrack_track)
  with d reg show ?thesis
    by (simp add: tunnelConnect_def Let_def conn_Close_def untrackConn_def)
qed

lemma tunnel_releases_witness:
  "pStore (snd (tunnelConnect True (\<lambda>k. None) (\<lambda>k a. Inr 9) False False (\<lambda>q. q) (\<lambda>c. None) demoServing))
     = pStore demoServing \<and>
   (\<exists>c q. DialContext (\<lambda>k. None) (\<lambda>k a. Inr 9) demoServing = (Inr c, q))"
proof -
  have fresh: "\<forall>i \<in> set (pInsts demoServing). icConn c \<notin> inConns (handleOf demoServing i)" for c
    by (simp add: demoServing_fields demoHandle_def)
  have "normalCandidates (demoServing\<lparr>pCursor := 1\<rparr>) (snapshot (demoServing\<lparr>pCursor := 1\<rparr>)) = [seqID 0]"
    using demoServing_fields(3-5) by (simp add: normalCandidates_def snapshot_def)
  then have "\<exists>c q. DialContext (\<lambda>k. None) (\<lambda>k a. Inr 9) demoServing = (Inr c, q)"
    by (simp add: DialContext_def nextStart_def dial_def demoServing_fields(8,9) rotation_def
        dialView_def Let_def infoOf_def)
  with tunnel_releases [OF reach_demoServing fresh, where ctxErr = "\<lambda>k. None" and through = "\<lambda>k a. Inr 9"
      and hij = True and he = False and we = False and closeErr = "\<lambda>c. None"]
  show ?thesis by blast
qed

section \<open>The configuration\<close>

lemma SplitChar_neq_Nil: "SplitChar c s \<noteq> []"
  by (cases s) (auto split: list.split)

text \<open>The flags make a valid configuration exactly when the limits are in order, the transport is
  known and every part of the endpoint list is host and port.\<close>

lemma flags_valid:
  "Validate (withDefaults (flagOptions fl)) = None \<longleftrightarrow>
     0 < flMin fl \<and> flMin fl \<le> flMax fl \<and> flMax fl \<le> 65535 \<and>
     flTransport fl \<in> {'''', TransportSOCKS5, TransportHTTP} \<and>
     (flEndpoints fl = '''' \<or>
      list_all (\<lambda>ep. validateHostPort ep = None) (SplitChar (CHR '','') (flEndpoints fl)))"
proof -
  have "validateHostPort defaultListenBase = None"
    using demo_alloc validateHostPort_allocator by blast
  then show ?thesis
    unfolding Validate_withDefaults
    by (auto simp: flagOptions_def if_empty_def if_not_positive_def default_defs maxListenPort_def
        list_all_iff)
qed

section \<open>The command\<close>

text \<open>\<open>main\<close>: the pool, the listener, then the server until a signal; the deferred \<open>Close\<close> of
  the pool runs at the return, but not after \<open>log.Fatal\<close>. \<open>listenOk\<close> says whether the listener
  can be opened, \<open>during\<close> what happens to the pool until the shutdown of the server has
  ended. The result is how the process ends and the pool it leaves.\<close>

datatype main_end = FatalNew new_error | FatalListen | Stopped

definition run_main :: "flags \<Rightarrow> bool \<Rightarrow> bool \<Rightarrow> (pool \<Rightarrow> pool) \<Rightarrow> main_end \<times> pool option" where
  "run_main fl dirOk listenOk during =
     (case Pool_New (flagOptions fl) dirOk of
        Inl err \<Rightarrow> (FatalNew err, None)
      | Inr p \<Rightarrow>
          if \<not> listenOk then (FatalListen, Some p)
          else (Stopped, Some (snd (Pool_Close (during p)))))"

text \<open>\<open>statusLoop\<close>: at every tick the statistics and a line for each instance, until the context
  is done; a tick is the state of the pool at that time.\<close>

datatype status_input = StatusTick pool | StatusDone

fun statusLoop :: "status_input list \<Rightarrow> (Stats \<times> (ID \<times> Status \<times> Addr) list) list" where
  "statusLoop (StatusTick p # is) =
     (Pool_Stats p, map (\<lambda>info. (iiID info, iiStatus info, eV4 (iiEgress info))) (Instances p)) # statusLoop is"
| "statusLoop _ = []"

lemma flags_pool:
  "(\<exists>p. newPool (flagOptions fl) dirOk = Inr p) \<longleftrightarrow> dirOk \<and> Validate (withDefaults (flagOptions fl)) = None"
proof -
  have "oListenBase (withDefaults (flagOptions fl)) = defaultListenBase"
    by (simp add: withDefaults_def flagOptions_def if_empty_def)
  then show ?thesis by (auto simp: newPool_def Let_def demo_alloc split: option.split)
qed

text \<open>The default flags ask for one to four instances, removed in no case to make room, with keys
  over both addresses.\<close>

lemma default_flags_pool:
  "\<exists>p. newPool (flagOptions defaultFlags) True = Inr p \<and> pMin p = 1 \<and> pMax p = 4 \<and>
     oEvictor (pOpts p) = Some EvictNone \<and> oDedupeKeyer (pOpts p) = Some DedupeByBoth \<and>
     pDialThrough p = DialThroughProxy"
proof -
  have "Validate (withDefaults (flagOptions defaultFlags)) = None"
    unfolding flags_valid by (simp add: defaultFlags_def defaultMin_def defaultMax_def)
  then obtain p where p: "newPool (flagOptions defaultFlags) True = Inr p" using flags_pool by blast
  have "pDialThrough p = DialThroughProxy"
    using p by (auto simp: newPool_def Let_def withDefaults_def flagOptions_def defaultFlags_def
        if_empty_def TransportSOCKS5_def TransportHTTP_def split: option.splits sum.splits)
  moreover have "pMin p = 1" "pMax p = 4" "oEvictor (pOpts p) = Some EvictNone"
      "oDedupeKeyer (pOpts p) = Some DedupeByBoth"
    using newPool_fields [OF p]
    by (auto simp: flagOptions_def defaultFlags_def defaultMin_def defaultMax_def int32_def
        withDefaults_def if_nil_def)
  ultimately show ?thesis using p by blast
qed

text \<open>C40: The course of the command. It gets to the listener exactly when the state directory can
  be made, its limits are in order, the transport is known and every part of the endpoint list
  is host and port. If the listener can be opened, it ends with the pool closed, which then
  refuses every dial, provided nothing else has closed the pool before. If not, it
  exits and leaves the pool it started as it is, not closed. The default flags start a pool
  of one to four instances.\<close>

theorem command_course:
  "(case run_main fl dirOk listenOk during of
      (FatalNew e, q) \<Rightarrow> newPool (flagOptions fl) dirOk = Inl e \<and> q = None
    | (FatalListen, q) \<Rightarrow> \<not> listenOk \<and> (\<exists>p. newPool (flagOptions fl) dirOk = Inr p \<and> q = Some p \<and> \<not> pClosed p)
    | (Stopped, q) \<Rightarrow> listenOk \<and> (\<exists>p p'. newPool (flagOptions fl) dirOk = Inr p \<and> q = Some p' \<and>
        (\<not> pCloseOnce (during p) \<longrightarrow> pClosed p' \<and> pCancelled p' \<and>
           (\<forall>ctxErr through. DialContext ctxErr through p' = (Inl (Some DialPoolClosed), p'))))) \<and>
   ((\<exists>p. newPool (flagOptions fl) dirOk = Inr p) \<longleftrightarrow>
     dirOk \<and> 0 < flMin fl \<and> flMin fl \<le> flMax fl \<and> flMax fl \<le> 65535 \<and>
     flTransport fl \<in> {'''', TransportSOCKS5, TransportHTTP} \<and>
     (flEndpoints fl = '''' \<or>
      list_all (\<lambda>ep. validateHostPort ep = None) (SplitChar (CHR '','') (flEndpoints fl)))) \<and>
   (\<exists>p. newPool (flagOptions defaultFlags) True = Inr p \<and> pMin p = 1 \<and> pMax p = 4 \<and>
     oEvictor (pOpts p) = Some EvictNone)"
proof -
  have "case run_main fl dirOk listenOk during of
      (FatalNew e, q) \<Rightarrow> newPool (flagOptions fl) dirOk = Inl e \<and> q = None
    | (FatalListen, q) \<Rightarrow> \<not> listenOk \<and> (\<exists>p. newPool (flagOptions fl) dirOk = Inr p \<and> q = Some p \<and> \<not> pClosed p)
    | (Stopped, q) \<Rightarrow> listenOk \<and> (\<exists>p p'. newPool (flagOptions fl) dirOk = Inr p \<and> q = Some p' \<and>
        (\<not> pCloseOnce (during p) \<longrightarrow> pClosed p' \<and> pCancelled p' \<and>
           (\<forall>ctxErr through. DialContext ctxErr through p' = (Inl (Some DialPoolClosed), p'))))"
  proof (cases "newPool (flagOptions fl) dirOk")
    case (Inl e)
    then show ?thesis by (simp add: run_main_def Pool_New_def)
  next
    case (Inr p)
    moreover have "\<not> pClosed p" using newPool_fields [OF Inr] by blast
    ultimately show ?thesis
      by (simp add: run_main_def Pool_New_def Pool_Close_def Close_def DialContext_def)
  qed
  with flags_pool [of fl dirOk] flags_valid [of fl] default_flags_pool show ?thesis by blast
qed

lemma command_course_witness:
  "\<exists>q. run_main defaultFlags True True (\<lambda>p. p) = (Stopped, Some q) \<and> pClosed q \<and> pCancelled q"
proof -
  obtain p where p: "newPool (flagOptions defaultFlags) True = Inr p" using default_flags_pool by blast
  then have "\<not> pCloseOnce p" using newPool_fields by blast
  moreover have r: "run_main defaultFlags True True (\<lambda>p. p) = (Stopped, Some (snd (Pool_Close p)))"
    using p by (simp add: run_main_def Pool_New_def)
  moreover have "pClosed (snd (Pool_Close p)) \<and> pCancelled (snd (Pool_Close p))"
    using command_course [of defaultFlags True True "\<lambda>p. p"] calculation(1) unfolding r by (simp add: p)
  ultimately show ?thesis by blast
qed

end
