(* ===== verification/Spec2Isabelle.thy ===== *)
theory Spec2Isabelle
  imports Recovery Directory Closing EvictionRef RunExit Relay EgressProps CredentialProps ServerLife AmzWrap ProxyCmd
begin

text \<open>
  A verification development for the WARP proxy pool, package \<^verbatim>\<open>warppool\<close>: a set of tunnel
  instances, each with a SOCKS5 or HTTP proxy of its own, kept at different egress addresses
  and offered to clients as one dialler.

  \<^bold>\<open>The program.\<close> A pool (\<^verbatim>\<open>pool.go\<close>) is run by one coordinator goroutine, \<open>reconcile\<close>. It
  creates and removes instances so that between \<open>Min\<close> and \<open>Max\<close> of them are active (\<open>align\<close>),
  takes the events the instances report, decides whether a reported egress may be used
  (\<open>handleReady\<close>, with the two key tables), and checks the running ones in the background
  (\<open>healthCheck\<close>, \<open>egressCheck\<close>). It answers with commands, which it never waits to deliver.
  Each instance (\<^verbatim>\<open>instance.go\<close>) is a management goroutine of its own: it brings a tunnel
  client up, with a new identity and a longer back-off after each failure, probes the egress
  through it, reports, and obeys. Callers dial (\<^verbatim>\<open>dial.go\<close>) through an instance that is in
  service, in rotation or in the order a key determines, and each connection is registered
  with its instance, which cuts it when it is drained.

  \<^bold>\<open>The theories\<close>, by the code they translate.
  \<^item> \<open>Prelude\<close>: 64- and 32-bit integers, durations, maps with a zero value, shared lemmas.
    \<open>GoText\<close>, \<open>NetAddr\<close>, \<open>GoSort\<close>: the parts of Go's library the program uses: decimal
    numbers, host and port, \<open>netip.Addr\<close> with its printing and parsing, \<open>slices.SortFunc\<close>.
  \<^item> \<open>Status\<close> (\<^verbatim>\<open>status.go\<close>), \<open>Eviction\<close> (\<^verbatim>\<open>eviction.go\<close>), \<open>Options\<close> (\<^verbatim>\<open>options.go\<close>),
    \<open>Credential\<close> (\<^verbatim>\<open>credential.go\<close>), \<open>Egress\<close> (\<^verbatim>\<open>egress.go\<close>), \<open>Ports\<close> (\<open>portAllocator\<close> of
    \<^verbatim>\<open>pool.go\<close>).
  \<^item> \<open>Instance\<close> (\<^verbatim>\<open>instance.go\<close>): the record \<open>handle\<close> is what other goroutines see of an
    instance (identity, atomic cells, command channel, connections), \<open>inst\<close> extends it by the
    fields of the management goroutine. Each function of the goroutine is one definition.
  \<^item> \<open>Pool\<close> (\<^verbatim>\<open>pool.go\<close>): the record \<open>pool\<close> holds the coordinator's tables and \<open>pStore\<close>, a store
    from instance identities to handles, because a snapshot, the tables and the instances
    share them. \<open>Dial\<close> (\<^verbatim>\<open>dial.go\<close> and the facade \<^verbatim>\<open>warppool.go\<close>).
  \<^item> \<open>AmzWrap\<close> (\<^verbatim>\<open>internal/amzwrap\<close>, \<^verbatim>\<open>internal/fakeamz\<close>): the adapter of the tunnel client, the
    dialling through the proxy of an instance, the fake client. \<open>TestServers\<close>
    and \<open>ServerLife\<close> (\<^verbatim>\<open>internal/testutil\<close>): the two proxies the tests run, their protocols and
    their life from start to \<open>Close\<close>, as a step relation. \<open>ProxyCmd\<close> (\<^verbatim>\<open>cmd/proxy\<close>): flags,
    course and HTTP handler of the command; \<open>Relay\<close>: the relay between two connections, which
    it shares with the test proxies.

  \<^bold>\<open>Inputs and concurrency.\<close> Whatever comes from outside is an argument. An instance runs
  against a script of inputs: each place where the goroutine waits or calls out takes the next
  input, and a script that is used up, or offers something that is not waited for, leaves it
  \<open>Parked\<close> there. Runs over all scripts visit every state in which the goroutine can be found.
  Its loops are bounded by the script, with no fuel: every round takes an input, or a command
  put aside earlier, which is what the termination proofs measure (\<open>load\<close>). A step of the
  coordinator is atomic. Between two steps the instances may do anything to the store that
  the relation \<open>store_ext\<close> of \<open>PoolInv\<close> allows; that instances do no more is proved of their
  goroutine (\<open>goroutine_interface\<close>). Orders the code leaves open, the iteration over a map or
  the arrival of results, are arguments too, and the properties hold for all of them.

  \<^bold>\<open>The lemmas.\<close>
  \<^item> \<open>InstanceInv\<close>: a monitor automaton for the visible actions of an instance and the
    invariants that every function keeps; \<open>ScriptInv\<close>: the locale \<open>script_invariant\<close>, from the
    elementary moves to every reachable state. \<open>InstanceProps\<close>, \<open>InstanceRuns\<close>: what every run
    satisfies, and what particular environments lead to (recovery, draining, lost commands).
    \<open>Shutdown\<close>: a run is preserved by extending its script, and a cancelled context ends it.
  \<^item> \<open>PoolInv\<close>, \<open>PoolSteps\<close>: the invariant of the coordinator's state, the step relation and
    the reachable pools; \<open>PoolFrame\<close>: the locale \<open>pool_invariant\<close>, from the elementary updates
    to every reachable pool.
    \<open>PoolProps\<close>, \<open>AlignProps\<close>, \<open>CheckProps\<close>: the key registry, alignment and
    eviction, the background checks and the setters. \<open>DialProps\<close>: order, outcome and
    bookkeeping of dialling.
  \<^item> \<open>Composition\<close>, \<open>ColdStart\<close>, \<open>Recovery\<close>: coordinator and instances together, from a
    command to its effect, from a configuration to a serving pool, and from a lost client back
    into service. \<open>Members\<close>: what a reachable pool consists of. \<open>RunExit\<close>: the channel of the
    loss signals, and when it drops one. \<open>Closing\<close>: from \<open>Close\<close> to the end of every member.
  \<^item> \<open>Directory\<close>: the abstract specification of the pool, a directory of members in which every
    key has at most one owner, and the simulation of every step of the pool by steps of the
    directory. \<open>EvictionRef\<close>: the evictor against a stable sort.
  \<^item> \<open>EgressProps\<close>, \<open>CredentialProps\<close>: what a probe and a state file determine.

  \<^bold>\<open>Interfaces.\<close> Locales state what one part relies on in another: \<open>dedupe_keyer\<close> and
  \<open>identifying_keyer\<close> (the three keyers), \<open>evictor_contract\<close> and \<open>settled_evictor\<close> (both
  policies), \<open>slot_allocator\<close> (the port allocator), \<open>sort_func\<close> (sorting), \<open>script_invariant\<close>
  (invariants of the goroutine), \<open>pool_invariant\<close> (invariants of the pool), \<open>client_contract\<close>
  (the fake client).

  \<^bold>\<open>Not modelled.\<close> Logging and the texts of log lines and wrapped errors (errors are
  constructors). The wrap-around of the 64-bit statistics counters, which are natural numbers.
  The cryptography and traffic of the tunnel library, and its answers, which
  are arguments, as are those of the SOCKS5 dialler, of \<open>http.ReadResponse\<close>, of the file system
  and of the clock. The HTTP server and the signal handling that \<^verbatim>\<open>cmd/proxy\<close> uses.
\<close>

end
